(* ===== verification/BB_Prelude.thy ===== *)
theory BB_Prelude
  imports Main "HOL-Library.Word" "HOL-Library.AList"
begin

text \<open>
  The vocabulary every component shares.

  \<^item> A Go map is an association list with distinct keys. The order of the list is the order in
    which a \<open>for ... range\<close> visits the map. Go leaves that order open, so a theorem about every
    list covers every order. \<open>mget\<close>, \<open>mput\<close> and \<open>mdel\<close> are index, assignment and \<open>delete\<close>.
  \<^item> Fallible code returns \<open>string + 'a\<close>, with \<open>Inl\<close> holding the error.
  \<^item> \<open>fmt_int\<close> is the verb \<open>%d\<close> of \<open>fmt.Sprintf\<close>; \<open>be16\<close> and \<open>be32\<close> are
    \<open>binary.BigEndian\<close> on two and four bytes; \<open>wrap64\<close> is the value an \<open>int64\<close> holds
    after an operation whose exact result is the argument.
  \<^item> The locale \<open>keyed_store\<close> is the contract of a keyed container (a lookup after an insert or
    a delete); \<open>invariant_run\<close> lifts an invariant of one operation to a run of operations.
\<close>

named_theorems gomap \<open>how the map operations act on lookups and on the distinctness of keys\<close>

section \<open>Go maps\<close>

type_synonym ('k, 'v) gomap = "('k \<times> 'v) list"

abbreviation mget :: "('k, 'v) gomap \<Rightarrow> 'k \<Rightarrow> 'v option" where
  "mget m k \<equiv> map_of m k"

abbreviation mput :: "('k, 'v) gomap \<Rightarrow> 'k \<Rightarrow> 'v \<Rightarrow> ('k, 'v) gomap" where
  "mput m k v \<equiv> AList.update k v m"

abbreviation mdel :: "('k, 'v) gomap \<Rightarrow> 'k \<Rightarrow> ('k, 'v) gomap" where
  "mdel m k \<equiv> AList.delete k m"

abbreviation mkeys :: "('k, 'v) gomap \<Rightarrow> 'k set" where
  "mkeys m \<equiv> fst ` set m"

abbreviation wf_map :: "('k, 'v) gomap \<Rightarrow> bool" where
  "wf_map m \<equiv> distinct (map fst m)"

definition mfilter :: "('k \<Rightarrow> 'v \<Rightarrow> bool) \<Rightarrow> ('k, 'v) gomap \<Rightarrow> ('k, 'v) gomap" where
  "mfilter P m = filter (\<lambda>(k, v). P k v) m"

text \<open>Indexing a Go map with a missing key yields the zero value of the element type.\<close>

definition mget_or :: "'v \<Rightarrow> ('k, 'v) gomap \<Rightarrow> 'k \<Rightarrow> 'v" where
  "mget_or z m k = (case mget m k of None \<Rightarrow> z | Some v \<Rightarrow> v)"

lemma mget_mput [gomap, simp]: "map_of (AList.update k v m) = (map_of m)(k \<mapsto> v)"
  by (rule AList.update_conv')

lemma mget_mdel [gomap, simp]: "map_of (AList.delete k m) = (map_of m)(k := None)"
  by (rule AList.delete_conv')

lemma wf_mput [gomap, simp, intro]: "wf_map m \<Longrightarrow> wf_map (AList.update k v m)"
  by (rule AList.distinct_update)

lemma wf_mdel [gomap, simp, intro]: "wf_map m \<Longrightarrow> wf_map (AList.delete k m)"
  by (rule AList.distinct_delete)

lemma wf_mfilter [gomap, simp, intro]: "wf_map m \<Longrightarrow> wf_map (mfilter P m)"
  unfolding mfilter_def by (induction m) auto

lemma mkeys_mput [gomap, simp]: "fst ` set (AList.update k v m) = insert k (fst ` set m)"
  by (simp add: AList.dom_update)

lemma mget_in_set [gomap]: "wf_map m \<Longrightarrow> map_of m k = Some v \<longleftrightarrow> (k, v) \<in> set m"
  by simp

lemma mget_mfilter [gomap]:
  "wf_map m \<Longrightarrow> map_of (mfilter P m) k = (case map_of m k of None \<Rightarrow> None
     | Some v \<Rightarrow> if P k v then Some v else None)"
  unfolding mfilter_def
  by (induction m) (auto split: option.splits simp: map_of_eq_None_iff image_iff)

lemma mget_mfilter_le: "map_of (mfilter P m) k = Some v \<Longrightarrow> wf_map m \<Longrightarrow> map_of m k = Some v \<and> P k v"
  by (auto simp: mget_mfilter split: option.splits if_splits)

lemma mkeys_mget: "k \<in> mkeys m \<longleftrightarrow> map_of m k \<noteq> None"
  by (simp add: map_of_eq_None_iff)

lemma map_of_map_val: "map_of (map (\<lambda>(k, v). (k, f v)) m) k = map_option f (map_of m k)"
  by (induction m) auto

lemma map_of_map_key_val: "map_of (map (\<lambda>(k, v). (k, f k v)) m) k = map_option (f k) (map_of m k)"
  by (induction m) auto

lemma wf_map_val [simp]: "wf_map (map (\<lambda>(k, v). (k, f k v)) m) = wf_map m"
  by (simp add: comp_def case_prod_beta)

text \<open>The contract of a keyed container, as its clients use it.\<close>

locale keyed_store =
  fixes get :: "'s \<Rightarrow> 'k \<Rightarrow> 'v option"
    and put :: "'s \<Rightarrow> 'k \<Rightarrow> 'v \<Rightarrow> 's"
    and del :: "'s \<Rightarrow> 'k \<Rightarrow> 's"
    and inv :: "'s \<Rightarrow> bool"
    and ok :: "'k \<Rightarrow> bool"
  assumes get_put: "inv s \<Longrightarrow> ok k \<Longrightarrow> ok k' \<Longrightarrow>
      get (put s k v) k' = (if k' = k then Some v else get s k')"
    and get_del: "inv s \<Longrightarrow> ok k \<Longrightarrow> ok k' \<Longrightarrow>
      get (del s k) k' = (if k' = k then None else get s k')"
    and inv_put: "inv s \<Longrightarrow> ok k \<Longrightarrow> inv (put s k v)"
    and inv_del: "inv s \<Longrightarrow> ok k \<Longrightarrow> inv (del s k)"
begin

lemma get_put_same: "inv s \<Longrightarrow> ok k \<Longrightarrow> get (put s k v) k = Some v"
  by (simp add: get_put)

lemma get_del_same: "inv s \<Longrightarrow> ok k \<Longrightarrow> get (del s k) k = None"
  by (simp add: get_del)

lemma put_overwrites: "inv s \<Longrightarrow> ok k \<Longrightarrow> ok k' \<Longrightarrow> get (put (put s k v) k w) k' = get (put s k w) k'"
  by (simp add: get_put inv_put)

lemma del_undoes_put: "inv s \<Longrightarrow> ok k \<Longrightarrow> ok k' \<Longrightarrow> get s k = None \<Longrightarrow>
    get (del (put s k v) k) k' = get s k'"
  by (simp add: get_put get_del inv_put)

text \<open>A run of inserts and deletes on keys other than \<open>k\<close> leaves the entry of \<open>k\<close> alone.\<close>

lemma get_foldl_other:
  assumes "inv s" "ok k" "\<forall>o' \<in> set ops. ok (fst o') \<and> fst o' \<noteq> k"
  shows "get (foldl (\<lambda>s o'. case snd o' of None \<Rightarrow> del s (fst o') | Some v \<Rightarrow> put s (fst o') v) s ops) k
    = get s k"
  using assms
proof (induction ops arbitrary: s)
  case Nil
  then show ?case by simp
next
  case (Cons p ops)
  let ?s = "case snd p of None \<Rightarrow> del s (fst p) | Some v \<Rightarrow> put s (fst p) v"
  have "inv ?s" and "get ?s k = get s k"
    using Cons.prems by (auto simp: get_put get_del inv_put inv_del split: option.splits)
  then show ?case
    using Cons.IH [of ?s] Cons.prems by simp
qed

end

interpretation gomap: keyed_store map_of "\<lambda>m k v. AList.update k v m" "\<lambda>m k. AList.delete k m"
    "\<lambda>m. distinct (map fst m)" "\<lambda>_. True"
  by unfold_locales auto

section \<open>Runs of operations\<close>

locale invariant_run =
  fixes step :: "'s \<Rightarrow> 'op \<Rightarrow> 's"
    and inv :: "'s \<Rightarrow> bool"
    and allowed :: "'op \<Rightarrow> bool"
  assumes step_inv: "inv s \<Longrightarrow> allowed c \<Longrightarrow> inv (step s c)"
begin

lemma run_inv: "inv s \<Longrightarrow> list_all allowed cs \<Longrightarrow> inv (foldl step s cs)"
  by (induction cs arbitrary: s) (auto intro: step_inv)

end

section \<open>Strings\<close>

fun nat_digits :: "nat \<Rightarrow> string" where
  "nat_digits n =
     (if n < 10 then [''0123456789'' ! n]
      else nat_digits (n div 10) @ [''0123456789'' ! (n mod 10)])"

declare nat_digits.simps [simp del]

definition fmt_int :: "int \<Rightarrow> string" where
  "fmt_int i = (if i < 0 then CHR ''-'' # nat_digits (nat (- i)) else nat_digits (nat i))"

definition digit_val :: "char \<Rightarrow> nat" where
  "digit_val c = of_char c - 48"

definition undigits :: "string \<Rightarrow> nat" where
  "undigits s = foldl (\<lambda>n c. 10 * n + digit_val c) 0 s"

lemma nat_digits_numeral [simp]:
  "nat_digits (numeral k) =
     (if numeral k < (10 :: nat) then [''0123456789'' ! numeral k]
      else nat_digits (numeral k div 10) @ [''0123456789'' ! (numeral k mod 10)])"
  by (rule nat_digits.simps)

lemma nat_digits_small [simp]: "nat_digits 0 = ''0''" "nat_digits (Suc 0) = ''1''"
  by (simp_all add: nat_digits.simps)

lemma digit_char_cases:
  "d < 10 \<Longrightarrow> d = 0 \<or> d = Suc 0 \<or> d = 2 \<or> d = 3 \<or> d = 4 \<or> d = 5 \<or> d = 6 \<or> d = 7 \<or> d = 8 \<or> d = (9 :: nat)"
  by arith

lemma digit_val_digit: "d < 10 \<Longrightarrow> digit_val (''0123456789'' ! d) = d"
  by (drule digit_char_cases) (auto simp: digit_val_def)

lemma digit_char_in: "d < 10 \<Longrightarrow> ''0123456789'' ! d \<in> set ''0123456789''"
  by (rule nth_mem) simp

lemma set_nat_digits: "set (nat_digits n) \<subseteq> set ''0123456789''"
proof (induction n rule: nat_digits.induct)
  case (1 n)
  show ?case
  proof (cases "n < 10")
    case True
    then have "nat_digits n = [''0123456789'' ! n]" by (simp add: nat_digits.simps [of n])
    then show ?thesis using digit_char_in [OF True] by simp
  next
    case False
    have "''0123456789'' ! (n mod 10) \<in> set ''0123456789''" by (rule digit_char_in) simp
    with False "1.IH" show ?thesis by (subst nat_digits.simps) auto
  qed
qed

lemma undigits_snoc: "undigits (s @ [c]) = 10 * undigits s + digit_val c"
  by (simp add: undigits_def)

lemma undigits_nat_digits [simp]: "undigits (nat_digits n) = n"
proof (induction n rule: nat_digits.induct)
  case (1 n)
  show ?case
  proof (cases "n < 10")
    case True
    then have "nat_digits n = [''0123456789'' ! n]" by (simp add: nat_digits.simps [of n])
    then show ?thesis using True by (simp add: undigits_def digit_val_digit)
  next
    case False
    have "digit_val (''0123456789'' ! (n mod 10)) = n mod 10" by (rule digit_val_digit) simp
    with False "1.IH" show ?thesis by (subst nat_digits.simps) (simp add: undigits_snoc)
  qed
qed

lemma nat_digits_inj: "nat_digits a = nat_digits b \<longleftrightarrow> a = b"
  by (metis undigits_nat_digits)

lemma nat_digits_Nil [simp]: "nat_digits n \<noteq> []"
  by (subst nat_digits.simps) simp

lemma nat_digits_chars: "c \<in> set (nat_digits n) \<Longrightarrow> c \<in> set ''0123456789''"
  using set_nat_digits by blast

lemma fmt_int_chars: "c \<in> set (fmt_int i) \<Longrightarrow> c \<in> set ''-0123456789''"
  using nat_digits_chars by (fastforce simp: fmt_int_def split: if_splits)

lemma fmt_int_nonneg_chars: "0 \<le> i \<Longrightarrow> c \<in> set (fmt_int i) \<Longrightarrow> c \<in> set ''0123456789''"
  using nat_digits_chars by (fastforce simp: fmt_int_def)

lemma nat_digits_no_minus: "nat_digits n \<noteq> CHR ''-'' # s"
  using nat_digits_chars [of "CHR ''-''" n] by fastforce

lemma fmt_int_inj [simp]: "fmt_int a = fmt_int b \<longleftrightarrow> a = b"
  using nat_digits_no_minus nat_digits_no_minus [symmetric]
  by (auto simp: fmt_int_def nat_digits_inj split: if_splits)

lemma fmt_int_Nil [simp]: "fmt_int i \<noteq> []"
  by (simp add: fmt_int_def)

lemma fmt_int_numeral [simp]: "fmt_int (numeral k) = nat_digits (numeral k)"
  "fmt_int 0 = ''0''" "fmt_int 1 = ''1''"
  by (simp_all add: fmt_int_def)

text \<open>Cutting a string at the last occurrence of a separator is unambiguous.\<close>

lemma append_sep_inj:
  assumes "xs @ c # ys = xs' @ c # ys'" "c \<notin> set ys" "c \<notin> set ys'"
  shows "xs = xs' \<and> ys = ys'"
proof -
  have "rev ys @ c # rev xs = rev ys' @ c # rev xs'"
    using arg_cong [OF assms(1), of rev] by simp
  then have "takeWhile (\<lambda>x. x \<noteq> c) (rev ys @ c # rev xs) = takeWhile (\<lambda>x. x \<noteq> c) (rev ys' @ c # rev xs')"
    by simp
  moreover have "takeWhile (\<lambda>x. x \<noteq> c) (rev zs @ c # rest) = rev zs" if "c \<notin> set zs" for zs rest
    using that by (subst takeWhile_append2) auto
  ultimately have "rev ys = rev ys'" using assms(2,3) by simp
  then show ?thesis using assms(1) by simp
qed

text \<open>\<open>s @ "/" @ t\<close> cut at the first separator, the primitive of \<open>strings.Cut\<close> and \<open>SplitN\<close>.\<close>

fun cut_at :: "char \<Rightarrow> string \<Rightarrow> (string \<times> string) option" where
  "cut_at c [] = None"
| "cut_at c (x # xs) =
     (if x = c then Some ([], xs)
      else map_option (\<lambda>(a, b). (x # a, b)) (cut_at c xs))"

lemma cut_at_append [simp]: "c \<notin> set a \<Longrightarrow> cut_at c (a @ c # b) = Some (a, b)"
  by (induction a) auto

lemma cut_at_None [simp]: "cut_at c s = None \<longleftrightarrow> c \<notin> set s"
  by (induction s) auto

lemma cut_at_Some: "cut_at c s = Some (a, b) \<longleftrightarrow> s = a @ c # b \<and> c \<notin> set a"
  by (induction s arbitrary: a b) (auto simp: Cons_eq_append_conv)

section \<open>Fixed-width integers\<close>

unbundle bit_operations_syntax

type_synonym byte = "8 word"

definition wrap64 :: "int \<Rightarrow> int" where
  "wrap64 x = (x + 2 ^ 63) mod 2 ^ 64 - 2 ^ 63"

lemma wrap64_id: "- (2 ^ 63) \<le> x \<Longrightarrow> x < 2 ^ 63 \<Longrightarrow> wrap64 x = x"
  by (simp add: wrap64_def)

lemma wrap64_range: "- (2 ^ 63) \<le> wrap64 x \<and> wrap64 x < 2 ^ 63"
proof -
  have "0 \<le> (x + 2 ^ 63) mod 2 ^ 64" "(x + 2 ^ 63) mod 2 ^ 64 < (2 ^ 64 :: int)"
    by simp_all
  then show ?thesis unfolding wrap64_def by simp
qed

definition be16 :: "16 word \<Rightarrow> byte list" where
  "be16 w = [ucast (drop_bit 8 w), ucast w]"

definition un_be16 :: "byte \<Rightarrow> byte \<Rightarrow> 16 word" where
  "un_be16 a b = push_bit 8 (ucast a) OR ucast b"

definition be32 :: "32 word \<Rightarrow> byte list" where
  "be32 w = [ucast (drop_bit 24 w), ucast (drop_bit 16 w), ucast (drop_bit 8 w), ucast w]"

definition un_be32 :: "byte \<Rightarrow> byte \<Rightarrow> byte \<Rightarrow> byte \<Rightarrow> 32 word" where
  "un_be32 a b c d =
     push_bit 24 (ucast a) OR push_bit 16 (ucast b) OR push_bit 8 (ucast c) OR ucast d"

lemma length_be16 [simp]: "length (be16 w) = 2"
  by (simp add: be16_def)

lemma length_be32 [simp]: "length (be32 w) = 4"
  by (simp add: be32_def)

lemma un_be16_be16 [simp]: "un_be16 (ucast (drop_bit 8 w)) (ucast w) = w"
  unfolding un_be16_def by (rule bit_word_eqI) (auto simp: bit_simps)

lemma un_be32_be32 [simp]:
  "un_be32 (ucast (drop_bit 24 w)) (ucast (drop_bit 16 w)) (ucast (drop_bit 8 w)) (ucast w) = w"
  unfolding un_be32_def
proof (rule bit_word_eqI)
  fix n
  assume "n < LENGTH(32)"
  then consider "n < 8" | "8 \<le> n" "n < 16" | "16 \<le> n" "n < 24" | "24 \<le> n" "n < 32"
    by fastforce
  then show "bit (push_bit 24 (ucast (ucast (drop_bit 24 w) :: byte)) OR
       push_bit 16 (ucast (ucast (drop_bit 16 w) :: byte)) OR
       push_bit 8 (ucast (ucast (drop_bit 8 w) :: byte)) OR ucast (ucast w :: byte) :: 32 word) n = bit w n"
    by cases (auto simp add: bit_simps less_diff_conv2)
qed

lemma unat_of_nat_16: "n \<le> 65535 \<Longrightarrow> unat (of_nat n :: 16 word) = n"
  by (simp add: unat_of_nat take_bit_nat_eq_self)

section \<open>Byte streams\<close>

text \<open>
  The unread part of a connection is a byte list. \<open>ReadFull n\<close> is \<open>io.ReadFull\<close> into a buffer
  of \<open>n\<close> bytes: an error when the peer has closed before \<open>n\<close> bytes arrived.
\<close>

definition ReadFull :: "nat \<Rightarrow> byte list \<Rightarrow> (byte list \<times> byte list) option" where
  "ReadFull n bs = (if length bs < n then None else Some (take n bs, drop n bs))"

lemma ReadFull_append [simp]: "length a = n \<Longrightarrow> ReadFull n (a @ b) = Some (a, b)"
  by (simp add: ReadFull_def)

lemma ReadFull_0 [simp]: "ReadFull 0 b = Some ([], b)"
  by (simp add: ReadFull_def)

lemma ReadFull_Some: "ReadFull n bs = Some (a, b) \<longleftrightarrow> bs = a @ b \<and> length a = n"
  by (auto simp: ReadFull_def)

definition bytes_of :: "string \<Rightarrow> byte list" where
  "bytes_of s = map (\<lambda>c. of_nat (of_char c)) s"

definition string_of_bytes :: "byte list \<Rightarrow> string" where
  "string_of_bytes bs = map (\<lambda>b. char_of (unat b)) bs"

lemma length_bytes_of [simp]: "length (bytes_of s) = length s"
  by (simp add: bytes_of_def)

lemma string_of_bytes_of [simp]: "string_of_bytes (bytes_of s) = s"
proof -
  have "char_of (unat (of_nat (of_char c) :: byte)) = c" for c :: char
    by (simp add: unat_of_nat take_bit_eq_mod)
  then show ?thesis by (simp add: string_of_bytes_def bytes_of_def map_idI)
qed

lemma unat_byte_less [simp]: "unat (b :: byte) < 256"
  using unsigned_less [of b] by simp

lemma bytes_of_string_of_bytes [simp]: "bytes_of (string_of_bytes bs) = bs"
proof -
  have "of_nat (of_char (char_of (unat b) :: char)) = b" for b :: byte
    by (simp add: of_char_of)
  then show ?thesis by (simp add: string_of_bytes_def bytes_of_def map_idI)
qed

text \<open>The contract of a self-delimiting wire format.\<close>

fun decode_many :: "(byte list \<Rightarrow> ('a \<times> byte list) option) \<Rightarrow> nat \<Rightarrow> byte list \<Rightarrow> 'a list \<times> byte list" where
  "decode_many dec 0 bs = ([], bs)"
| "decode_many dec (Suc n) bs =
     (case dec bs of None \<Rightarrow> ([], bs)
      | Some (a, rest) \<Rightarrow> (let (as, r) = decode_many dec n rest in (a # as, r)))"

locale stream_codec =
  fixes enc :: "'a \<Rightarrow> byte list"
    and dec :: "byte list \<Rightarrow> ('a \<times> byte list) option"
    and valid :: "'a \<Rightarrow> bool"
  assumes dec_enc: "valid a \<Longrightarrow> dec (enc a @ rest) = Some (a, rest)"
begin

lemma enc_prefix_free: "valid a \<Longrightarrow> valid b \<Longrightarrow> enc a @ r = enc b @ r' \<Longrightarrow> a = b \<and> r = r'"
  by (metis dec_enc option.inject prod.inject)

lemma enc_inj: "valid a \<Longrightarrow> valid b \<Longrightarrow> enc a = enc b \<Longrightarrow> a = b"
  using enc_prefix_free [of a b "[]" "[]"] by simp

lemma decode_many_enc:
  "list_all valid as \<Longrightarrow> decode_many dec (length as) (concat (map enc as) @ rest) = (as, rest)"
  by (induction as) (simp_all add: dec_enc)

end

end
