(* ===== verification/Runtime_Types.thy ===== *)
theory Runtime_Types
  imports BB_Prelude
begin

text \<open>
  The data of \<open>BBgrid_Server/runtime/types.go\<close>, the dynamic values the event payloads carry
  (Go's \<open>any\<close>), and the JSON view of both.

  \<^item> An \<open>any\<close> value records its dynamic type: a type assertion \<open>v.(string)\<close> is a match on the
    constructor. Only the dynamic types the code ever stores are constructors.
  \<^item> \<open>float64\<close> is a mantissa and a binary exponent; \<open>int(v)\<close> truncates towards zero.
    JSON numbers decode to \<open>float64\<close>, so an integer beyond \<open>2^53\<close> is rounded to 53 bits.
  \<^item> \<open>marshal\<close> and \<open>unmarshal_any\<close> are \<open>encoding/json\<close> between values and JSON trees; the
    text of a tree is not modelled. A \<open>time.Time\<close> is kept as the RFC 3339 text it is serialised to.
\<close>

section \<open>Structures of the runtime\<close>

record ProxyState =
  ps_ClientID :: string
  ps_RemotePort :: int
  ps_LocalPort :: int
  ps_LocalIP :: string
  ps_Protocol :: string
  ps_BindAddr :: string

record ProxyInfo =
  pi_ClientID :: string
  pi_RemotePort :: int
  pi_LocalPort :: int
  pi_LocalIP :: string
  pi_Protocol :: string
  pi_BindAddr :: string
  pi_PublicAddr :: string

record ProxyDesiredState =
  pd_ClientID :: string
  pd_RemotePort :: int
  pd_LocalPort :: int
  pd_LocalIP :: string
  pd_Protocol :: string
  pd_BindAddr :: string

record RelaySession =
  rs_ID :: string
  rs_SourceClient :: string
  rs_TargetClient :: string
  rs_Protocol :: string
  rs_SourcePort :: int
  rs_TargetPort :: int
  rs_TargetLocalIP :: string
  rs_SourceLocalIP :: string
  rs_Token :: string
  rs_CreatedAt :: string
  rs_Status :: string
  rs_Error :: string

record RelayDesiredState =
  rd_ID :: string
  rd_SourceClient :: string
  rd_TargetClient :: string
  rd_Protocol :: string
  rd_SourcePort :: int
  rd_TargetPort :: int
  rd_TargetLocalIP :: string
  rd_SourceLocalIP :: string
  rd_Token :: string

record ClientInfo =
  ci_ID :: string
  ci_RemoteAddr :: string
  ci_ConnectedAt :: int
  ci_ProxyCount :: nat
  ci_Host :: string
  ci_Online :: bool

text \<open>The zero values a Go declaration starts from.\<close>

definition zero_ProxyState :: ProxyState where
  "zero_ProxyState = \<lparr>ps_ClientID = '''', ps_RemotePort = 0, ps_LocalPort = 0, ps_LocalIP = '''',
     ps_Protocol = '''', ps_BindAddr = ''''\<rparr>"

definition zero_time :: string where
  "zero_time = ''0001-01-01T00:00:00Z''"

definition zero_RelaySession :: RelaySession where
  "zero_RelaySession = \<lparr>rs_ID = '''', rs_SourceClient = '''', rs_TargetClient = '''',
     rs_Protocol = '''', rs_SourcePort = 0, rs_TargetPort = 0, rs_TargetLocalIP = '''',
     rs_SourceLocalIP = '''', rs_Token = '''', rs_CreatedAt = zero_time, rs_Status = '''',
     rs_Error = ''''\<rparr>"

section \<open>Dynamic values and JSON\<close>

datatype float64 = F64 (fmant: int) (fexp: int)

definition f64_trunc :: "float64 \<Rightarrow> int" where
  "f64_trunc f = (if 0 \<le> fexp f then fmant f * 2 ^ nat (fexp f)
     else sgn (fmant f) * (\<bar>fmant f\<bar> div 2 ^ nat (- fexp f)))"

fun bit_len :: "nat \<Rightarrow> nat" where
  "bit_len n = (if n = 0 then 0 else Suc (bit_len (n div 2)))"

declare bit_len.simps [simp del]

text \<open>The nearest \<open>float64\<close> of an integer, ties to even.\<close>

definition f64_of_int :: "int \<Rightarrow> float64" where
  "f64_of_int n =
     (if \<bar>n\<bar> \<le> 2 ^ 53 then F64 n 0
      else let a = nat \<bar>n\<bar>; k = bit_len a - 53; q = a div 2 ^ k; r = a mod 2 ^ k; h = 2 ^ (k - 1);
               q' = (if h < r \<or> h = r \<and> odd q then Suc q else q)
           in F64 (sgn n * int q') (int k))"

datatype json =
    JNull
  | JStr string
  | JInt int
  | JFloat float64
  | JBool bool
  | JArr "json list"
  | JObj "(string \<times> json) list"

datatype any =
    AnyNil
  | AnyStr string
  | AnyInt int
  | AnyInt64 int
  | AnyFloat float64
  | AnyBool bool
  | AnyList "any list"
  | AnyMap "(string \<times> any) list"
  | AnyProxy ProxyState
  | AnyRelay RelaySession

definition proxy_json :: "ProxyState \<Rightarrow> (string \<times> json) list" where
  "proxy_json p = [(''client_id'', JStr (ps_ClientID p)), (''remote_port'', JInt (ps_RemotePort p)),
     (''local_port'', JInt (ps_LocalPort p)), (''local_ip'', JStr (ps_LocalIP p)),
     (''protocol'', JStr (ps_Protocol p)), (''bind_addr'', JStr (ps_BindAddr p))]"

definition omitempty :: "string \<Rightarrow> string \<Rightarrow> (string \<times> json) list" where
  "omitempty k v = (if v = '''' then [] else [(k, JStr v)])"

definition relay_json :: "RelaySession \<Rightarrow> (string \<times> json) list" where
  "relay_json r = [(''session_id'', JStr (rs_ID r)), (''source_client'', JStr (rs_SourceClient r)),
     (''target_client'', JStr (rs_TargetClient r)), (''protocol'', JStr (rs_Protocol r)),
     (''source_port'', JInt (rs_SourcePort r)), (''target_port'', JInt (rs_TargetPort r)),
     (''target_local_ip'', JStr (rs_TargetLocalIP r)), (''source_local_ip'', JStr (rs_SourceLocalIP r))]
     @ omitempty ''token'' (rs_Token r)
     @ [(''created_at'', JStr (rs_CreatedAt r)), (''status'', JStr (rs_Status r))]
     @ omitempty ''error'' (rs_Error r)"

primrec marshal :: "any \<Rightarrow> json" where
  "marshal AnyNil = JNull"
| "marshal (AnyStr s) = JStr s"
| "marshal (AnyInt n) = JInt n"
| "marshal (AnyInt64 n) = JInt n"
| "marshal (AnyFloat f) = JFloat f"
| "marshal (AnyBool b) = JBool b"
| "marshal (AnyList xs) = JArr (map marshal xs)"
| "marshal (AnyMap m) = JObj (map (map_prod id marshal) m)"
| "marshal (AnyProxy p) = JObj (proxy_json p)"
| "marshal (AnyRelay r) = JObj (relay_json r)"

primrec unmarshal_any :: "json \<Rightarrow> any" where
  "unmarshal_any JNull = AnyNil"
| "unmarshal_any (JStr s) = AnyStr s"
| "unmarshal_any (JInt n) = AnyFloat (f64_of_int n)"
| "unmarshal_any (JFloat f) = AnyFloat f"
| "unmarshal_any (JBool b) = AnyBool b"
| "unmarshal_any (JArr xs) = AnyList (map unmarshal_any xs)"
| "unmarshal_any (JObj m) = AnyMap (map (map_prod id unmarshal_any) m)"

text \<open>A value after one trip through a JSON file.\<close>

definition through_json :: "any \<Rightarrow> any" where
  "through_json v = unmarshal_any (marshal v)"

text \<open>Comma-ok type assertions on the entries of a \<open>map[string]any\<close>.\<close>

definition get_str :: "(string, any) gomap \<Rightarrow> string \<Rightarrow> string option" where
  "get_str m k = (case mget m k of Some (AnyStr s) \<Rightarrow> Some s | _ \<Rightarrow> None)"

definition get_f64 :: "(string, any) gomap \<Rightarrow> string \<Rightarrow> float64 option" where
  "get_f64 m k = (case mget m k of Some (AnyFloat f) \<Rightarrow> Some f | _ \<Rightarrow> None)"

definition str_or :: "string \<Rightarrow> (string, any) gomap \<Rightarrow> string \<Rightarrow> string" where
  "str_or d m k = (case get_str m k of None \<Rightarrow> d | Some s \<Rightarrow> s)"

definition int_or :: "int \<Rightarrow> (string, any) gomap \<Rightarrow> string \<Rightarrow> int" where
  "int_or d m k = (case get_f64 m k of None \<Rightarrow> d | Some f \<Rightarrow> f64_trunc f)"

text \<open>\<open>parseProxyFromPayload\<close>'s map case, shared by every consumer of a proxy payload.\<close>

definition parseProxyFromMap :: "(string, any) gomap \<Rightarrow> ProxyState" where
  "parseProxyFromMap m = \<lparr>ps_ClientID = str_or '''' m ''client_id'',
     ps_RemotePort = int_or 0 m ''remote_port'', ps_LocalPort = int_or 0 m ''local_port'',
     ps_LocalIP = str_or '''' m ''local_ip'', ps_Protocol = str_or '''' m ''protocol'',
     ps_BindAddr = str_or '''' m ''bind_addr''\<rparr>"

section \<open>Lemmas\<close>

lemma f64_trunc_of_int [simp]: "\<bar>n\<bar> \<le> 2 ^ 53 \<Longrightarrow> f64_trunc (f64_of_int n) = n"
  by (simp add: f64_trunc_def f64_of_int_def)

lemma through_json_simps [simp]:
  "through_json AnyNil = AnyNil" "through_json (AnyStr s) = AnyStr s"
  "through_json (AnyBool b) = AnyBool b" "through_json (AnyFloat f) = AnyFloat f"
  "through_json (AnyInt n) = AnyFloat (f64_of_int n)"
  "through_json (AnyInt64 n) = AnyFloat (f64_of_int n)"
  "through_json (AnyList xs) = AnyList (map through_json xs)"
  "through_json (AnyMap m) = AnyMap (map (map_prod id through_json) m)"
  by (simp_all add: through_json_def [abs_def] comp_def prod.map_comp id_def)

lemma unmarshal_twice [simp]: "through_json (unmarshal_any j) = unmarshal_any j"
proof (induction j)
  case (JArr xs)
  then show ?case by (simp add: map_idI)
next
  case (JObj m)
  have "through_json (unmarshal_any v) = unmarshal_any v" if "(k, v) \<in> set m" for k v
    using JObj [OF that] by (simp add: snds.simps)
  then show ?case by (auto simp: map_prod_def)
qed simp_all

lemma get_str_simps:
  "get_str m k = Some s \<longleftrightarrow> mget m k = Some (AnyStr s)"
  by (auto simp: get_str_def split: option.splits any.splits)

end
