(* ===== verification/Proto.thy ===== *)
theory Proto
  imports Runtime_Types
begin

text \<open>
  \<open>common/proto\<close>: resource keys and events (\<open>event.go\<close>), and the tunnel handshake
  (\<open>tunnel.go\<close>) with its server side in \<open>BBgrid_Server/dataplane/server.go\<close>.

  The clock and the random source are arguments. A read error of the connection is the unread
  bytes being fewer than asked for.
\<close>

section \<open>Resource keys\<close>

record ResourceKey =
  rk_Type :: string
  rk_Namespace :: string
  rk_Name :: string

definition ResourceKey_String :: "ResourceKey \<Rightarrow> string" where
  "ResourceKey_String k =
     (if rk_Namespace k = '''' then rk_Type k @ ''/'' @ rk_Name k
      else rk_Type k @ ''/'' @ rk_Namespace k @ ''/'' @ rk_Name k)"

fun SplitN :: "char \<Rightarrow> string \<Rightarrow> nat \<Rightarrow> string list" where
  "SplitN c s 0 = []"
| "SplitN c s (Suc 0) = [s]"
| "SplitN c s (Suc (Suc n)) =
     (case cut_at c s of None \<Rightarrow> [s] | Some (a, b) \<Rightarrow> a # SplitN c b (Suc n))"

definition ParseResourceKey :: "string \<Rightarrow> string + ResourceKey" where
  "ParseResourceKey s =
     (case SplitN (CHR ''/'') s 3 of
        [a, b, c] \<Rightarrow>
          if a = '''' \<or> b = '''' \<or> c = '''' then Inl (''invalid resource key: '' @ s)
          else Inr \<lparr>rk_Type = a, rk_Namespace = b, rk_Name = c\<rparr>
      | _ \<Rightarrow> Inl (''invalid resource key: '' @ s))"

definition wf_key :: "ResourceKey \<Rightarrow> bool" where
  "wf_key k \<longleftrightarrow> rk_Type k \<noteq> '''' \<and> CHR ''/'' \<notin> set (rk_Type k) \<and>
     rk_Namespace k \<noteq> '''' \<and> CHR ''/'' \<notin> set (rk_Namespace k) \<and> rk_Name k \<noteq> ''''"

section \<open>Events\<close>

definition EventAdded :: string where [simp]: "EventAdded = ''ADDED''"
definition EventModified :: string where [simp]: "EventModified = ''MODIFIED''"
definition EventDeleted :: string where [simp]: "EventDeleted = ''DELETED''"

definition ResourceTypeClient :: string where [simp]: "ResourceTypeClient = ''client''"
definition ResourceTypeProxy :: string where [simp]: "ResourceTypeProxy = ''proxy''"
definition ResourceTypeRelay :: string where [simp]: "ResourceTypeRelay = ''relay''"
definition ResourceTypeNamespace :: string where [simp]: "ResourceTypeNamespace = ''namespace''"
definition NamespaceDefault :: string where [simp]: "NamespaceDefault = ''default''"

record GenericEvent =
  ev_ID :: string
  ev_Sequence :: int
  ev_Timestamp :: int
  ev_Version :: int
  ev_Generation :: int
  ev_Resource :: ResourceKey
  ev_EventType :: string
  ev_Payload :: any

definition NewGenericEvent :: "string \<Rightarrow> int \<Rightarrow> ResourceKey \<Rightarrow> string \<Rightarrow> any \<Rightarrow> GenericEvent" where
  "NewGenericEvent gid nowMilli resource et payload =
     \<lparr>ev_ID = gid, ev_Sequence = 0, ev_Timestamp = nowMilli, ev_Version = 0, ev_Generation = 0,
      ev_Resource = resource, ev_EventType = et, ev_Payload = payload\<rparr>"

definition WithVersion :: "GenericEvent \<Rightarrow> int \<Rightarrow> GenericEvent" where
  "WithVersion e v = e\<lparr>ev_Version := v\<rparr>"

definition WithGeneration :: "GenericEvent \<Rightarrow> int \<Rightarrow> GenericEvent" where
  "WithGeneration e g = e\<lparr>ev_Generation := g\<rparr>"

definition hex_encode :: "byte list \<Rightarrow> string" where
  "hex_encode bs = concat (map (\<lambda>b. [''0123456789abcdef'' ! (unat b div 16),
                                       ''0123456789abcdef'' ! (unat b mod 16)]) bs)"

text \<open>
  \<open>rnd\<close> is what \<open>rand.Read\<close> put into the 16-byte buffer, \<open>None\<close> when it failed; \<open>clock i\<close>
  is \<open>time.Now().UnixNano()\<close> at iteration \<open>i\<close> of the fallback loop.
\<close>

definition GenerateID :: "byte list option \<Rightarrow> (nat \<Rightarrow> 64 word) \<Rightarrow> string" where
  "GenerateID rnd clock = hex_encode
     (case rnd of Some b \<Rightarrow> b
      | None \<Rightarrow> map (\<lambda>i. ucast (signed_drop_bit (i * 8) (clock i))) [0..<16])"

section \<open>The tunnel handshake\<close>

definition TunnelMagic :: "byte list" where
  "TunnelMagic = [0x54, 0x55, 0x4E, 0x4C]"

definition MaxTokenLen :: nat where
  "MaxTokenLen = 256"

definition WriteTunnelAuth :: "string \<Rightarrow> string + byte list" where
  "WriteTunnelAuth token =
     (let tokenBytes = bytes_of token in
      if MaxTokenLen < length tokenBytes then Inl ''token too long''
      else Inr (TunnelMagic @ be16 (of_nat (length tokenBytes)) @ tokenBytes))"

definition ReadTunnelAuth :: "byte list \<Rightarrow> string + string \<times> byte list" where
  "ReadTunnelAuth r =
     (case ReadFull 6 r of
        None \<Rightarrow> Inl ''read header''
      | Some (header, r') \<Rightarrow>
          if header ! 0 \<noteq> TunnelMagic ! 0 \<or> header ! 1 \<noteq> TunnelMagic ! 1 \<or>
             header ! 2 \<noteq> TunnelMagic ! 2 \<or> header ! 3 \<noteq> TunnelMagic ! 3
          then Inl ''invalid magic''
          else let tokenLen = unat (un_be16 (header ! 4) (header ! 5)) in
            if MaxTokenLen < tokenLen then Inl ''token length too large''
            else case ReadFull tokenLen r' of
                None \<Rightarrow> Inl ''read token''
              | Some (tokenBuf, rest) \<Rightarrow> Inr (string_of_bytes tokenBuf, rest))"

text \<open>\<open>Peek\<close> looks at the buffered reader and consumes nothing.\<close>

definition IsTunnelConn :: "byte list \<Rightarrow> bool" where
  "IsTunnelConn br =
     (case ReadFull 4 br of None \<Rightarrow> False
      | Some (peeked, _) \<Rightarrow>
          peeked ! 0 = TunnelMagic ! 0 \<and> peeked ! 1 = TunnelMagic ! 1 \<and>
          peeked ! 2 = TunnelMagic ! 2 \<and> peeked ! 3 = TunnelMagic ! 3)"

text \<open>The data plane's handler: the connection is closed, or handed over with its token and the
  bytes that follow the handshake.\<close>

datatype tunnel_fate = TunnelClosed | TunnelHanded string "byte list"

definition handleTunnelConn :: "bool \<Rightarrow> byte list \<Rightarrow> tunnel_fate" where
  "handleTunnelConn handlerSet conn =
     (case ReadFull 4 conn of None \<Rightarrow> TunnelClosed
      | Some (header, r1) \<Rightarrow>
          if string_of_bytes header \<noteq> ''TUNL'' then TunnelClosed
          else case ReadFull 2 r1 of None \<Rightarrow> TunnelClosed
          | Some (l, r2) \<Rightarrow>
              (case ReadFull (unat (un_be16 (l ! 0) (l ! 1))) r2 of None \<Rightarrow> TunnelClosed
               | Some (token, r3) \<Rightarrow>
                   if handlerSet then TunnelHanded (string_of_bytes token) r3 else TunnelClosed))"

section \<open>Lemmas on keys\<close>

lemma SplitN_3: "SplitN c s 3 =
  (case cut_at c s of None \<Rightarrow> [s] | Some (a, b) \<Rightarrow> a # (case cut_at c b of None \<Rightarrow> [b] | Some (x, y) \<Rightarrow> [x, y]))"
  by (simp add: numeral_3_eq_3 del: cut_at_None split: option.split)

lemma ParseResourceKey_String: "wf_key k \<Longrightarrow> ParseResourceKey (ResourceKey_String k) = Inr k"
  by (auto simp: ParseResourceKey_def ResourceKey_String_def wf_key_def SplitN_3)

lemma ParseResourceKey_Inr: "ParseResourceKey s = Inr k \<longleftrightarrow> wf_key k \<and> s = ResourceKey_String k"
proof
  assume L: "ParseResourceKey s = Inr k"
  then obtain a b x y where s: "s = a @ CHR ''/'' # b" "CHR ''/'' \<notin> set a"
      and b: "b = x @ CHR ''/'' # y" "CHR ''/'' \<notin> set x"
    by (auto simp: ParseResourceKey_def SplitN_3 cut_at_Some split: option.splits list.splits if_splits)
  with L show "wf_key k \<and> s = ResourceKey_String k"
    by (auto simp: ParseResourceKey_def SplitN_3 wf_key_def ResourceKey_String_def split: if_splits)
next
  assume "wf_key k \<and> s = ResourceKey_String k"
  then show "ParseResourceKey s = Inr k" by (simp add: ParseResourceKey_String)
qed

lemma ResourceKey_String_inj: "wf_key a \<Longrightarrow> wf_key b \<Longrightarrow> ResourceKey_String a = ResourceKey_String b \<Longrightarrow> a = b"
  by (metis ParseResourceKey_String sum.inject(2))

section \<open>Lemmas on identifiers\<close>

lemma hex_encode_chars: "c \<in> set (hex_encode bs) \<Longrightarrow> c \<in> set ''0123456789abcdef''"
proof -
  assume "c \<in> set (hex_encode bs)"
  then obtain b :: byte where "c = ''0123456789abcdef'' ! (unat b div 16) \<or> c = ''0123456789abcdef'' ! (unat b mod 16)"
    by (auto simp: hex_encode_def)
  moreover have "''0123456789abcdef'' ! (unat b div 16) \<in> set ''0123456789abcdef''"
    and "''0123456789abcdef'' ! (unat b mod 16) \<in> set ''0123456789abcdef''"
    by (rule nth_mem, use unat_byte_less [of b] in \<open>simp add: less_mult_imp_div_less\<close>)+
  ultimately show ?thesis by metis
qed

lemma length_hex_encode [simp]: "length (hex_encode bs) = 2 * length bs"
  by (induction bs) (simp_all add: hex_encode_def)

section \<open>Lemmas on the handshake\<close>

lemma length_TunnelMagic [simp]: "length TunnelMagic = 4"
  by (simp add: TunnelMagic_def)

lemma bytes_of_TUNL: "bytes_of ''TUNL'' = TunnelMagic"
  by (simp add: bytes_of_def TunnelMagic_def)

lemma tunnel_header: "string_of_bytes h = ''TUNL'' \<longleftrightarrow> h = TunnelMagic"
  using bytes_of_TUNL by (metis bytes_of_string_of_bytes string_of_bytes_of)

lemma list_of_length_4: "length h = 4 \<Longrightarrow> h = [h ! 0, h ! 1, h ! 2, h ! 3]"
  by (auto simp: list_eq_iff_nth_eq less_Suc_eq numeral_eq_Suc)

lemma magic_bytes:
  "length h = 4 \<Longrightarrow> h = TunnelMagic \<longleftrightarrow> h ! 0 = TunnelMagic ! 0 \<and> h ! 1 = TunnelMagic ! 1 \<and>
     h ! 2 = TunnelMagic ! 2 \<and> h ! 3 = TunnelMagic ! 3"
  by (subst list_of_length_4, assumption) (simp add: TunnelMagic_def)

lemma handshake_header [simp]:
  "ReadFull 6 (TunnelMagic @ be16 w @ x) = Some (TunnelMagic @ be16 w, x)"
  "ReadFull 4 (TunnelMagic @ x) = Some (TunnelMagic, x)"
  using ReadFull_append [of "TunnelMagic @ be16 w" 6 x] by simp_all

lemma handshake_length_field [simp]:
  "un_be16 ((TunnelMagic @ be16 w) ! 4) ((TunnelMagic @ be16 w) ! 5) = w"
  "un_be16 (be16 w ! 0) (be16 w ! Suc 0) = w"
  by (simp_all add: TunnelMagic_def be16_def)

lemma handshake_magic_field [simp]:
  "(TunnelMagic @ x) ! 0 = TunnelMagic ! 0" "(TunnelMagic @ x) ! Suc 0 = TunnelMagic ! Suc 0"
  "(TunnelMagic @ x) ! 2 = TunnelMagic ! 2" "(TunnelMagic @ x) ! 3 = TunnelMagic ! 3"
  by (simp_all add: TunnelMagic_def)

lemma unat_token_len [simp]:
  "\<not> MaxTokenLen < length t \<Longrightarrow> unat (of_nat (length t) :: 16 word) = length t"
  by (simp add: MaxTokenLen_def unat_of_nat_16)

interpretation handshake: stream_codec
  "\<lambda>t. case WriteTunnelAuth t of Inr bs \<Rightarrow> bs | Inl _ \<Rightarrow> []"
  "\<lambda>r. case ReadTunnelAuth r of Inr x \<Rightarrow> Some x | Inl _ \<Rightarrow> None"
  "\<lambda>t. length t \<le> MaxTokenLen"
  by unfold_locales (simp add: WriteTunnelAuth_def ReadTunnelAuth_def Let_def)

lemma ReadTunnelAuth_Inr:
  assumes "ReadTunnelAuth r = Inr (t, rest)"
  shows "\<exists>l tok. r = TunnelMagic @ l @ tok @ rest \<and> length l = 2 \<and>
    length tok = unat (un_be16 (l ! 0) (l ! 1)) \<and> t = string_of_bytes tok \<and> length tok \<le> MaxTokenLen"
proof -
  from assms obtain header tok where r: "r = header @ tok @ rest" "length header = 6"
    and m: "header ! 0 = TunnelMagic ! 0" "header ! 1 = TunnelMagic ! 1"
      "header ! 2 = TunnelMagic ! 2" "header ! 3 = TunnelMagic ! 3"
    and tok: "length tok = unat (un_be16 (header ! 4) (header ! 5))" "t = string_of_bytes tok"
      "length tok \<le> MaxTokenLen"
    by (auto simp: ReadTunnelAuth_def ReadFull_Some Let_def split: option.splits if_splits)
  have "take 4 header = TunnelMagic"
    using r(2) m by (subst magic_bytes) simp_all
  then have "header = TunnelMagic @ drop 4 header"
    by (metis append_take_drop_id)
  with r tok show ?thesis
    by (intro exI [of _ "drop 4 header"] exI [of _ tok]) simp
qed

section \<open>Properties\<close>

text \<open>C36. Parsing a resource key succeeds on exactly the texts that \<open>String\<close> prints for keys with
  a non-empty type, namespace and name whose type and namespace hold no slash, and it returns the
  printed key: printing and parsing are inverse on those keys and nothing else is accepted.\<close>

theorem resource_key_roundtrip:
  "ParseResourceKey s = Inr k \<longleftrightarrow> wf_key k \<and> s = ResourceKey_String k"
  by (rule ParseResourceKey_Inr)

text \<open>C35. A handshake written by \<open>WriteTunnelAuth\<close> is recognised by the peek, is read back by
  \<open>ReadTunnelAuth\<close>, and reaches the data plane's handler with the same token, whatever bytes
  follow it on the connection; those bytes are left unread.\<close>

theorem tunnel_handshake_roundtrip:
  assumes "WriteTunnelAuth token = Inr bs"
  shows "IsTunnelConn (bs @ rest) \<and> ReadTunnelAuth (bs @ rest) = Inr (token, rest) \<and>
    handleTunnelConn True (bs @ rest) = TunnelHanded token rest"
proof -
  have le: "\<not> MaxTokenLen < length token"
    and bs: "bs = TunnelMagic @ be16 (of_nat (length token)) @ bytes_of token"
    using assms by (auto simp: WriteTunnelAuth_def Let_def split: if_splits)
  show ?thesis
    using le by (simp add: bs IsTunnelConn_def ReadTunnelAuth_def handleTunnelConn_def Let_def tunnel_header)
qed

theorem tunnel_handshake_roundtrip_witness:
  "IsTunnelConn ([0x54, 0x55, 0x4E, 0x4C, 0, 2, 0x6F, 0x6B] @ [7]) \<and>
   ReadTunnelAuth ([0x54, 0x55, 0x4E, 0x4C, 0, 2, 0x6F, 0x6B] @ [7]) = Inr (''ok'', [7]) \<and>
   handleTunnelConn True ([0x54, 0x55, 0x4E, 0x4C, 0, 2, 0x6F, 0x6B] @ [7]) = TunnelHanded ''ok'' [7]"
  by (rule tunnel_handshake_roundtrip)
    (simp add: WriteTunnelAuth_def MaxTokenLen_def TunnelMagic_def bytes_of_def be16_def)

text \<open>The data plane hands over every connection that \<open>ReadTunnelAuth\<close> would accept, with
  the same token and the same unread bytes.\<close>

theorem dataplane_accepts_protocol:
  assumes "ReadTunnelAuth r = Inr (t, rest)"
  shows "handleTunnelConn True r = TunnelHanded t rest"
proof -
  obtain l tok where r: "r = TunnelMagic @ l @ tok @ rest" "length l = 2"
      "length tok = unat (un_be16 (l ! 0) (l ! 1))" "t = string_of_bytes tok"
    using ReadTunnelAuth_Inr [OF assms] by auto
  then show ?thesis by (simp add: handleTunnelConn_def tunnel_header)
qed

theorem dataplane_accepts_protocol_witness:
  "handleTunnelConn True [0x54, 0x55, 0x4E, 0x4C, 0, 1, 0x78, 9] = TunnelHanded ''x'' [9]"
proof (rule dataplane_accepts_protocol)
  show "ReadTunnelAuth [0x54, 0x55, 0x4E, 0x4C, 0, 1, 0x78, 9] = Inr (''x'', [9])"
    by (simp add: ReadTunnelAuth_def ReadFull_def TunnelMagic_def un_be16_def MaxTokenLen_def
      string_of_bytes_def char_of_def bit_0 Let_def)
qed

text \<open>The data plane applies no length limit: a 257-byte token, which \<open>ReadTunnelAuth\<close>
  refuses, is handed over.\<close>

theorem dataplane_ignores_token_limit:
  "handleTunnelConn True (TunnelMagic @ be16 257 @ replicate 257 0x61) = TunnelHanded (string_of_bytes (replicate 257 0x61)) [] \<and>
   ReadTunnelAuth (TunnelMagic @ be16 257 @ replicate 257 0x61) = Inl ''token length too large''"
proof -
  have "ReadFull 257 (replicate 257 (0x61 :: byte)) = Some (replicate 257 0x61, [])"
    by (simp add: ReadFull_def)
  then show ?thesis
    by (simp add: handleTunnelConn_def ReadTunnelAuth_def tunnel_header MaxTokenLen_def Let_def)
qed

text \<open>A generated identifier is 32 lower-case hexadecimal digits, in the random case and in the
  clock fallback, so it can serve as the name of a resource key.\<close>

theorem GenerateID_shape:
  assumes "rnd = None \<or> length (the rnd) = 16"
  shows "length (GenerateID rnd clock) = 32 \<and> set (GenerateID rnd clock) \<subseteq> set ''0123456789abcdef'' \<and>
    ParseResourceKey (ResourceKey_String \<lparr>rk_Type = ResourceTypeRelay, rk_Namespace = NamespaceDefault,
      rk_Name = GenerateID rnd clock\<rparr>)
    = Inr \<lparr>rk_Type = ResourceTypeRelay, rk_Namespace = NamespaceDefault, rk_Name = GenerateID rnd clock\<rparr>"
proof -
  have len: "length (GenerateID rnd clock) = 32"
    using assms by (auto simp: GenerateID_def split: option.splits)
  then have "wf_key \<lparr>rk_Type = ResourceTypeRelay, rk_Namespace = NamespaceDefault, rk_Name = GenerateID rnd clock\<rparr>"
    by (auto simp: wf_key_def)
  moreover have "set (GenerateID rnd clock) \<subseteq> set ''0123456789abcdef''"
    unfolding GenerateID_def by (intro subsetI) (rule hex_encode_chars)
  ultimately show ?thesis using len by (simp add: ParseResourceKey_String)
qed

theorem GenerateID_shape_witness:
  "length (GenerateID None (\<lambda>_. 1)) = 32 \<and> set (GenerateID None (\<lambda>_. 1)) \<subseteq> set ''0123456789abcdef''"
  using GenerateID_shape [of None "\<lambda>_. 1"] by simp

end
