(* ===== verification/Mux_Frame.thy ===== *)
theory Mux_Frame
  imports Proto
begin

text \<open>
  The wire format of \<open>common/mux/mux.go\<close>: the frame writers (\<open>writeFrame\<close>, \<open>writeCtrl\<close>,
  \<open>writeWindowUpdate\<close>, \<open>writeFrameSplice\<close>) with their partial-write loop, and the frame
  reader of \<open>readLoop\<close>.

  A writer takes the results of the successive \<open>conn.Write\<close> calls as a script of pairs (bytes
  accepted, error). It returns \<open>None\<close> when the script ends before the loop does, and otherwise the
  bytes put on the wire with the error, if any.
\<close>

section \<open>Constants\<close>

definition Magic :: "16 word" where "Magic = 0xAE01"
definition FrameHeaderSize :: nat where "FrameHeaderSize = 8"
definition MaxFrameSize :: nat where "MaxFrameSize = 65535"

definition PktData :: "16 word" where "PktData = 0"
definition PktOpen :: "16 word" where "PktOpen = 1"
definition PktClose :: "16 word" where "PktClose = 2"
definition PktWindowUpdate :: "16 word" where "PktWindowUpdate = 3"

lemmas pkt_defs = PktData_def PktOpen_def PktClose_def PktWindowUpdate_def

section \<open>Writing\<close>

type_synonym write_script = "(nat \<times> bool) list"

fun write_all :: "write_script \<Rightarrow> byte list \<Rightarrow> (byte list \<times> bool) option" where
  "write_all script [] = Some ([], True)"
| "write_all [] (b # buf) = None"
| "write_all ((n, err) # script) (b # buf) =
     (let sent = take n (b # buf) in
      if err then Some (sent, False)
      else map_option (\<lambda>(more, ok). (sent @ more, ok)) (write_all script (drop n (b # buf))))"

definition write_result :: "(byte list \<times> bool) option \<Rightarrow> (byte list \<times> string option) option" where
  "write_result r = map_option (\<lambda>(sent, ok). (sent, if ok then None else Some ''write error'')) r"

definition frame_bytes :: "16 word \<Rightarrow> 16 word \<Rightarrow> 16 word \<Rightarrow> byte list \<Rightarrow> byte list" where
  "frame_bytes port len ptype data = be16 Magic @ be16 port @ be16 len @ be16 ptype @ data"

definition writeFrame :: "write_script \<Rightarrow> 16 word \<Rightarrow> byte list \<Rightarrow> bool \<Rightarrow> (byte list \<times> string option) option" where
  "writeFrame script port data ctrl =
     (let dataLen = length data in
      if MaxFrameSize < dataLen then Some ([], Some ''data too large'')
      else let ptype = (if ctrl then PktOpen else PktData) in
        write_result (write_all script (frame_bytes port (of_nat dataLen) ptype data)))"

definition writeCtrl :: "write_script \<Rightarrow> bool \<Rightarrow> 16 word \<Rightarrow> 16 word \<Rightarrow> (byte list \<times> string option) option" where
  "writeCtrl script closed port ptype =
     (if closed then Some ([], Some ''multiplexer closed'')
      else write_result (write_all script (frame_bytes port 0 ptype [])))"

text \<open>The buffer has room for four payload bytes: \<open>copy\<close> stops there and leaves zeros behind a
  shorter slice.\<close>

definition writeWindowUpdate :: "write_script \<Rightarrow> 16 word \<Rightarrow> byte list \<Rightarrow> (byte list \<times> string option) option" where
  "writeWindowUpdate script port data =
     write_result (write_all script
       (frame_bytes port 4 PktWindowUpdate (take 4 data @ replicate (4 - length data) 0)))"

text \<open>
  \<open>spliced\<close> is what \<open>spliceFd\<close> moved into the pipe (\<open>None\<close> on an error); the kernel moves at
  most the requested count. The header write and the second splice are taken to succeed whole.
\<close>

definition writeFrameSplice :: "16 word \<Rightarrow> (nat \<Rightarrow> byte list option) \<Rightarrow> nat \<Rightarrow> byte list \<times> string option" where
  "writeFrameSplice port spliceFd n =
     (let n = (if MaxFrameSize < n then MaxFrameSize else n) in
      case spliceFd n of
        None \<Rightarrow> ([], Some ''splice src to pipe'')
      | Some [] \<Rightarrow> ([], Some ''splice: EOF'')
      | Some spliced \<Rightarrow> (frame_bytes port (of_nat (length spliced)) PktData spliced, None))"

section \<open>Reading\<close>

record frameIn =
  fi_port :: "16 word"
  fi_ptype :: "16 word"
  fi_data :: "byte list"

datatype read_end = HeaderError | InvalidMagic "16 word" | FrameTooLarge | DataError

definition read_frame :: "byte list \<Rightarrow> read_end + frameIn \<times> byte list" where
  "read_frame conn =
     (case ReadFull FrameHeaderSize conn of
        None \<Rightarrow> Inl HeaderError
      | Some (header, r) \<Rightarrow>
          let magic = un_be16 (header ! 0) (header ! 1) in
          if magic \<noteq> Magic then Inl (InvalidMagic magic)
          else let port = un_be16 (header ! 2) (header ! 3);
                   dataLen = un_be16 (header ! 4) (header ! 5);
                   ptype = un_be16 (header ! 6) (header ! 7) in
            if MaxFrameSize < unat dataLen then Inl FrameTooLarge
            else if 0 < unat dataLen then
              (case ReadFull (unat dataLen) r of
                 None \<Rightarrow> Inl DataError
               | Some (data, r') \<Rightarrow> Inr (\<lparr>fi_port = port, fi_ptype = ptype, fi_data = data\<rparr>, r'))
            else Inr (\<lparr>fi_port = port, fi_ptype = ptype, fi_data = []\<rparr>, r))"

lemma read_frame_consumes: "read_frame conn = Inr (f, r) \<Longrightarrow> length r + 8 \<le> length conn"
  by (auto simp: read_frame_def ReadFull_Some FrameHeaderSize_def Let_def split: option.splits if_splits)

text \<open>The loop: the frames queued for the workers, in order, and why it stopped.\<close>

function readLoop_frames :: "byte list \<Rightarrow> frameIn list \<times> read_end" where
  "readLoop_frames conn =
     (case read_frame conn of
        Inl e \<Rightarrow> ([], e)
      | Inr (f, r) \<Rightarrow> (let (fs, e) = readLoop_frames r in (f # fs, e)))"
  by pat_completeness auto
termination
  by (relation "measure length") (auto dest!: read_frame_consumes)

declare readLoop_frames.simps [simp del]

section \<open>Lemmas\<close>

definition enc_frame :: "frameIn \<Rightarrow> byte list" where
  "enc_frame f = frame_bytes (fi_port f) (of_nat (length (fi_data f))) (fi_ptype f) (fi_data f)"

definition valid_frame :: "frameIn \<Rightarrow> bool" where
  "valid_frame f \<longleftrightarrow> length (fi_data f) \<le> MaxFrameSize"

lemma read_header [simp]:
  "ReadFull FrameHeaderSize (frame_bytes p l t d @ rest)
    = Some (be16 Magic @ be16 p @ be16 l @ be16 t, d @ rest)"
  using ReadFull_append [of "be16 Magic @ be16 p @ be16 l @ be16 t" 8 "d @ rest"]
  by (simp add: frame_bytes_def FrameHeaderSize_def)

lemma header_fields [simp]:
  "un_be16 ((be16 a @ x) ! 0) ((be16 a @ x) ! Suc 0) = a"
  "un_be16 ((be16 a @ be16 b @ x) ! 2) ((be16 a @ be16 b @ x) ! 3) = b"
  "un_be16 ((be16 a @ be16 b @ be16 c @ x) ! 4) ((be16 a @ be16 b @ be16 c @ x) ! 5) = c"
  "un_be16 ((be16 a @ be16 b @ be16 c @ be16 d) ! 6) ((be16 a @ be16 b @ be16 c @ be16 d) ! 7) = d"
  by (simp_all add: be16_def)

lemma unat_frame_len: "n \<le> MaxFrameSize \<Longrightarrow> unat (of_nat n :: 16 word) = n"
  by (simp add: MaxFrameSize_def unat_of_nat_16)

lemma unat_len_bound: "\<not> MaxFrameSize < unat (w :: 16 word)"
  using unsigned_less [where ?'a = nat, of w] by (simp add: MaxFrameSize_def)

lemma read_frame_enc: "valid_frame f \<Longrightarrow> read_frame (enc_frame f @ rest) = Inr (f, rest)"
  by (cases f)
    (simp add: read_frame_def enc_frame_def valid_frame_def unat_frame_len Let_def)

interpretation frame: stream_codec enc_frame
  "\<lambda>bs. case read_frame bs of Inr x \<Rightarrow> Some x | Inl _ \<Rightarrow> None" valid_frame
  by unfold_locales (simp add: read_frame_enc)

lemma readLoop_frames_enc:
  "list_all valid_frame fs \<Longrightarrow>
    readLoop_frames (concat (map enc_frame fs) @ rest) =
      (fs @ fst (readLoop_frames rest), snd (readLoop_frames rest))"
proof (induction fs)
  case Nil
  then show ?case by simp
next
  case (Cons f fs)
  then show ?case
    by (subst readLoop_frames.simps) (simp add: read_frame_enc)
qed

lemma write_all_prefix: "write_all script buf = Some (sent, ok) \<Longrightarrow> \<exists>rest. buf = sent @ rest \<and> (ok \<longrightarrow> rest = [])"
proof (induction script buf arbitrary: sent ok rule: write_all.induct)
  case (3 n err script b buf)
  show ?case
  proof (cases err)
    case True
    with "3.prems" show ?thesis by (auto simp: Let_def intro: exI [of _ "drop n (b # buf)"])
  next
    case False
    with "3.prems" obtain more where m: "write_all script (drop n (b # buf)) = Some (more, ok)"
      "sent = take n (b # buf) @ more" by (auto simp: Let_def)
    with "3.IH" [OF refl False m(1)] obtain rest where
      "drop n (b # buf) = more @ rest" "ok \<longrightarrow> rest = []" by auto
    then show ?thesis using m(2) append_take_drop_id [of n "b # buf"] by (metis append.assoc)
  qed
qed auto

text \<open>A connection that accepts at least one byte per call finishes the loop.\<close>

lemma write_all_total:
  "(\<And>n e. (n, e) \<in> set script \<Longrightarrow> 0 < n \<and> \<not> e) \<Longrightarrow> length buf \<le> length script \<Longrightarrow>
    write_all script buf = Some (buf, True)"
proof (induction script buf rule: write_all.induct)
  case (3 n err script b buf)
  then have n: "0 < n" "\<not> err" by auto
  then have "length (drop n (b # buf)) \<le> length script" using "3.prems"(2) by simp
  then have "write_all script (drop n (b # buf)) = Some (drop n (b # buf), True)"
    using "3.IH" n(2) "3.prems"(1) by (meson list.set_intros(2))
  then show ?case using n(2) by (simp add: Let_def)
qed auto

section \<open>Properties\<close>

text \<open>C13. Frames written back to back are read back one by one: the reader queues exactly these
  frames, in order, and then goes on with whatever follows them on the connection.\<close>

theorem mux_frames_roundtrip:
  assumes "list_all valid_frame fs"
  shows "readLoop_frames (concat (map enc_frame fs) @ rest) =
    (fs @ fst (readLoop_frames rest), snd (readLoop_frames rest))"
  using assms by (rule readLoop_frames_enc)

theorem mux_frames_roundtrip_witness:
  "readLoop_frames (concat (map enc_frame [\<lparr>fi_port = 7, fi_ptype = PktData, fi_data = [1, 2]\<rparr>]) @ [0]) =
    ([\<lparr>fi_port = 7, fi_ptype = PktData, fi_data = [1, 2]\<rparr>], HeaderError)"
proof -
  have "readLoop_frames [0] = ([], HeaderError)"
    by (simp add: readLoop_frames.simps [of "[0]"] read_frame_def ReadFull_def FrameHeaderSize_def)
  then show ?thesis
    using mux_frames_roundtrip [of "[\<lparr>fi_port = 7, fi_ptype = PktData, fi_data = [1, 2]\<rparr>]" "[0]"]
    by (simp add: valid_frame_def MaxFrameSize_def)
qed

text \<open>C33. Whatever the connection does with the successive writes, a data frame whose writer reports
  success is on the wire whole and unchanged, and a failing one has left a prefix of the frame.
  The length check refuses a frame over 65535 bytes before anything is written.\<close>

theorem writeFrame_sends_frame:
  assumes "writeFrame script port data ctrl = Some (sent, err)"
    and "f = \<lparr>fi_port = port, fi_ptype = (if ctrl then PktOpen else PktData), fi_data = data\<rparr>"
  shows "(err = None \<longrightarrow> sent = enc_frame f \<and> read_frame sent = Inr (f, [])) \<and>
    (if MaxFrameSize < length data then err = Some ''data too large'' \<and> sent = []
     else \<exists>rest. enc_frame f = sent @ rest)"
proof (cases "MaxFrameSize < length data")
  case True
  with assms(1) have "sent = []" "err = Some ''data too large''"
    by (auto simp: writeFrame_def)
  with True show ?thesis by simp
next
  case False
  with assms obtain ok where w: "write_all script (enc_frame f) = Some (sent, ok)"
      and err: "err = (if ok then None else Some ''write error'')"
    by (auto simp: writeFrame_def write_result_def enc_frame_def Let_def)
  from write_all_prefix [OF w] obtain rest where rest: "enc_frame f = sent @ rest" "ok \<longrightarrow> rest = []"
    by auto
  have "read_frame (enc_frame f) = Inr (f, [])"
    using read_frame_enc [of f "[]"] False assms(2) by (simp add: valid_frame_def)
  then show ?thesis using False rest err by (auto split: if_splits)
qed

theorem writeFrame_sends_frame_witness:
  "read_frame (enc_frame \<lparr>fi_port = 5, fi_ptype = PktData, fi_data = [9]\<rparr>) =
    Inr (\<lparr>fi_port = 5, fi_ptype = PktData, fi_data = [9]\<rparr>, [])"
proof -
  have "writeFrame [(4, False), (5, False)] 5 [9] False =
      Some (enc_frame \<lparr>fi_port = 5, fi_ptype = PktData, fi_data = [9]\<rparr>, None)"
    by (simp add: writeFrame_def write_result_def enc_frame_def frame_bytes_def MaxFrameSize_def
      be16_def Magic_def PktData_def)
  from writeFrame_sends_frame [OF this refl] show ?thesis by simp
qed

text \<open>C34. On a connection that makes progress every writer finishes: enough successful writes of at
  least one byte put the whole data frame, control frame or window update on the wire without error.\<close>

theorem mux_writers_finish:
  assumes "\<forall>(n, e) \<in> set script. 0 < n \<and> \<not> e"
    and "length data \<le> MaxFrameSize" and "8 + MaxFrameSize \<le> length script" and "length wu = 4"
  shows "writeFrame script port data ctrl =
      Some (enc_frame \<lparr>fi_port = port, fi_ptype = (if ctrl then PktOpen else PktData), fi_data = data\<rparr>, None) \<and>
    writeCtrl script False port ptype =
      Some (enc_frame \<lparr>fi_port = port, fi_ptype = ptype, fi_data = []\<rparr>, None) \<and>
    writeWindowUpdate script port wu =
      Some (enc_frame \<lparr>fi_port = port, fi_ptype = PktWindowUpdate, fi_data = wu\<rparr>, None)"
proof -
  have W: "write_all script (frame_bytes p l t d) = Some (frame_bytes p l t d, True)"
    if "length d \<le> MaxFrameSize" for p l t d
    using assms(1,3) that by (intro write_all_total) (auto simp: frame_bytes_def)
  have "length wu \<le> MaxFrameSize" using assms(4) by (simp add: MaxFrameSize_def)
  with assms(2,4) show ?thesis
    by (simp add: writeFrame_def writeCtrl_def writeWindowUpdate_def W write_result_def enc_frame_def Let_def)
qed

theorem mux_writers_finish_witness:
  "writeCtrl (replicate 65543 (1, False)) False 3 PktClose =
    Some (enc_frame \<lparr>fi_port = 3, fi_ptype = PktClose, fi_data = []\<rparr>, None)"
  using mux_writers_finish [of "replicate 65543 (1, False)" "[]" "[0, 0, 0, 0]" 3 False PktClose]
  by (simp add: MaxFrameSize_def)

text \<open>The reader's check against the maximum frame size never fires: the length field is
  16 bits wide, so the loop only ends on a short read or a wrong magic number.\<close>

theorem readLoop_never_too_large: "snd (readLoop_frames conn) \<noteq> FrameTooLarge"
proof (induction conn rule: readLoop_frames.induct)
  case (1 conn)
  have "read_frame conn \<noteq> Inl FrameTooLarge"
    using unat_len_bound by (auto simp: read_frame_def Let_def split: option.splits if_splits)
  moreover have "snd (readLoop_frames r) \<noteq> FrameTooLarge" if "read_frame conn = Inr (f, r)" for f r
    using 1 [OF that refl] by simp
  ultimately show ?case
    by (cases "read_frame conn") (auto simp: readLoop_frames.simps [of conn] split: prod.splits)
qed

end
