(* ===== verification/Mux.thy ===== *)
theory Mux
  imports Mux_Frame
begin

text \<open>
  The multiplexer of \<open>common/mux/mux.go\<close>.

  A \<open>*Channel\<close> is an address into \<open>mx_heap\<close>: goroutines keep channel pointers after the channel
  has left the \<open>channels\<close> map, and a later channel on the same port is another object. A closed
  \<open>CloseChan\<close> is \<open>ch_Closed\<close>; \<open>closeOnce\<close> has run exactly when it is set. Go channels are
  bounded queues. The connection is the list of frames written to it; whether a write succeeds is an
  argument (\<open>cw\<close>).

  A \<open>select\<close> with several ready cases picks any of them: an operation that blocks or selects returns
  the list of its possible outcomes, which is empty when it has to wait. Goroutines started by
  \<open>OpenChannel\<close> and frames a worker holds between taking and dispatching are explicit, so that
  interleavings are sequences of steps.
\<close>

section \<open>State\<close>

record frameOut =
  fo_port :: "16 word"
  fo_data :: "byte list"
  fo_srcFd :: int
  fo_n :: int
  fo_ctrl :: bool

record ctrlFrame =
  cf_port :: "16 word"
  cf_ptype :: "16 word"

record Channel =
  ch_Port :: "16 word"
  ch_DataChan :: "byte list list"
  ch_Closed :: bool
  ch_sendQueue :: "frameOut list"
  ch_sendWindow :: "32 word"
  ch_pendingConsumed :: "32 word"
  ch_lastWUTime :: int
  ch_reader :: "byte list"

record Multiplexer =
  mx_heap :: "Channel list"
  mx_channels :: "(16 word, nat) gomap"
  mx_workChan :: "frameIn list"
  mx_inHand :: "frameIn list"
  mx_ctrlChan :: "ctrlFrame list"
  mx_goOpen :: "ctrlFrame list"
  mx_closed :: bool
  mx_onNewChannel :: bool
  mx_spliceAvail :: bool
  mx_wire :: "frameIn list"

definition workerCount :: nat where "workerCount = 4"
definition windowSize :: nat where "windowSize = 1048576"
definition sendQueueSize :: nat where "sendQueueSize = 64"
definition ctrlQueueSize :: nat where "ctrlQueueSize = 32"
definition workQueueSize :: nat where "workQueueSize = 64"
definition dataQueueSize :: nat where "dataQueueSize = 32"
definition windowThreshold :: int where "windowThreshold = 16384"
definition windowInterval :: int where "windowInterval = 10000000"

lemmas queue_sizes = sendQueueSize_def ctrlQueueSize_def workQueueSize_def dataQueueSize_def workerCount_def

definition New :: "bool \<Rightarrow> bool \<Rightarrow> Multiplexer" where
  "New spliceAvail onNew = \<lparr>mx_heap = [], mx_channels = [], mx_workChan = [], mx_inHand = [],
     mx_ctrlChan = [], mx_goOpen = [], mx_closed = False, mx_onNewChannel = onNew,
     mx_spliceAvail = spliceAvail, mx_wire = []\<rparr>"

definition newChannel :: "16 word \<Rightarrow> int \<Rightarrow> Channel" where
  "newChannel port now = \<lparr>ch_Port = port, ch_DataChan = [], ch_Closed = False, ch_sendQueue = [],
     ch_sendWindow = of_nat windowSize, ch_pendingConsumed = 0, ch_lastWUTime = now, ch_reader = []\<rparr>"

definition select :: "(bool \<times> 'a) list \<Rightarrow> 'a list" where
  "select cases = map snd (filter fst cases)"

definition upd_ch :: "Multiplexer \<Rightarrow> nat \<Rightarrow> (Channel \<Rightarrow> Channel) \<Rightarrow> Multiplexer" where
  "upd_ch m a f = m\<lparr>mx_heap := (mx_heap m)[a := f (mx_heap m ! a)]\<rparr>"

definition addChannel :: "Multiplexer \<Rightarrow> 16 word \<Rightarrow> int \<Rightarrow> Multiplexer" where
  "addChannel m port now = m\<lparr>mx_heap := mx_heap m @ [newChannel port now],
     mx_channels := mput (mx_channels m) port (length (mx_heap m))\<rparr>"

section \<open>Closing\<close>

definition mux_Close :: "Multiplexer \<Rightarrow> Multiplexer" where
  "mux_Close m = m\<lparr>mx_closed := True\<rparr>"

definition close_chan :: "Channel \<Rightarrow> Channel" where
  "close_chan c = (if ch_Closed c then c else c\<lparr>ch_sendQueue := [], ch_Closed := True\<rparr>)"

definition closeChannelLocal :: "Multiplexer \<Rightarrow> 16 word \<Rightarrow> Multiplexer" where
  "closeChannelLocal m port =
     (case mget (mx_channels m) port of
        None \<Rightarrow> m
      | Some a \<Rightarrow> upd_ch (m\<lparr>mx_channels := mdel (mx_channels m) port\<rparr>) a close_chan)"

text \<open>The deferred function of \<open>readLoop\<close>: every registered channel is closed, the map is cleared,
  the multiplexer closes. Queued frames stay in the send queues.\<close>

definition readLoop_exit :: "Multiplexer \<Rightarrow> Multiplexer" where
  "readLoop_exit m =
     mux_Close ((foldl (\<lambda>m' a. upd_ch m' a (\<lambda>c. c\<lparr>ch_Closed := True\<rparr>)) m (map snd (mx_channels m)))
       \<lparr>mx_channels := []\<rparr>)"

section \<open>Receiving\<close>

definition readLoop_push :: "Multiplexer \<Rightarrow> frameIn \<Rightarrow> Multiplexer list" where
  "readLoop_push m f = select
     [(length (mx_workChan m) < workQueueSize, m\<lparr>mx_workChan := mx_workChan m @ [f]\<rparr>),
      (mx_closed m, readLoop_exit m)]"

definition ch_deliver :: "byte list \<Rightarrow> Channel \<Rightarrow> Channel" where
  "ch_deliver data c = c\<lparr>ch_DataChan := ch_DataChan c @ [data]\<rparr>"

definition dispatchData :: "Multiplexer \<Rightarrow> 16 word \<Rightarrow> byte list \<Rightarrow> int \<Rightarrow> Multiplexer list" where
  "dispatchData m port data now =
     (case mget (mx_channels m) port of
        Some a \<Rightarrow> select
          [(length (ch_DataChan (mx_heap m ! a)) < dataQueueSize, upd_ch m a (ch_deliver data)),
           (mx_closed m, m)]
      | None \<Rightarrow>
          if \<not> mx_onNewChannel m then [m]
          else let m' = addChannel m port now in select
            [(True, upd_ch m' (length (mx_heap m)) (ch_deliver data)), (mx_closed m, m')])"

definition ch_credit :: "32 word \<Rightarrow> Channel \<Rightarrow> Channel" where
  "ch_credit w c = c\<lparr>ch_sendWindow := ch_sendWindow c + w\<rparr>"

definition handleWindowUpdate :: "Multiplexer \<Rightarrow> 16 word \<Rightarrow> byte list \<Rightarrow> Multiplexer" where
  "handleWindowUpdate m port data =
     (if length data < 4 then m
      else let w = un_be32 (data ! 0) (data ! 1) (data ! 2) (data ! 3) in
        case mget (mx_channels m) port of None \<Rightarrow> m | Some a \<Rightarrow> upd_ch m a (ch_credit w))"

definition dispatch :: "Multiplexer \<Rightarrow> frameIn \<Rightarrow> int \<Rightarrow> Multiplexer list" where
  "dispatch m f now =
     (if fi_ptype f = PktData then dispatchData m (fi_port f) (fi_data f) now
      else if fi_ptype f = PktClose then [closeChannelLocal m (fi_port f)]
      else if fi_ptype f = PktWindowUpdate then [handleWindowUpdate m (fi_port f) (fi_data f)]
      else [m])"

text \<open>Each of the four workers takes a frame off the queue and then dispatches it; the two are
  separate steps, and the frames in between are \<open>mx_inHand\<close>.\<close>

definition worker_take :: "Multiplexer \<Rightarrow> Multiplexer list" where
  "worker_take m =
     (case mx_workChan m of
        [] \<Rightarrow> []
      | f # fs \<Rightarrow> if length (mx_inHand m) < workerCount
                  then [m\<lparr>mx_workChan := fs, mx_inHand := mx_inHand m @ [f]\<rparr>] else [])"

definition worker_dispatch :: "Multiplexer \<Rightarrow> nat \<Rightarrow> int \<Rightarrow> Multiplexer list" where
  "worker_dispatch m i now =
     (if i < length (mx_inHand m)
      then dispatch (m\<lparr>mx_inHand := take i (mx_inHand m) @ drop (Suc i) (mx_inHand m)\<rparr>) (mx_inHand m ! i) now
      else [])"

section \<open>Sending\<close>

definition enqueueFrame :: "Multiplexer \<Rightarrow> nat \<Rightarrow> frameOut \<Rightarrow> (string option \<times> Multiplexer) list" where
  "enqueueFrame m a fr = select
     [(length (ch_sendQueue (mx_heap m ! a)) < sendQueueSize,
         (None, upd_ch m a (\<lambda>c. c\<lparr>ch_sendQueue := ch_sendQueue c @ [fr]\<rparr>))),
      (ch_Closed (mx_heap m ! a), (Some ''channel closed'', m)),
      (mx_closed m, (Some ''multiplexer closed'', m))]"

definition window_allows :: "Channel \<Rightarrow> 32 word \<Rightarrow> bool" where
  "window_allows c dataLen \<longleftrightarrow> \<not> sint (ch_sendWindow c) < sint dataLen"

definition ch_reserve :: "32 word \<Rightarrow> Channel \<Rightarrow> Channel" where
  "ch_reserve dataLen c = c\<lparr>ch_sendWindow := ch_sendWindow c - dataLen\<rparr>"

text \<open>The wait for the window and the reservation, shared by \<open>Send\<close> and \<open>SpliceSend\<close>. The
  check and the subtraction are two atomic operations; \<open>window_allows\<close> and \<open>ch_reserve\<close> are
  the two halves.\<close>

definition send_windowed :: "Multiplexer \<Rightarrow> 16 word \<Rightarrow> 32 word \<Rightarrow> frameOut \<Rightarrow> (string option \<times> Multiplexer) list" where
  "send_windowed m port dataLen fr =
     (case mget (mx_channels m) port of
        None \<Rightarrow> [(Some ''channel not found'', m)]
      | Some a \<Rightarrow>
          if \<not> window_allows (mx_heap m ! a) dataLen
          then select [(ch_Closed (mx_heap m ! a), (Some ''channel closed'', m)),
                       (mx_closed m, (Some ''multiplexer closed'', m))]
          else enqueueFrame (upd_ch m a (ch_reserve dataLen)) a fr)"

definition mux_Send :: "Multiplexer \<Rightarrow> 16 word \<Rightarrow> byte list \<Rightarrow> (string option \<times> Multiplexer) list" where
  "mux_Send m port data =
     (if mx_closed m then [(Some ''multiplexer closed'', m)]
      else send_windowed m port (of_nat (length data))
        \<lparr>fo_port = port, fo_data = data, fo_srcFd = -1, fo_n = 0, fo_ctrl = False\<rparr>)"

definition SpliceSend :: "Multiplexer \<Rightarrow> 16 word \<Rightarrow> int \<Rightarrow> int \<Rightarrow> (string option \<times> Multiplexer) list" where
  "SpliceSend m port srcFd n =
     (if mx_closed m then [(Some ''multiplexer closed'', m)]
      else if \<not> mx_spliceAvail m then [(Some ''splice not available'', m)]
      else let n = (if int MaxFrameSize < n then int MaxFrameSize else n) in
        send_windowed m port (of_int n)
          \<lparr>fo_port = port, fo_data = [], fo_srcFd = srcFd, fo_n = n, fo_ctrl = False\<rparr>)"

definition enqueueCtrl :: "Multiplexer \<Rightarrow> 16 word \<Rightarrow> 16 word \<Rightarrow> Multiplexer list" where
  "enqueueCtrl m port ptype =
     (if mx_closed m then [m]
      else select
        [(length (mx_ctrlChan m) < ctrlQueueSize,
            m\<lparr>mx_ctrlChan := mx_ctrlChan m @ [\<lparr>cf_port = port, cf_ptype = ptype\<rparr>]\<rparr>),
         (mx_closed m, m)])"

definition OpenChannel :: "Multiplexer \<Rightarrow> 16 word \<Rightarrow> int \<Rightarrow> (string + nat) \<times> Multiplexer" where
  "OpenChannel m port now =
     (if mx_closed m then (Inl ''multiplexer closed'', m)
      else case mget (mx_channels m) port of
          Some a \<Rightarrow> (Inr a, m)
        | None \<Rightarrow> (Inr (length (mx_heap m)),
            (addChannel m port now)\<lparr>mx_goOpen := mx_goOpen m @ [\<lparr>cf_port = port, cf_ptype = PktOpen\<rparr>]\<rparr>))"

text \<open>One of the \<open>go m.enqueueCtrl(port, PktOpen)\<close> goroutines runs.\<close>

definition run_goOpen :: "Multiplexer \<Rightarrow> Multiplexer list" where
  "run_goOpen m =
     (case mx_goOpen m of [] \<Rightarrow> []
      | cf # cfs \<Rightarrow> enqueueCtrl (m\<lparr>mx_goOpen := cfs\<rparr>) (cf_port cf) (cf_ptype cf))"

definition CloseChannel :: "Multiplexer \<Rightarrow> 16 word \<Rightarrow> Multiplexer list" where
  "CloseChannel m port = (if mx_closed m then [m] else enqueueCtrl m port PktClose)"

section \<open>The write loop\<close>

definition wire_put :: "Multiplexer \<Rightarrow> 16 word \<Rightarrow> 16 word \<Rightarrow> byte list \<Rightarrow> Multiplexer" where
  "wire_put m port ptype data =
     m\<lparr>mx_wire := mx_wire m @ [\<lparr>fi_port = port, fi_ptype = ptype, fi_data = data\<rparr>]\<rparr>"

text \<open>Step 1 of an iteration (\<open>cleanup\<close> set) and the control-frame cases of the two waits
  (\<open>cleanup\<close> clear): only the former tears the channel down after a \<open>PktClose\<close>.\<close>

definition write_ctrl_frame :: "bool \<Rightarrow> bool \<Rightarrow> Multiplexer \<Rightarrow> Multiplexer" where
  "write_ctrl_frame cleanup cw m =
     (case mx_ctrlChan m of
        [] \<Rightarrow> m
      | cf # cfs \<Rightarrow>
          let m1 = m\<lparr>mx_ctrlChan := cfs\<rparr> in
          if mx_closed m \<or> \<not> cw then mux_Close m1
          else let m2 = wire_put m1 (cf_port cf) (cf_ptype cf) [] in
            if cleanup \<and> cf_ptype cf = PktClose then closeChannelLocal m2 (cf_port cf) else m2)"

definition writeLoop_ctrl :: "bool \<Rightarrow> Multiplexer \<Rightarrow> Multiplexer" where
  "writeLoop_ctrl = write_ctrl_frame True"

definition writeLoop_wait_ctrl :: "bool \<Rightarrow> Multiplexer \<Rightarrow> Multiplexer" where
  "writeLoop_wait_ctrl = write_ctrl_frame False"

text \<open>Step 2 for one channel of the snapshot: one frame of its queue, if there is one. A splice
  frame carries \<open>spliced\<close>, the bytes the kernel moved.\<close>

definition write_data_frame :: "bool \<Rightarrow> byte list \<Rightarrow> Multiplexer \<Rightarrow> nat \<Rightarrow> Multiplexer" where
  "write_data_frame cw spliced m a =
     (if mx_closed m then m
      else case ch_sendQueue (mx_heap m ! a) of
          [] \<Rightarrow> m
        | fr # q \<Rightarrow>
            let m1 = upd_ch m a (\<lambda>c. c\<lparr>ch_sendQueue := q\<rparr>) in
            if 0 \<le> fo_srcFd fr then
              (if cw \<and> spliced \<noteq> [] then wire_put m1 (fo_port fr) PktData spliced else mux_Close m1)
            else if cw \<and> length (fo_data fr) \<le> MaxFrameSize
              then wire_put m1 (fo_port fr) (if fo_ctrl fr then PktOpen else PktData) (fo_data fr)
              else mux_Close m1)"

definition writeLoop_data :: "bool \<Rightarrow> byte list \<Rightarrow> Multiplexer \<Rightarrow> Multiplexer" where
  "writeLoop_data cw spliced m = foldl (write_data_frame cw spliced) m (map snd (mx_channels m))"

section \<open>Reading from a channel\<close>

definition wu_due :: "Channel \<Rightarrow> 32 word \<Rightarrow> int \<Rightarrow> bool" where
  "wu_due c pending now \<longleftrightarrow> windowThreshold \<le> sint pending \<or> windowInterval \<le> now - ch_lastWUTime c"

definition ch_consume :: "32 word \<Rightarrow> int \<Rightarrow> Channel \<Rightarrow> 32 word option \<times> Channel" where
  "ch_consume consumed now c =
     (let pending = ch_pendingConsumed c + consumed in
      if wu_due c pending now
      then (Some pending, c\<lparr>ch_pendingConsumed := 0, ch_lastWUTime := now\<rparr>)
      else (None, c\<lparr>ch_pendingConsumed := pending\<rparr>))"

definition SendWindowUpdate :: "bool \<Rightarrow> Multiplexer \<Rightarrow> 16 word \<Rightarrow> nat \<Rightarrow> int \<Rightarrow> string option \<times> Multiplexer" where
  "SendWindowUpdate cw m port consumed now =
     (if mx_closed m then (Some ''multiplexer closed'', m)
      else case mget (mx_channels m) port of
          None \<Rightarrow> (None, m)
        | Some a \<Rightarrow>
            let (w, c) = ch_consume (of_nat consumed) now (mx_heap m ! a); m1 = upd_ch m a (\<lambda>_. c) in
            case w of
              None \<Rightarrow> (None, m1)
            | Some pending \<Rightarrow> if cw then (None, wire_put m1 port PktWindowUpdate (be32 pending))
                               else (Some ''write error'', m1))"

definition Receive :: "Channel \<Rightarrow> (byte list option \<times> Channel) list" where
  "Receive c =
     (let sel = select [(ch_DataChan c \<noteq> [], (Some (hd (ch_DataChan c)), c\<lparr>ch_DataChan := tl (ch_DataChan c)\<rparr>)),
                        (ch_Closed c, (None, c))]
      in if sel = [] then [(None, c)] else sel)"

definition ReceiveBlocking :: "Channel \<Rightarrow> (byte list option \<times> Channel) list" where
  "ReceiveBlocking c =
     (let data = (Some (hd (ch_DataChan c)), c\<lparr>ch_DataChan := tl (ch_DataChan c)\<rparr>) in
      select [(ch_DataChan c \<noteq> [], data),
              (ch_Closed c, if ch_DataChan c \<noteq> [] then data else (None, c))])"

text \<open>\<open>Read\<close> into a buffer of \<open>plen\<close> bytes: \<open>None\<close> is \<open>io.EOF\<close>.\<close>

definition Channel_Read :: "bool \<Rightarrow> Multiplexer \<Rightarrow> nat \<Rightarrow> nat \<Rightarrow> int \<Rightarrow> (byte list option \<times> Multiplexer) list" where
  "Channel_Read cw m a plen now =
     (let c = mx_heap m ! a in
      if ch_reader c \<noteq> [] then
        [(Some (take plen (ch_reader c)), upd_ch m a (\<lambda>c. c\<lparr>ch_reader := drop plen (ch_reader c)\<rparr>))]
      else map (\<lambda>(r, c').
          case r of
            None \<Rightarrow> (None, m)
          | Some data \<Rightarrow>
              let m1 = upd_ch m a (\<lambda>_. c') in
              if plen < length data
              then (Some (take plen data), upd_ch m1 a (\<lambda>c. c\<lparr>ch_reader := drop plen data\<rparr>))
              else (Some data, snd (SendWindowUpdate cw m1 (ch_Port c) (length data) now)))
        (ReceiveBlocking c))"

definition Channel_Write :: "Multiplexer \<Rightarrow> nat \<Rightarrow> byte list \<Rightarrow> ((string + nat) \<times> Multiplexer) list" where
  "Channel_Write m a p =
     map (\<lambda>(e, m'). (case e of None \<Rightarrow> Inr (length p) | Some x \<Rightarrow> Inl x, m'))
       (mux_Send m (ch_Port (mx_heap m ! a)) p)"

section \<open>The step relation\<close>

inductive mux_step :: "Multiplexer \<Rightarrow> Multiplexer \<Rightarrow> bool" where
  recv: "m' \<in> set (readLoop_push m f) \<Longrightarrow> mux_step m m'"
| read_end: "mux_step m (readLoop_exit m)"
| take: "m' \<in> set (worker_take m) \<Longrightarrow> mux_step m m'"
| dispatch: "m' \<in> set (worker_dispatch m i now) \<Longrightarrow> mux_step m m'"
| send: "(e, m') \<in> set (mux_Send m port data) \<Longrightarrow> mux_step m m'"
| splice: "(e, m') \<in> set (SpliceSend m port fd n) \<Longrightarrow> mux_step m m'"
| openc: "OpenChannel m port now = (r, m') \<Longrightarrow> mux_step m m'"
| go_open: "m' \<in> set (run_goOpen m) \<Longrightarrow> mux_step m m'"
| closec: "m' \<in> set (CloseChannel m port) \<Longrightarrow> mux_step m m'"
| ctrl: "mux_step m (writeLoop_ctrl cw m)"
| wait_ctrl: "mux_step m (writeLoop_wait_ctrl cw m)"
| data: "mux_step m (writeLoop_data cw spliced m)"
| read: "a < length (mx_heap m) \<Longrightarrow> (r, m') \<in> set (Channel_Read cw m a plen now) \<Longrightarrow> mux_step m m'"
| close: "mux_step m (mux_Close m)"

inductive mux_reach :: "Multiplexer \<Rightarrow> bool" where
  start: "mux_reach (New sp onNew)"
| step: "mux_reach m \<Longrightarrow> mux_step m m' \<Longrightarrow> mux_reach m'"

section \<open>The invariant\<close>

definition ch_ok :: "Channel \<Rightarrow> bool" where
  "ch_ok c \<longleftrightarrow> length (ch_DataChan c) \<le> dataQueueSize \<and> length (ch_sendQueue c) \<le> sendQueueSize \<and>
     (\<forall>fr \<in> set (ch_sendQueue c). fo_port fr = ch_Port c)"

definition mux_inv :: "Multiplexer \<Rightarrow> bool" where
  "mux_inv m \<longleftrightarrow> wf_map (mx_channels m) \<and>
     (\<forall>p a. mget (mx_channels m) p = Some a \<longrightarrow>
        a < length (mx_heap m) \<and> ch_Port (mx_heap m ! a) = p \<and> \<not> ch_Closed (mx_heap m ! a)) \<and>
     (\<forall>c \<in> set (mx_heap m). ch_ok c) \<and>
     length (mx_workChan m) \<le> workQueueSize \<and> length (mx_inHand m) \<le> workerCount \<and>
     length (mx_ctrlChan m) \<le> ctrlQueueSize"

lemma set_select [simp]: "x \<in> set (select cs) \<longleftrightarrow> (True, x) \<in> set cs"
  by (force simp: select_def)

lemma upd_ch_simps [simp]:
  "mx_channels (upd_ch m a f) = mx_channels m" "mx_workChan (upd_ch m a f) = mx_workChan m"
  "mx_inHand (upd_ch m a f) = mx_inHand m" "mx_ctrlChan (upd_ch m a f) = mx_ctrlChan m"
  "mx_goOpen (upd_ch m a f) = mx_goOpen m" "mx_closed (upd_ch m a f) = mx_closed m"
  "mx_wire (upd_ch m a f) = mx_wire m" "mx_onNewChannel (upd_ch m a f) = mx_onNewChannel m"
  "mx_heap (upd_ch m a f) = (mx_heap m)[a := f (mx_heap m ! a)]"
  by (simp_all add: upd_ch_def)

lemma mux_inv_ch: "mux_inv m \<Longrightarrow> a < length (mx_heap m) \<Longrightarrow> ch_ok (mx_heap m ! a)"
  by (simp add: mux_inv_def)

lemma mux_inv_reg: "mux_inv m \<Longrightarrow> mget (mx_channels m) p = Some a \<Longrightarrow>
    a < length (mx_heap m) \<and> ch_Port (mx_heap m ! a) = p \<and> \<not> ch_Closed (mx_heap m ! a)"
  by (simp add: mux_inv_def)

lemma mux_inv_init: "mux_inv (New sp onNew)"
  by (simp add: mux_inv_def New_def)

lemma mux_inv_upd_ch:
  assumes "mux_inv m"
    and "a < length (mx_heap m) \<Longrightarrow> ch_ok (f (mx_heap m ! a)) \<and> ch_Port (f (mx_heap m ! a)) = ch_Port (mx_heap m ! a) \<and>
      (ch_Closed (f (mx_heap m ! a)) \<longrightarrow> ch_Closed (mx_heap m ! a))"
  shows "mux_inv (upd_ch m a f)"
proof (cases "a < length (mx_heap m)")
  case True
  have "\<forall>c \<in> set ((mx_heap m)[a := f (mx_heap m ! a)]). ch_ok c"
    using assms True by (auto simp: mux_inv_def dest!: set_update_subset_insert [THEN subsetD])
  moreover have "b < length (mx_heap m) \<and> ch_Port ((mx_heap m)[a := f (mx_heap m ! a)] ! b) = p \<and>
      \<not> ch_Closed ((mx_heap m)[a := f (mx_heap m ! a)] ! b)" if "mget (mx_channels m) p = Some b" for p b
    using mux_inv_reg [OF assms(1) that] assms(2) [OF True] True by (auto simp: nth_list_update)
  ultimately show ?thesis using assms(1) by (simp add: mux_inv_def)
next
  case False
  then have "upd_ch m a f = m" by (simp add: upd_ch_def not_less list_update_beyond)
  then show ?thesis using assms(1) by simp
qed

lemma mux_inv_closeChannelLocal: "mux_inv m \<Longrightarrow> mux_inv (closeChannelLocal m port)"
proof (cases "mget (mx_channels m) port")
  case None
  moreover assume "mux_inv m"
  ultimately show ?thesis by (simp add: closeChannelLocal_def)
next
  case (Some a)
  assume inv: "mux_inv m"
  have a: "a < length (mx_heap m)" "ch_Port (mx_heap m ! a) = port" and ok: "ch_ok (mx_heap m ! a)"
    using mux_inv_reg [OF inv Some] mux_inv_ch [OF inv] by auto
  have "ch_ok (close_chan (mx_heap m ! a))" "ch_Port (close_chan (mx_heap m ! a)) = port"
    using ok a by (auto simp: close_chan_def ch_ok_def)
  moreover have "b \<noteq> a" if "mget (mx_channels m) p = Some b" "p \<noteq> port" for p b
    using mux_inv_reg [OF inv that(1)] that(2) a by auto
  ultimately show ?thesis
    using inv a Some
    by (auto simp: mux_inv_def closeChannelLocal_def nth_list_update
      dest!: set_update_subset_insert [THEN subsetD])
qed

lemma foldl_close_heap:
  "(\<forall>c \<in> set (mx_heap m). ch_ok c) \<Longrightarrow>
    (\<forall>c \<in> set (mx_heap (foldl (\<lambda>m' a. upd_ch m' a (\<lambda>c. c\<lparr>ch_Closed := True\<rparr>)) m as)). ch_ok c) \<and>
    mx_workChan (foldl (\<lambda>m' a. upd_ch m' a (\<lambda>c. c\<lparr>ch_Closed := True\<rparr>)) m as) = mx_workChan m \<and>
    mx_inHand (foldl (\<lambda>m' a. upd_ch m' a (\<lambda>c. c\<lparr>ch_Closed := True\<rparr>)) m as) = mx_inHand m \<and>
    mx_ctrlChan (foldl (\<lambda>m' a. upd_ch m' a (\<lambda>c. c\<lparr>ch_Closed := True\<rparr>)) m as) = mx_ctrlChan m"
proof (induction as arbitrary: m)
  case Nil
  then show ?case by simp
next
  case (Cons a as)
  have "\<forall>c \<in> set (mx_heap (upd_ch m a (\<lambda>c. c\<lparr>ch_Closed := True\<rparr>))). ch_ok c"
  proof (cases "a < length (mx_heap m)")
    case True
    then show ?thesis
      using Cons.prems by (auto simp: ch_ok_def dest!: set_update_subset_insert [THEN subsetD])
  next
    case False
    then show ?thesis using Cons.prems by (simp add: not_less list_update_beyond)
  qed
  from Cons.IH [OF this] show ?case by simp
qed

lemma mux_inv_readLoop_exit: "mux_inv m \<Longrightarrow> mux_inv (readLoop_exit m)"
  using foldl_close_heap [of m "map snd (mx_channels m)"]
  by (simp add: mux_inv_def readLoop_exit_def mux_Close_def)

lemma mux_inv_Close: "mux_inv m \<Longrightarrow> mux_inv (mux_Close m)"
  by (simp add: mux_inv_def mux_Close_def)

lemma mux_inv_addChannel:
  assumes "mux_inv m" "mget (mx_channels m) port = None"
  shows "mux_inv (addChannel m port now)"
  using assms by (auto simp: mux_inv_def addChannel_def newChannel_def nth_append ch_ok_def queue_sizes
      less_Suc_eq)

lemma mux_inv_dispatchData:
  assumes "mux_inv m" "m' \<in> set (dispatchData m port data now)"
  shows "mux_inv m'"
proof (cases "mget (mx_channels m) port")
  case None
  let ?n = "addChannel m port now"
  have "mux_inv ?n" by (rule mux_inv_addChannel [OF assms(1) None])
  moreover have "mux_inv (upd_ch ?n (length (mx_heap m)) (ch_deliver data))"
    using \<open>mux_inv ?n\<close>
    by (rule mux_inv_upd_ch) (simp add: addChannel_def newChannel_def ch_deliver_def ch_ok_def queue_sizes)
  ultimately show ?thesis
    using assms None by (auto simp: dispatchData_def Let_def split: if_splits)
next
  case (Some a)
  have "mux_inv (upd_ch m a (ch_deliver data))" if "length (ch_DataChan (mx_heap m ! a)) < dataQueueSize"
    using assms(1) by (rule mux_inv_upd_ch)
      (use mux_inv_ch [OF assms(1)] that in \<open>simp add: ch_deliver_def ch_ok_def\<close>)
  then show ?thesis using assms Some by (auto simp: dispatchData_def)
qed

lemma mux_inv_handleWindowUpdate: "mux_inv m \<Longrightarrow> mux_inv (handleWindowUpdate m port data)"
  by (auto simp: handleWindowUpdate_def Let_def ch_credit_def ch_ok_def split: option.splits
      intro!: mux_inv_upd_ch dest: mux_inv_ch)

lemma mux_inv_dispatch: "mux_inv m \<Longrightarrow> m' \<in> set (dispatch m f now) \<Longrightarrow> mux_inv m'"
  by (auto simp: dispatch_def mux_inv_closeChannelLocal mux_inv_handleWindowUpdate
      dest: mux_inv_dispatchData split: if_splits)

lemma mux_inv_worker_dispatch: "mux_inv m \<Longrightarrow> m' \<in> set (worker_dispatch m i now) \<Longrightarrow> mux_inv m'"
  by (rule mux_inv_dispatch [of "m\<lparr>mx_inHand := take i (mx_inHand m) @ drop (Suc i) (mx_inHand m)\<rparr>"])
    (auto simp: worker_dispatch_def mux_inv_def split: if_splits)

lemma mux_inv_enqueueFrame:
  assumes "mux_inv m" "(e, m') \<in> set (enqueueFrame m a fr)"
    "a < length (mx_heap m) \<Longrightarrow> fo_port fr = ch_Port (mx_heap m ! a)"
  shows "mux_inv m'"
proof -
  have "mux_inv (upd_ch m a (\<lambda>c. c\<lparr>ch_sendQueue := ch_sendQueue c @ [fr]\<rparr>))"
    if "length (ch_sendQueue (mx_heap m ! a)) < sendQueueSize"
    using assms(1) by (rule mux_inv_upd_ch)
      (use mux_inv_ch [OF assms(1)] that assms(3) in \<open>auto simp: ch_ok_def\<close>)
  then show ?thesis using assms by (auto simp: enqueueFrame_def)
qed

lemma mux_inv_send_windowed:
  assumes "mux_inv m" "(e, m') \<in> set (send_windowed m port n fr)" "fo_port fr = port"
  shows "mux_inv m'"
proof (cases "mget (mx_channels m) port")
  case None
  then show ?thesis using assms by (simp add: send_windowed_def)
next
  case (Some a)
  have "mux_inv (upd_ch m a (ch_reserve n))"
    using assms(1) by (rule mux_inv_upd_ch)
      (use mux_inv_ch [OF assms(1)] in \<open>simp add: ch_reserve_def ch_ok_def\<close>)
  moreover have "ch_Port (mx_heap (upd_ch m a (ch_reserve n)) ! a) = port"
    using mux_inv_reg [OF assms(1) Some] by (simp add: ch_reserve_def)
  ultimately show ?thesis
    using assms Some mux_inv_enqueueFrame by (auto simp: send_windowed_def split: if_splits)
qed

lemma mux_inv_enqueueCtrl: "mux_inv m \<Longrightarrow> m' \<in> set (enqueueCtrl m port t) \<Longrightarrow> mux_inv m'"
  by (auto simp: enqueueCtrl_def mux_inv_def split: if_splits)

lemma mux_inv_wire_put [simp]: "mux_inv (wire_put m p t d) = mux_inv m"
  by (simp add: wire_put_def mux_inv_def)

lemma mux_inv_write_ctrl_frame: "mux_inv m \<Longrightarrow> mux_inv (write_ctrl_frame cl cw m)"
  by (cases "mx_ctrlChan m")
    (auto simp: write_ctrl_frame_def Let_def mux_Close_def intro!: mux_inv_closeChannelLocal
      simp flip: mux_inv_wire_put [of _ _ _ "[]"], auto simp: mux_inv_def wire_put_def)

lemma mux_inv_write_data_frame:
  assumes "mux_inv m"
  shows "mux_inv (write_data_frame cw sp m a)"
proof (cases "ch_sendQueue (mx_heap m ! a)")
  case Nil
  then show ?thesis using assms by (simp add: write_data_frame_def)
next
  case (Cons fr q)
  have "mux_inv (upd_ch m a (\<lambda>c. c\<lparr>ch_sendQueue := q\<rparr>))"
    using assms by (rule mux_inv_upd_ch) (use mux_inv_ch [OF assms] Cons in \<open>force simp: ch_ok_def\<close>)
  then show ?thesis using assms Cons by (auto simp: write_data_frame_def Let_def intro: mux_inv_Close)
qed

lemma mux_inv_writeLoop_data: "mux_inv m \<Longrightarrow> mux_inv (writeLoop_data cw sp m)"
proof -
  have "mux_inv m \<Longrightarrow> mux_inv (foldl (write_data_frame cw sp) m as)" for as
    by (induction as arbitrary: m) (auto intro: mux_inv_write_data_frame)
  then show "mux_inv m \<Longrightarrow> mux_inv (writeLoop_data cw sp m)" by (simp add: writeLoop_data_def)
qed

lemma ch_consume_frame: "ch_consume n now c = (w, c') \<Longrightarrow>
    ch_DataChan c' = ch_DataChan c \<and> ch_sendQueue c' = ch_sendQueue c \<and> ch_Port c' = ch_Port c \<and> ch_Closed c' = ch_Closed c"
  by (auto simp: ch_consume_def Let_def split: if_splits)

lemma mux_inv_SendWindowUpdate:
  assumes "mux_inv m"
  shows "mux_inv (snd (SendWindowUpdate cw m port n now))"
proof (cases "mget (mx_channels m) port")
  case None
  then show ?thesis using assms by (simp add: SendWindowUpdate_def)
next
  case (Some a)
  obtain w c where wc: "ch_consume (of_nat n) now (mx_heap m ! a) = (w, c)" by fastforce
  have "mux_inv (upd_ch m a (\<lambda>_. c))"
    using assms by (rule mux_inv_upd_ch)
      (use mux_inv_ch [OF assms] ch_consume_frame [OF wc] in \<open>simp add: ch_ok_def\<close>)
  then show ?thesis using assms Some wc by (auto simp: SendWindowUpdate_def Let_def split: option.splits)
qed

lemma ReceiveBlocking_cases:
  "(r, c') \<in> set (ReceiveBlocking c) \<Longrightarrow>
    (\<exists>d ds. ch_DataChan c = d # ds \<and> r = Some d \<and> c' = c\<lparr>ch_DataChan := ds\<rparr>) \<or>
    r = None \<and> c' = c \<and> ch_DataChan c = [] \<and> ch_Closed c"
  by (cases "ch_DataChan c") (auto simp: ReceiveBlocking_def Let_def split: if_splits)

lemma mux_inv_Read:
  assumes "mux_inv m" "(r, m') \<in> set (Channel_Read cw m a plen now)"
  shows "mux_inv m'"
proof (cases "ch_reader (mx_heap m ! a) = []")
  case False
  have "mux_inv (upd_ch m a (\<lambda>c. c\<lparr>ch_reader := drop plen (ch_reader c)\<rparr>))"
    using assms(1) by (rule mux_inv_upd_ch) (use mux_inv_ch [OF assms(1)] in \<open>simp add: ch_ok_def\<close>)
  then show ?thesis using assms False by (simp add: Channel_Read_def Let_def)
next
  case True
  have U: "mux_inv (upd_ch m a (\<lambda>_. c'))" if "(x, c') \<in> set (ReceiveBlocking (mx_heap m ! a))" for x c'
    using assms(1) by (rule mux_inv_upd_ch)
      (use mux_inv_ch [OF assms(1), of a] ReceiveBlocking_cases [OF that] in \<open>auto simp: ch_ok_def\<close>)
  have V: "mux_inv (upd_ch (upd_ch m a (\<lambda>_. c')) a (\<lambda>c. c\<lparr>ch_reader := d\<rparr>))"
    if "(x, c') \<in> set (ReceiveBlocking (mx_heap m ! a))" for x c' d
    using U [OF that] by (rule mux_inv_upd_ch)
      (use mux_inv_ch [OF U [OF that], of a] in \<open>simp add: ch_ok_def\<close>)
  show ?thesis
    using assms True U V mux_inv_SendWindowUpdate
    by (auto simp: Channel_Read_def Let_def split: option.splits if_splits)
qed

lemma mux_inv_OpenChannel: "mux_inv m \<Longrightarrow> OpenChannel m port now = (r, m') \<Longrightarrow> mux_inv m'"
  using mux_inv_addChannel [of m port now]
  by (auto simp: OpenChannel_def mux_inv_def split: if_splits option.splits)

lemma mux_step_inv: "mux_step m m' \<Longrightarrow> mux_inv m \<Longrightarrow> mux_inv m'"
proof (induction rule: mux_step.induct)
  case (recv m' m f)
  then show ?case by (auto simp: readLoop_push_def mux_inv_readLoop_exit) (simp add: mux_inv_def)
next
  case (take m' m)
  then show ?case by (cases "mx_workChan m") (auto simp: worker_take_def mux_inv_def split: if_splits)
next
  case (send e m' m port data)
  then show ?case by (auto simp: mux_Send_def split: if_splits elim: mux_inv_send_windowed)
next
  case (splice e m' m port fd n)
  then show ?case by (auto simp: SpliceSend_def Let_def split: if_splits elim: mux_inv_send_windowed)
next
  case (go_open m' m)
  have "mux_inv (m\<lparr>mx_goOpen := cfs\<rparr>)" for cfs
    using go_open.prems by (simp add: mux_inv_def)
  then show ?case
    using go_open by (auto simp: run_goOpen_def split: list.splits elim: mux_inv_enqueueCtrl [rotated])
next
  case (closec m' m port)
  then show ?case by (auto simp: CloseChannel_def split: if_splits elim: mux_inv_enqueueCtrl [rotated])
qed (auto simp: writeLoop_ctrl_def writeLoop_wait_ctrl_def intro: mux_inv_readLoop_exit mux_inv_Close
    mux_inv_write_ctrl_frame mux_inv_writeLoop_data mux_inv_worker_dispatch mux_inv_Read mux_inv_OpenChannel)

lemma mux_reach_inv: "mux_reach m \<Longrightarrow> mux_inv m"
  by (induction rule: mux_reach.induct) (auto intro: mux_inv_init mux_step_inv)

section \<open>Isolation of channels\<close>

text \<open>What another port sees of a step on \<open>port\<close>: its channel is the same object with the same
  contents.\<close>

definition same_channel :: "16 word \<Rightarrow> Multiplexer \<Rightarrow> Multiplexer \<Rightarrow> bool" where
  "same_channel q m m' \<longleftrightarrow> mget (mx_channels m') q = mget (mx_channels m) q \<and>
     (\<forall>a. mget (mx_channels m) q = Some a \<longrightarrow> mx_heap m' ! a = mx_heap m ! a)"

lemma same_channel_refl [simp]: "same_channel q m m"
  by (simp add: same_channel_def)

lemma same_channel_upd_ch:
  "mux_inv m \<Longrightarrow> mget (mx_channels m) p = Some a \<Longrightarrow> q \<noteq> p \<Longrightarrow> same_channel q m (upd_ch m a f)"
  using mux_inv_reg [of m p a] mux_inv_reg [of m q] by (auto simp: same_channel_def nth_list_update)

lemma same_channel_addChannel:
  "mux_inv m \<Longrightarrow> q \<noteq> p \<Longrightarrow> same_channel q m (addChannel m p now)"
  using mux_inv_reg [of m q] by (auto simp: same_channel_def addChannel_def nth_append)

lemma same_channel_dispatch:
  assumes "mux_inv m" "m' \<in> set (dispatch m f now)" "q \<noteq> fi_port f"
  shows "same_channel q m m'"
proof (cases "mget (mx_channels m) (fi_port f)")
  case None
  have "same_channel q m (upd_ch (addChannel m (fi_port f) now) (length (mx_heap m)) g)" for g
    using same_channel_addChannel [OF assms(1,3)] mux_inv_reg [OF assms(1), of q]
    by (auto simp: same_channel_def nth_list_update)
  then show ?thesis
    using assms None same_channel_addChannel [OF assms(1,3)]
    by (auto simp: dispatch_def dispatchData_def closeChannelLocal_def handleWindowUpdate_def Let_def split: if_splits)
next
  case (Some a)
  have "same_channel q m (closeChannelLocal m (fi_port f))"
    using same_channel_upd_ch [OF assms(1) Some assms(3)] assms(3) Some
    by (simp add: same_channel_def closeChannelLocal_def)
  then show ?thesis
    using assms Some same_channel_upd_ch [OF assms(1) Some assms(3)]
    by (auto simp: dispatch_def dispatchData_def handleWindowUpdate_def Let_def split: if_splits)
qed

section \<open>Properties\<close>

text \<open>C12. In every reachable state of a multiplexer the queues respect their bounds (32 messages and
  64 outgoing frames per channel, 32 control frames, 64 received frames, four frames with the
  workers), and every registered channel is open, is stored under its own port and only queues
  frames for that port. Reachable means after any interleaving of the read loop, the workers, the
  write loop and the callers.\<close>

theorem mux_reachable_invariant:
  assumes "mux_reach m"
  shows "mux_inv m"
  using assms by (rule mux_reach_inv)

theorem mux_reachable_invariant_witness:
  "mux_inv (snd (OpenChannel (New False True) 80 0)) \<and> mget (mx_channels (snd (OpenChannel (New False True) 80 0))) 80 = Some 0"
proof -
  have "mux_reach (snd (OpenChannel (New False True) 80 0))"
    by (rule mux_reach.step [OF mux_reach.start, OF mux_step.openc [OF surjective_pairing]])
  from mux_reachable_invariant [OF this] show ?thesis
    by (simp add: OpenChannel_def New_def addChannel_def)
qed

text \<open>Dispatching a received frame never disturbs another port: for every port other than the
  frame's, the registered channel stays the same object with the same queues and windows.\<close>

theorem mux_dispatch_isolated:
  assumes "mux_reach m" and "m' \<in> set (dispatch m f now)" and "q \<noteq> fi_port f"
  shows "same_channel q m m'"
  using mux_reach_inv [OF assms(1)] assms(2,3) by (rule same_channel_dispatch)

theorem mux_dispatch_isolated_witness:
  "same_channel 9 (New False False) (closeChannelLocal (New False False) 7)"
  by (rule mux_dispatch_isolated [OF mux_reach.start,
        where f = "\<lparr>fi_port = 7, fi_ptype = PktClose, fi_data = []\<rparr>" and now = 0])
    (simp_all add: dispatch_def pkt_defs)

text \<open>Closing a channel: a \<open>PktClose\<close> taken by step 1 of the write loop puts the frame on the
  wire, unregisters the channel and closes it; the same frame taken while the loop waits is written
  as well but the channel stays registered and open.\<close>

theorem mux_close_cleanup_gap:
  assumes "mux_inv m" and "\<not> mx_closed m" and "mget (mx_channels m) p = Some a"
    and "mx_ctrlChan m = \<lparr>cf_port = p, cf_ptype = PktClose\<rparr> # cfs"
  shows "mx_wire (writeLoop_ctrl True m) = mx_wire m @ [\<lparr>fi_port = p, fi_ptype = PktClose, fi_data = []\<rparr>] \<and>
    mget (mx_channels (writeLoop_ctrl True m)) p = None \<and> ch_Closed (mx_heap (writeLoop_ctrl True m) ! a) \<and>
    mx_wire (writeLoop_wait_ctrl True m) = mx_wire (writeLoop_ctrl True m) \<and>
    mget (mx_channels (writeLoop_wait_ctrl True m)) p = Some a \<and>
    \<not> ch_Closed (mx_heap (writeLoop_wait_ctrl True m) ! a)"
  using assms mux_inv_reg [OF assms(1,3)]
  by (simp add: writeLoop_ctrl_def writeLoop_wait_ctrl_def write_ctrl_frame_def wire_put_def
      closeChannelLocal_def close_chan_def)

theorem mux_close_cleanup_gap_witness:
  "\<exists>m. mux_inv m \<and> mget (mx_channels (writeLoop_wait_ctrl True m)) 80 = Some 0 \<and>
    mget (mx_channels (writeLoop_ctrl True m)) 80 = None"
proof -
  let ?m = "(snd (OpenChannel (New False False) 80 0))\<lparr>mx_ctrlChan := [\<lparr>cf_port = 80, cf_ptype = PktClose\<rparr>]\<rparr>"
  have "mux_inv ?m"
    by (simp add: mux_inv_def OpenChannel_def New_def addChannel_def newChannel_def ch_ok_def queue_sizes)
  moreover have "\<not> mx_closed ?m" "mget (mx_channels ?m) 80 = Some 0"
    by (simp_all add: OpenChannel_def New_def addChannel_def)
  ultimately show ?thesis
    using mux_close_cleanup_gap [of ?m 80 0 "[]"] by (intro exI [of _ ?m]) simp
qed

text \<open>With four workers the multiplexer can hand the data of one channel to its reader in the
  wrong order: two frames for the same port, received one after the other, end up swapped in the
  channel's queue when the second worker is faster.\<close>

theorem mux_workers_can_reorder:
  "\<exists>m m1 m2 m3 m4 m5 m6. mux_reach m \<and>
     m1 \<in> set (readLoop_push m \<lparr>fi_port = 7, fi_ptype = PktData, fi_data = [1]\<rparr>) \<and>
     m2 \<in> set (readLoop_push m1 \<lparr>fi_port = 7, fi_ptype = PktData, fi_data = [2]\<rparr>) \<and>
     m3 \<in> set (worker_take m2) \<and> m4 \<in> set (worker_take m3) \<and>
     m5 \<in> set (worker_dispatch m4 1 0) \<and> m6 \<in> set (worker_dispatch m5 0 0) \<and>
     mget (mx_channels m6) 7 = Some 0 \<and> ch_DataChan (mx_heap m6 ! 0) = [[2], [1]]"
proof -
  let ?m = "snd (OpenChannel (New False False) 7 0)"
  let ?f1 = "\<lparr>fi_port = 7, fi_ptype = PktData, fi_data = [1]\<rparr>"
  let ?f2 = "\<lparr>fi_port = 7, fi_ptype = PktData, fi_data = [2]\<rparr>"
  let ?m2 = "?m\<lparr>mx_workChan := [?f1, ?f2]\<rparr>"
  let ?m4 = "?m\<lparr>mx_inHand := [?f1, ?f2]\<rparr>"
  let ?m5 = "upd_ch (?m\<lparr>mx_inHand := [?f1]\<rparr>) 0 (ch_deliver [2])"
  let ?m6 = "upd_ch (upd_ch ?m 0 (ch_deliver [2])) 0 (ch_deliver [1])"
  note evals = OpenChannel_def New_def addChannel_def newChannel_def readLoop_push_def worker_take_def
    worker_dispatch_def dispatch_def dispatchData_def upd_ch_def ch_deliver_def queue_sizes pkt_defs
  have "mux_reach ?m"
    by (rule mux_reach.step [OF mux_reach.start, OF mux_step.openc [OF surjective_pairing]])
  moreover have "?m\<lparr>mx_workChan := [?f1]\<rparr> \<in> set (readLoop_push ?m ?f1)" by (simp add: evals)
  moreover have "?m2 \<in> set (readLoop_push (?m\<lparr>mx_workChan := [?f1]\<rparr>) ?f2)" by (simp add: evals)
  moreover have "?m\<lparr>mx_workChan := [?f2], mx_inHand := [?f1]\<rparr> \<in> set (worker_take ?m2)" by (simp add: evals)
  moreover have "?m4 \<in> set (worker_take (?m\<lparr>mx_workChan := [?f2], mx_inHand := [?f1]\<rparr>))" by (simp add: evals)
  moreover have "?m5 \<in> set (worker_dispatch ?m4 1 0)" by (simp add: evals)
  moreover have "?m6 \<in> set (worker_dispatch ?m5 0 0)" by (simp add: evals)
  moreover have "mget (mx_channels ?m6) 7 = Some 0" "ch_DataChan (mx_heap ?m6 ! 0) = [[2], [1]]"
    by (simp_all add: evals)
  ultimately show ?thesis by blast
qed

text \<open>C40. \<open>Send\<close> does not split its argument: a block of more than 65535 bytes that fits the window
  is accepted without error, and the write loop then closes the whole multiplexer when it reaches
  the frame.\<close>

theorem mux_oversized_send_closes:
  assumes "mux_inv m" and "\<not> mx_closed m" and "mget (mx_channels m) p = Some a"
    and "ch_sendQueue (mx_heap m ! a) = []" and "MaxFrameSize < length d" and "length d < 2 ^ 31"
    and "window_allows (mx_heap m ! a) (of_nat (length d))"
  shows "\<exists>m'. (None, m') \<in> set (mux_Send m p d) \<and> \<not> mx_closed m' \<and> mx_closed (write_data_frame True sp m' a)"
proof -
  let ?fr = "\<lparr>fo_port = p, fo_data = d, fo_srcFd = -1, fo_n = 0, fo_ctrl = False\<rparr>"
  let ?m1 = "upd_ch m a (ch_reserve (of_nat (length d)))"
  let ?m2 = "upd_ch ?m1 a (\<lambda>c. c\<lparr>ch_sendQueue := ch_sendQueue c @ [?fr]\<rparr>)"
  have a: "a < length (mx_heap m)" using mux_inv_reg [OF assms(1,3)] by simp
  have "(None, ?m2) \<in> set (mux_Send m p d)"
    using assms a by (simp add: mux_Send_def send_windowed_def enqueueFrame_def ch_reserve_def queue_sizes)
  moreover have "\<not> mx_closed ?m2" using assms(2) by simp
  moreover have "mx_closed (write_data_frame True sp ?m2 a)"
    using assms a by (simp add: write_data_frame_def ch_reserve_def mux_Close_def)
  ultimately show ?thesis by blast
qed

theorem mux_oversized_send_closes_witness:
  "\<exists>m m'. (None, m') \<in> set (mux_Send m 80 (replicate 70000 0)) \<and> \<not> mx_closed m' \<and> mx_closed (write_data_frame True [] m' 0)"
proof -
  let ?m = "snd (OpenChannel (New False False) 80 0)"
  have "mux_inv ?m"
    by (simp add: mux_inv_def OpenChannel_def New_def addChannel_def newChannel_def ch_ok_def queue_sizes)
  moreover have "window_allows (mx_heap ?m ! 0) (of_nat (length (replicate 70000 (0 :: byte))))"
    by (simp add: window_allows_def OpenChannel_def New_def addChannel_def newChannel_def windowSize_def)
  ultimately have "\<exists>m'. (None, m') \<in> set (mux_Send ?m 80 (replicate 70000 0)) \<and> \<not> mx_closed m' \<and>
      mx_closed (write_data_frame True [] m' 0)"
    by (intro mux_oversized_send_closes)
      (simp_all add: OpenChannel_def New_def addChannel_def newChannel_def MaxFrameSize_def)
  then show ?thesis by blast
qed

end
