(* ===== verification/Mux_Flow.thy ===== *)
theory Mux_Flow
  imports Mux
begin

text \<open>
  Flow control end to end: the sending channel of one multiplexer, the receiving channel of its
  peer, and the two directions of the connection between them. The steps are the per-channel
  operations of the theory \<open>Mux\<close>: \<open>Send\<close> reserves window and puts a block in flight, a worker
  delivers it, \<open>Read\<close> consumes it and may emit a window update, \<open>handleWindowUpdate\<close> credits it.
  The blocks in flight stand for the send queue, the wire and the work queue of the peer; data
  blocks and window updates each travel in order.
\<close>

record link =
  lk_s :: Channel
  lk_r :: Channel
  lk_data :: "byte list list"
  lk_wu :: "32 word list"

definition link_init :: "16 word \<Rightarrow> int \<Rightarrow> int \<Rightarrow> link" where
  "link_init port t t' = \<lparr>lk_s = newChannel port t, lk_r = newChannel port t', lk_data = [], lk_wu = []\<rparr>"

definition link_send :: "link \<Rightarrow> byte list \<Rightarrow> link" where
  "link_send l d = l\<lparr>lk_s := ch_reserve (of_nat (length d)) (lk_s l), lk_data := lk_data l @ [d]\<rparr>"

definition link_deliver :: "link \<Rightarrow> link" where
  "link_deliver l = l\<lparr>lk_r := ch_deliver (hd (lk_data l)) (lk_r l), lk_data := tl (lk_data l)\<rparr>"

definition link_credit :: "link \<Rightarrow> link" where
  "link_credit l = l\<lparr>lk_s := ch_credit (hd (lk_wu l)) (lk_s l), lk_wu := tl (lk_wu l)\<rparr>"

text \<open>\<open>Read\<close> with a buffer of \<open>plen\<close> bytes on a channel that holds a message.\<close>

definition link_read :: "link \<Rightarrow> nat \<Rightarrow> int \<Rightarrow> link" where
  "link_read l plen now =
     (let c = lk_r l; d = hd (ch_DataChan c); c1 = c\<lparr>ch_DataChan := tl (ch_DataChan c)\<rparr> in
      if ch_reader c \<noteq> [] then l\<lparr>lk_r := c\<lparr>ch_reader := drop plen (ch_reader c)\<rparr>\<rparr>
      else if plen < length d then l\<lparr>lk_r := c1\<lparr>ch_reader := drop plen d\<rparr>\<rparr>
      else let (w, c2) = ch_consume (of_nat (length d)) now c1 in
        l\<lparr>lk_r := c2, lk_wu := lk_wu l @ (case w of None \<Rightarrow> [] | Some p \<Rightarrow> [p])\<rparr>)"

text \<open>The second argument counts the bytes of the messages that were not read in one call.\<close>

inductive link_run :: "link \<Rightarrow> nat \<Rightarrow> bool" where
  start: "link_run (link_init port t t') 0"
| send: "link_run l k \<Longrightarrow> length d < 2 ^ 31 \<Longrightarrow> window_allows (lk_s l) (of_nat (length d)) \<Longrightarrow>
    link_run (link_send l d) k"
| deliver: "link_run l k \<Longrightarrow> lk_data l \<noteq> [] \<Longrightarrow> length (ch_DataChan (lk_r l)) < dataQueueSize \<Longrightarrow>
    link_run (link_deliver l) k"
| credit: "link_run l k \<Longrightarrow> lk_wu l \<noteq> [] \<Longrightarrow> link_run (link_credit l) k"
| read_rest: "link_run l k \<Longrightarrow> ch_reader (lk_r l) \<noteq> [] \<Longrightarrow> link_run (link_read l plen now) k"
| read_whole: "link_run l k \<Longrightarrow> ch_reader (lk_r l) = [] \<Longrightarrow> ch_DataChan (lk_r l) = d # ds \<Longrightarrow>
    length d \<le> plen \<Longrightarrow> link_run (link_read l plen now) k"
| read_part: "link_run l k \<Longrightarrow> ch_reader (lk_r l) = [] \<Longrightarrow> ch_DataChan (lk_r l) = d # ds \<Longrightarrow>
    plen < length d \<Longrightarrow> link_run (link_read l plen now) (k + length d)"

definition total_len :: "byte list list \<Rightarrow> nat" where
  "total_len ds = sum_list (map length ds)"

definition credit_sum :: "link \<Rightarrow> int" where
  "credit_sum l = sint (ch_sendWindow (lk_s l)) + int (total_len (lk_data l)) +
     int (total_len (ch_DataChan (lk_r l))) + sint (ch_pendingConsumed (lk_r l)) + sum_list (map sint (lk_wu l))"

definition link_inv :: "link \<Rightarrow> nat \<Rightarrow> bool" where
  "link_inv l k \<longleftrightarrow> credit_sum l + int k = int windowSize \<and> 0 \<le> sint (ch_sendWindow (lk_s l)) \<and>
     0 \<le> sint (ch_pendingConsumed (lk_r l)) \<and> sint (ch_pendingConsumed (lk_r l)) < windowThreshold \<and>
     (\<forall>w \<in> set (lk_wu l). 0 \<le> sint w)"

section \<open>Signed 32-bit arithmetic without overflow\<close>

lemma sint_small: "0 \<le> i \<Longrightarrow> i < 2 ^ 31 \<Longrightarrow> sint (of_int i :: 32 word) = i"
  by (simp add: signed_take_bit_int_eq_self sint_sbintrunc')

lemma sint_of_nat_small [simp]: "n < 2 ^ 31 \<Longrightarrow> sint (of_nat n :: 32 word) = int n"
  using sint_small [of "int n"] by simp

lemma sint_add_small:
  "0 \<le> sint a + sint b \<Longrightarrow> sint a + sint b < 2 ^ 31 \<Longrightarrow> sint (a + b :: 32 word) = sint a + sint b"
  by (simp add: sint_word_add signed_take_bit_int_eq_self)

lemma sint_sub_small:
  "0 \<le> sint a - sint b \<Longrightarrow> sint a - sint b < 2 ^ 31 \<Longrightarrow> sint (a - b :: 32 word) = sint a - sint b"
  by (simp add: sint_word_diff signed_take_bit_int_eq_self)

section \<open>Conservation of credit\<close>

lemma total_len_simps [simp]:
  "total_len [] = 0" "total_len (d # ds) = length d + total_len ds" "total_len (xs @ ys) = total_len xs + total_len ys"
  by (simp_all add: total_len_def)

lemma newChannel_window: "sint (ch_sendWindow (newChannel port t)) = int windowSize"
  by (simp add: newChannel_def windowSize_def)

lemma sum_sint_nonneg: "(\<forall>w \<in> set ws. 0 \<le> sint w) \<Longrightarrow> 0 \<le> sum_list (map sint (ws :: 32 word list))"
  by (rule sum_list_nonneg) auto

lemma link_inv_bounds:
  assumes "link_inv l k"
  shows "int (total_len (lk_data l)) + int (total_len (ch_DataChan (lk_r l))) + sint (ch_sendWindow (lk_s l)) +
    sint (ch_pendingConsumed (lk_r l)) + sum_list (map sint (lk_wu l)) + int k = 2 ^ 20"
    and "0 \<le> sum_list (map sint (lk_wu l))"
  using assms sum_sint_nonneg [of "lk_wu l"] by (simp_all add: link_inv_def credit_sum_def windowSize_def)

lemma link_inv_init: "link_inv (link_init port t t') 0"
  by (simp add: link_inv_def link_init_def credit_sum_def newChannel_window)
    (simp add: newChannel_def windowThreshold_def)

lemma link_inv_send:
  assumes "link_inv l k" "length d < 2 ^ 31" "window_allows (lk_s l) (of_nat (length d))"
  shows "link_inv (link_send l d) k"
proof -
  have n: "int (length d) \<le> sint (ch_sendWindow (lk_s l))"
    using assms(2,3) by (simp add: window_allows_def)
  have "sint (ch_sendWindow (lk_s l)) < 2 ^ 31"
    using link_inv_bounds [OF assms(1)] assms(1) by (simp add: link_inv_def)
  then have "sint (ch_sendWindow (lk_s l) - of_nat (length d)) = sint (ch_sendWindow (lk_s l)) - int (length d)"
    using n assms(2) by (subst sint_sub_small) simp_all
  then show ?thesis
    using assms(1) n by (simp add: link_inv_def link_send_def ch_reserve_def credit_sum_def)
qed

lemma link_inv_deliver: "link_inv l k \<Longrightarrow> lk_data l \<noteq> [] \<Longrightarrow> link_inv (link_deliver l) k"
  by (cases "lk_data l") (simp_all add: link_inv_def link_deliver_def ch_deliver_def credit_sum_def)

lemma link_inv_credit:
  assumes "link_inv l k" "lk_wu l \<noteq> []"
  shows "link_inv (link_credit l) k"
proof -
  obtain w ws where w: "lk_wu l = w # ws" using assms(2) by (cases "lk_wu l") auto
  then have "0 \<le> sint w" "0 \<le> sum_list (map sint ws)"
    using assms(1) by (simp_all add: link_inv_def sum_sint_nonneg)
  moreover have "sint (ch_sendWindow (lk_s l) + w) = sint (ch_sendWindow (lk_s l)) + sint w"
    using link_inv_bounds [OF assms(1)] assms(1) calculation w
    by (intro sint_add_small) (simp_all add: link_inv_def)
  ultimately show ?thesis
    using assms(1) w by (simp add: link_inv_def link_credit_def ch_credit_def credit_sum_def)
qed

lemma link_inv_read_rest: "link_inv l k \<Longrightarrow> ch_reader (lk_r l) \<noteq> [] \<Longrightarrow> link_inv (link_read l plen now) k"
  by (simp add: link_inv_def link_read_def credit_sum_def Let_def)

lemma link_inv_read_part:
  "link_inv l k \<Longrightarrow> ch_reader (lk_r l) = [] \<Longrightarrow> ch_DataChan (lk_r l) = d # ds \<Longrightarrow> plen < length d \<Longrightarrow>
    link_inv (link_read l plen now) (k + length d)"
  by (simp add: link_inv_def link_read_def credit_sum_def Let_def)

lemma link_inv_read_whole:
  assumes "link_inv l k" "ch_reader (lk_r l) = []" "ch_DataChan (lk_r l) = d # ds" "length d \<le> plen"
  shows "link_inv (link_read l plen now) k"
proof -
  have small: "int (length d) < 2 ^ 31"
    and sum: "0 \<le> sint (ch_pendingConsumed (lk_r l)) + int (length d)"
      "sint (ch_pendingConsumed (lk_r l)) + int (length d) < 2 ^ 31"
    using link_inv_bounds [OF assms(1)] assms(1,3) by (simp_all add: link_inv_def)
  then have "sint (ch_pendingConsumed (lk_r l) + of_nat (length d))
      = sint (ch_pendingConsumed (lk_r l)) + int (length d)"
    by (subst sint_add_small) simp_all
  then show ?thesis
    using assms sum
    by (auto simp: link_inv_def link_read_def credit_sum_def ch_consume_def wu_due_def windowThreshold_def Let_def)
qed

lemma link_run_inv: "link_run l k \<Longrightarrow> link_inv l k"
  by (induction rule: link_run.induct)
    (auto intro: link_inv_init link_inv_send link_inv_deliver link_inv_credit link_inv_read_rest
      link_inv_read_whole link_inv_read_part)

section \<open>The multiplexer implements the link\<close>

definition wu_frames :: "16 word \<Rightarrow> 32 word list \<Rightarrow> frameIn list" where
  "wu_frames port ws = map (\<lambda>w. \<lparr>fi_port = port, fi_ptype = PktWindowUpdate, fi_data = be32 w\<rparr>) ws"

lemma Channel_Read_link:
  assumes "mux_inv m" "\<not> mx_closed m" "mget (mx_channels m) p = Some a" "lk_r l = mx_heap m ! a"
    and "ch_reader (mx_heap m ! a) \<noteq> [] \<or> ch_DataChan (mx_heap m ! a) \<noteq> []"
    and "(r, m') \<in> set (Channel_Read True m a plen now)"
  shows "\<exists>ws. lk_wu (link_read l plen now) = lk_wu l @ ws \<and> mx_wire m' = mx_wire m @ wu_frames p ws \<and>
    mx_heap m' ! a = lk_r (link_read l plen now) \<and> lk_s (link_read l plen now) = lk_s l"
proof (cases "ch_reader (mx_heap m ! a) = []")
  case False
  then show ?thesis
    using assms mux_inv_reg [OF assms(1,3)]
    by (auto simp: Channel_Read_def link_read_def wu_frames_def Let_def intro!: exI [of _ "[]"])
next
  case True
  then obtain d ds where D: "ch_DataChan (mx_heap m ! a) = d # ds"
    using assms(5) by (cases "ch_DataChan (mx_heap m ! a)") auto
  have a: "a < length (mx_heap m)" "ch_Port (mx_heap m ! a) = p" "\<not> ch_Closed (mx_heap m ! a)"
    using mux_inv_reg [OF assms(1,3)] by auto
  have RB: "ReceiveBlocking (mx_heap m ! a) = [(Some d, (mx_heap m ! a)\<lparr>ch_DataChan := ds\<rparr>)]"
    using D a(3) by (simp add: ReceiveBlocking_def select_def)
  obtain w c where wc: "ch_consume (of_nat (length d)) now ((mx_heap m ! a)\<lparr>ch_DataChan := ds\<rparr>) = (w, c)"
    by fastforce
  show ?thesis
  proof (cases "plen < length d")
    case True
    then show ?thesis
      using assms(4,6) \<open>ch_reader (mx_heap m ! a) = []\<close> D RB a
      by (auto simp: Channel_Read_def link_read_def wu_frames_def Let_def intro!: exI [of _ "[]"])
  next
    case False
    then show ?thesis
      using assms(2-4,6) \<open>ch_reader (mx_heap m ! a) = []\<close> D RB a wc
      by (auto simp: Channel_Read_def link_read_def SendWindowUpdate_def wu_frames_def wire_put_def Let_def
          split: option.splits intro: exI [of _ "[]"])
  qed
qed

section \<open>Properties\<close>







text \<open>A message that is larger than the reader's buffer is never credited back: its bytes are
  lost to the window for good. Once such messages add up to more than the window less the size of a
  block, that block can never be sent again, whatever happens afterwards on the link.\<close>

theorem mux_partial_reads_leak_window:
  assumes "link_run l k" and "length d < 2 ^ 31" and "windowSize < k + length d"
  shows "\<not> window_allows (lk_s l) (of_nat (length d))"
proof -
  have "sint (ch_sendWindow (lk_s l)) + int k \<le> int windowSize"
    using link_run_inv [OF assms(1)] sum_sint_nonneg [of "lk_wu l"]
    by (simp add: link_inv_def credit_sum_def)
  then show ?thesis using assms(2,3) by (simp add: window_allows_def)
qed

theorem mux_partial_reads_leak_window_witness:
  "\<exists>l. link_run l 1000000 \<and> \<not> window_allows (lk_s l) (of_nat (length (replicate 50000 (0 :: byte))))"
proof -
  let ?d = "replicate 1000000 (0 :: byte)"
  let ?l1 = "link_send (link_init 7 0 0) ?d"
  let ?l = "link_read (link_deliver ?l1) 32768 0"
  have "link_run ?l1 0"
    by (rule link_run.send [OF link_run.start])
      (simp_all add: window_allows_def link_init_def newChannel_def windowSize_def)
  then have "link_run (link_deliver ?l1) 0"
    by (rule link_run.deliver) (simp_all add: link_send_def link_init_def newChannel_def queue_sizes)
  then have "link_run ?l (0 + length ?d)"
    by (rule link_run.read_part [where ds = "[]"])
      (simp_all add: link_deliver_def link_send_def link_init_def newChannel_def ch_deliver_def)
  then have run: "link_run ?l 1000000" by simp
  have "\<not> window_allows (lk_s ?l) (of_nat (length (replicate 50000 (0 :: byte))))"
    by (rule mux_partial_reads_leak_window [OF run]) (simp_all add: windowSize_def)
  with run show ?thesis by blast
qed

end
