(* ===== verification/Auth_Manager.thy ===== *)
theory Auth_Manager
  imports BB_Prelude
begin

text \<open>
  \<open>BBgrid_Server/auth/auth.go\<close>: the certificate authority, the client registry, the vouchers and
  the namespaces of the server. Each exported method holds \<open>m.mu\<close> for its whole body, so each is
  one function on the state.

  \<^item> The data directory is part of the state. \<open>registry.json\<close> and \<open>vouchers.json\<close> hold a map, text
    that is no JSON, or do not exist; a typed round trip through \<open>encoding/json\<close> gives the same map.
    \<open>os.WriteFile\<close> truncates before it writes, so a failing save may leave either the old file or
    an unreadable one: \<open>save_outcome\<close>.
  \<^item> X.509, PEM and the elliptic curve are the functions of a record \<open>crypto\<close>; certificates and
    keys are their DER bytes.
  \<^item> The clock (in seconds) and random text are arguments.
\<close>

section \<open>State\<close>

record ClientRecord =
  cl_ClientID :: string
  cl_PublicKey :: string
  cl_Certificate :: string
  cl_Status :: string
  cl_Namespace :: string
  cl_Role :: string
  cl_CreatedAt :: int
  cl_ApprovedAt :: int

record NamespaceInfo =
  ns_Name :: string
  ns_Description :: string
  ns_Type :: string
  ns_Clients :: "string list"
  ns_CreatedAt :: int

record Voucher =
  vc_Code :: string
  vc_MaxUses :: int
  vc_UsedCount :: int
  vc_ExpiresAt :: int
  vc_Namespace :: string
  vc_Role :: string
  vc_CreatedAt :: int

datatype 'a json_file = Absent | Garbage | Holds 'a

type_synonym der = "byte list"

record data_dir =
  dd_caCrt :: "string option"
  dd_caKey :: "string option"
  dd_jwt :: "string option"
  dd_registry :: "(string, ClientRecord) gomap json_file"
  dd_vouchers :: "(string, Voucher) gomap json_file"

record auth_Config =
  cfg_APIKey :: string
  cfg_ClientToken :: string

record Manager =
  am_config :: auth_Config
  am_caCert :: "der option"
  am_caKey :: "der option"
  am_jwtSecret :: string
  am_clients :: "(string, ClientRecord) gomap"
  am_namespaces :: "(string, NamespaceInfo) gomap"
  am_vouchers :: "(string, Voucher) gomap"
  am_dir :: data_dir

definition NewManager :: "auth_Config \<Rightarrow> data_dir \<Rightarrow> Manager" where
  "NewManager config dir = \<lparr>am_config = config, am_caCert = None, am_caKey = None, am_jwtSecret = '''',
     am_clients = [], am_namespaces = [], am_vouchers = [], am_dir = dir\<rparr>"

section \<open>Certificates\<close>

record CertTemplate =
  ct_SerialNumber :: int
  ct_CommonName :: string
  ct_Organization :: "string list"
  ct_NotBefore :: int
  ct_NotAfter :: int
  ct_KeyUsage :: "string list"
  ct_ExtKeyUsage :: "string list"
  ct_IsCA :: bool
  ct_MaxPathLen :: int

text \<open>The parent of a certificate is a template (self-signed) or a parsed certificate.\<close>

record crypto =
  cr_pemDecode :: "string \<Rightarrow> der option"
  cr_pemEncode :: "string \<Rightarrow> der \<Rightarrow> string"
  cr_parseCert :: "der \<Rightarrow> string option"
  cr_parseECKey :: "der \<Rightarrow> string option"
  cr_parsePub :: "der \<Rightarrow> string option"
  cr_marshalECKey :: "der \<Rightarrow> string + der"
  cr_publicKey :: "der \<Rightarrow> der"
  cr_createCert :: "CertTemplate \<Rightarrow> CertTemplate + der \<Rightarrow> der \<Rightarrow> der \<Rightarrow> string + der"

text \<open>What one start meets: the new key, the random secret, and the errors of the file writes.\<close>

record init_env =
  ie_now :: int
  ie_certReadErr :: "string option"
  ie_keyReadErr :: "string option"
  ie_newKey :: "string + der"
  ie_secret :: "string + string"
  ie_crtErr :: "string option"
  ie_keyErr :: "string option"
  ie_jwtErr :: "string option"

definition seconds :: "int \<Rightarrow> int" where
  "seconds s = wrap64 (s * 1000000000) div 1000000000"

definition ca_template :: "int \<Rightarrow> CertTemplate" where
  "ca_template now = \<lparr>ct_SerialNumber = 1, ct_CommonName = ''Aether CA'', ct_Organization = [''Aether''],
     ct_NotBefore = now, ct_NotAfter = now + seconds (365 * 24 * 3600 * 10),
     ct_KeyUsage = [''CertSign'', ''CRLSign''], ct_ExtKeyUsage = [], ct_IsCA = True, ct_MaxPathLen = 1\<rparr>"

definition client_template :: "int \<Rightarrow> int \<Rightarrow> string \<Rightarrow> int \<Rightarrow> CertTemplate" where
  "client_template serial now clientID validityDays =
     \<lparr>ct_SerialNumber = serial, ct_CommonName = clientID, ct_Organization = [''Aether''],
      ct_NotBefore = now, ct_NotAfter = now + seconds (validityDays * 24 * 3600),
      ct_KeyUsage = [''DigitalSignature'', ''KeyEncipherment''], ct_ExtKeyUsage = [''ClientAuth''],
      ct_IsCA = False, ct_MaxPathLen = 0\<rparr>"

definition loadCA :: "crypto \<Rightarrow> init_env \<Rightarrow> string \<Rightarrow> string \<Rightarrow> Manager \<Rightarrow> string option \<times> Manager" where
  "loadCA cr v certPEM keyPEM m =
     (case ie_certReadErr v of Some e \<Rightarrow> (Some e, m) | None \<Rightarrow>
      (case cr_pemDecode cr certPEM of None \<Rightarrow> (Some ''invalid CA cert PEM'', m) | Some cert \<Rightarrow>
       (case cr_parseCert cr cert of Some e \<Rightarrow> (Some e, m) | None \<Rightarrow>
        (case ie_keyReadErr v of Some e \<Rightarrow> (Some e, m) | None \<Rightarrow>
         (case cr_pemDecode cr keyPEM of None \<Rightarrow> (Some ''invalid CA key PEM'', m) | Some key \<Rightarrow>
          (case cr_parseECKey cr key of Some e \<Rightarrow> (Some e, m) | None \<Rightarrow>
             (None, m\<lparr>am_caCert := Some cert, am_caKey := Some key\<rparr>)))))))"

definition generateCA :: "crypto \<Rightarrow> init_env \<Rightarrow> Manager \<Rightarrow> string option \<times> Manager" where
  "generateCA cr v m =
     (case ie_newKey v of
        Inl e \<Rightarrow> (Some e, m)
      | Inr key \<Rightarrow>
          (case cr_createCert cr (ca_template (ie_now v)) (Inl (ca_template (ie_now v))) (cr_publicKey cr key) key of
             Inl e \<Rightarrow> (Some e, m)
           | Inr certDER \<Rightarrow>
               (case cr_parseCert cr certDER of
                  Some e \<Rightarrow> (Some e, m)
                | None \<Rightarrow>
                    (case ie_crtErr v of
                       Some e \<Rightarrow> (Some (''save CA cert: '' @ e), m)
                     | None \<Rightarrow>
                         let m1 = m\<lparr>am_dir := (am_dir m)\<lparr>dd_caCrt := Some (cr_pemEncode cr ''CERTIFICATE'' certDER)\<rparr>\<rparr> in
                         (case cr_marshalECKey cr key of
                            Inl e \<Rightarrow> (Some e, m1)
                          | Inr keyDER \<Rightarrow>
                              (case ie_keyErr v of
                                 Some e \<Rightarrow> (Some (''save CA key: '' @ e), m1)
                               | None \<Rightarrow>
                                   (None, m1\<lparr>am_dir := (am_dir m1)\<lparr>dd_caKey := Some (cr_pemEncode cr ''EC PRIVATE KEY'' keyDER)\<rparr>,
                                             am_caCert := Some certDER, am_caKey := Some key\<rparr>))))))) "

definition initCA :: "crypto \<Rightarrow> init_env \<Rightarrow> Manager \<Rightarrow> string option \<times> Manager" where
  "initCA cr v m =
     (case (dd_caCrt (am_dir m), dd_caKey (am_dir m)) of
        (Some certPEM, Some keyPEM) \<Rightarrow> loadCA cr v certPEM keyPEM m
      | _ \<Rightarrow> generateCA cr v m)"

text \<open>
  \<open>SignClientCertificate\<close> and its twin \<open>signClientCertificate\<close> have the same body under the same
  lock. Without a CA the Go code would panic; after a successful \<open>Init\<close> there is one.
\<close>

definition signClientCertificate ::
  "crypto \<Rightarrow> int \<Rightarrow> int \<Rightarrow> Manager \<Rightarrow> string \<Rightarrow> string \<Rightarrow> int \<Rightarrow> string + string" where
  "signClientCertificate cr serial now m clientPublicKeyPEM clientID validityDays =
     (case cr_pemDecode cr clientPublicKeyPEM of
        None \<Rightarrow> Inl ''invalid public key PEM''
      | Some pub \<Rightarrow>
          (case cr_parsePub cr pub of
             Some e \<Rightarrow> Inl e
           | None \<Rightarrow>
               (case (am_caCert m, am_caKey m) of
                  (Some ca, Some key) \<Rightarrow>
                    (case cr_createCert cr (client_template serial now clientID validityDays) (Inr ca) pub key of
                       Inl e \<Rightarrow> Inl e
                     | Inr certDER \<Rightarrow> Inr (cr_pemEncode cr ''CERTIFICATE'' certDER))
                | _ \<Rightarrow> Inl ''no CA'')))"

section \<open>Tokens\<close>

definition initJWT :: "init_env \<Rightarrow> Manager \<Rightarrow> string option \<times> Manager" where
  "initJWT v m =
     (case dd_jwt (am_dir m) of
        Some data \<Rightarrow> (None, m\<lparr>am_jwtSecret := data\<rparr>)
      | None \<Rightarrow>
          (case ie_secret v of
             Inl e \<Rightarrow> (Some (''generate JWT secret: '' @ e), m)
           | Inr secret \<Rightarrow>
               (case ie_jwtErr v of
                  Some e \<Rightarrow> (Some (''save JWT secret: '' @ e), m)
                | None \<Rightarrow> (None, m\<lparr>am_jwtSecret := secret, am_dir := (am_dir m)\<lparr>dd_jwt := Some secret\<rparr>\<rparr>))))"

record JWTClaims =
  jc_APIKey :: string
  jc_ExpiresAt :: int
  jc_IssuedAt :: int

text \<open>\<open>sign\<close> and \<open>parse\<close> are the JWT library with HS256: \<open>parse\<close> gives the claims and whether the token is valid.\<close>

definition GenerateToken :: "(string \<Rightarrow> JWTClaims \<Rightarrow> string + string) \<Rightarrow> int \<Rightarrow> Manager \<Rightarrow> string \<Rightarrow> string + string" where
  "GenerateToken sign now m apiKey =
     sign (am_jwtSecret m) \<lparr>jc_APIKey = apiKey, jc_ExpiresAt = now + 24 * 3600, jc_IssuedAt = now\<rparr>"

definition ValidateToken :: "(string \<Rightarrow> string \<Rightarrow> string + JWTClaims \<times> bool) \<Rightarrow> Manager \<Rightarrow> string \<Rightarrow> string + JWTClaims" where
  "ValidateToken parse m token =
     (case parse (am_jwtSecret m) token of
        Inl e \<Rightarrow> Inl e
      | Inr (claims, valid) \<Rightarrow> if valid then Inr claims else Inl ''invalid token'')"

definition ValidateAPIKey :: "Manager \<Rightarrow> string \<Rightarrow> bool" where
  "ValidateAPIKey m apiKey \<longleftrightarrow> apiKey = cfg_APIKey (am_config m)"

definition ValidateClientToken :: "Manager \<Rightarrow> string \<Rightarrow> bool" where
  "ValidateClientToken m token \<longleftrightarrow> token = cfg_ClientToken (am_config m)"

section \<open>Files\<close>

datatype save_outcome = SaveOK | OpenFails | WriteTorn

definition saved :: "save_outcome \<Rightarrow> 'a \<Rightarrow> 'a json_file \<Rightarrow> string option \<times> 'a json_file" where
  "saved o' x old = (case o' of SaveOK \<Rightarrow> (None, Holds x) | OpenFails \<Rightarrow> (Some ''open'', old) | WriteTorn \<Rightarrow> (Some ''write'', Garbage))"

definition saveRegistry :: "save_outcome \<Rightarrow> Manager \<Rightarrow> string option \<times> Manager" where
  "saveRegistry o' m =
     (case saved o' (am_clients m) (dd_registry (am_dir m)) of
        (r, f) \<Rightarrow> (r, m\<lparr>am_dir := (am_dir m)\<lparr>dd_registry := f\<rparr>\<rparr>))"

definition saveVouchers :: "save_outcome \<Rightarrow> Manager \<Rightarrow> string option \<times> Manager" where
  "saveVouchers o' m =
     (case saved o' (am_vouchers m) (dd_vouchers (am_dir m)) of
        (r, f) \<Rightarrow> (r, m\<lparr>am_dir := (am_dir m)\<lparr>dd_vouchers := f\<rparr>\<rparr>))"

definition loadRegistry :: "Manager \<Rightarrow> Manager" where
  "loadRegistry m = (case dd_registry (am_dir m) of Holds c \<Rightarrow> m\<lparr>am_clients := c\<rparr> | _ \<Rightarrow> m)"

definition loadVouchers :: "Manager \<Rightarrow> Manager" where
  "loadVouchers m = (case dd_vouchers (am_dir m) of Holds c \<Rightarrow> m\<lparr>am_vouchers := c\<rparr> | _ \<Rightarrow> m)"

definition default_namespaces :: "(string \<times> string) list" where
  "default_namespaces = [(''temporary'', ''system''), (''permanent'', ''system''), (''mediated'', ''system'')]"

text \<open>The descriptions are fixed texts; they are left empty here.\<close>

definition add_default :: "int \<Rightarrow> string \<times> string \<Rightarrow> (string, NamespaceInfo) gomap \<Rightarrow> (string, NamespaceInfo) gomap" where
  "add_default now d nss =
     (case mget nss (fst d) of
        Some _ \<Rightarrow> nss
      | None \<Rightarrow> mput nss (fst d) \<lparr>ns_Name = fst d, ns_Description = '''', ns_Type = snd d, ns_Clients = [], ns_CreatedAt = now\<rparr>)"

definition initDefaultNamespaces :: "int \<Rightarrow> Manager \<Rightarrow> Manager" where
  "initDefaultNamespaces now m = m\<lparr>am_namespaces := fold (add_default now) default_namespaces (am_namespaces m)\<rparr>"

definition Init :: "crypto \<Rightarrow> init_env \<Rightarrow> Manager \<Rightarrow> string option \<times> Manager" where
  "Init cr v m =
     (case initCA cr v m of
        (Some e, m1) \<Rightarrow> (Some (''init CA: '' @ e), m1)
      | (None, m1) \<Rightarrow>
          (case initJWT v m1 of
             (Some e, m2) \<Rightarrow> (Some (''init JWT: '' @ e), m2)
           | (None, m2) \<Rightarrow> (None, initDefaultNamespaces (ie_now v) (loadVouchers (loadRegistry m2)))))"

section \<open>Vouchers\<close>

definition CreateVoucher ::
  "save_outcome \<Rightarrow> int \<Rightarrow> string \<Rightarrow> int \<Rightarrow> int \<Rightarrow> string \<Rightarrow> string \<Rightarrow> Manager \<Rightarrow> (string + Voucher) \<times> Manager" where
  "CreateVoucher o' now randomHex maxUses expiresAt namespace role m =
     (let code = ''vch_'' @ randomHex;
          v = \<lparr>vc_Code = code, vc_MaxUses = maxUses, vc_UsedCount = 0, vc_ExpiresAt = expiresAt,
               vc_Namespace = namespace, vc_Role = role, vc_CreatedAt = now\<rparr>;
          m1 = m\<lparr>am_vouchers := mput (am_vouchers m) code v\<rparr> in
      case saveVouchers o' m1 of
        (Some e, m2) \<Rightarrow> (Inl e, m2\<lparr>am_vouchers := mdel (am_vouchers m2) code\<rparr>)
      | (None, m2) \<Rightarrow> (Inr v, m2))"

definition UseVoucher :: "save_outcome \<Rightarrow> int \<Rightarrow> string \<Rightarrow> Manager \<Rightarrow> (string + Voucher) \<times> Manager" where
  "UseVoucher o' now code m =
     (case mget (am_vouchers m) code of
        None \<Rightarrow> (Inl ''no such voucher'', m)
      | Some v \<Rightarrow>
          if 0 < vc_ExpiresAt v \<and> vc_ExpiresAt v < now then (Inl ''voucher expired'', m)
          else if 0 < vc_MaxUses v \<and> vc_MaxUses v \<le> vc_UsedCount v then (Inl ''voucher used up'', m)
          else
            let v1 = v\<lparr>vc_UsedCount := wrap64 (vc_UsedCount v + 1)\<rparr> in
            case saveVouchers o' (m\<lparr>am_vouchers := mput (am_vouchers m) code v1\<rparr>) of
              (Some e, m2) \<Rightarrow> (Inl e, m2\<lparr>am_vouchers := mput (am_vouchers m2) code (v1\<lparr>vc_UsedCount := wrap64 (vc_UsedCount v1 - 1)\<rparr>)\<rparr>)
            | (None, m2) \<Rightarrow> (Inr v1, m2))"

definition ListVouchers :: "Manager \<Rightarrow> Voucher list" where
  "ListVouchers m = map snd (am_vouchers m)"

definition DeleteVoucher :: "save_outcome \<Rightarrow> string \<Rightarrow> Manager \<Rightarrow> bool \<times> Manager" where
  "DeleteVoucher o' code m =
     (case mget (am_vouchers m) code of
        None \<Rightarrow> (False, m)
      | Some _ \<Rightarrow> (True, snd (saveVouchers o' (m\<lparr>am_vouchers := mdel (am_vouchers m) code\<rparr>))))"

section \<open>The registry\<close>

definition AddApplication :: "save_outcome \<Rightarrow> int \<Rightarrow> string \<Rightarrow> string \<Rightarrow> Manager \<Rightarrow> string option \<times> Manager" where
  "AddApplication o' now clientID publicKey m =
     (case mget (am_clients m) clientID of
        Some _ \<Rightarrow> (Some ''client already exists'', m)
      | None \<Rightarrow>
          let c = \<lparr>cl_ClientID = clientID, cl_PublicKey = publicKey, cl_Certificate = '''', cl_Status = ''pending'',
                   cl_Namespace = ''permanent'', cl_Role = ''node'', cl_CreatedAt = now, cl_ApprovedAt = 0\<rparr> in
          case saveRegistry o' (m\<lparr>am_clients := mput (am_clients m) clientID c\<rparr>) of
            (Some e, m2) \<Rightarrow> (Some e, m2\<lparr>am_clients := mdel (am_clients m2) clientID\<rparr>)
          | (None, m2) \<Rightarrow> (None, m2))"

definition UpdatePublicKey :: "save_outcome \<Rightarrow> string \<Rightarrow> string \<Rightarrow> Manager \<Rightarrow> string option \<times> Manager" where
  "UpdatePublicKey o' clientID publicKey m =
     (case mget (am_clients m) clientID of
        None \<Rightarrow> (Some ''client not found'', m)
      | Some c \<Rightarrow>
          saveRegistry o' (m\<lparr>am_clients := mput (am_clients m) clientID
            (c\<lparr>cl_PublicKey := publicKey, cl_Certificate := '''', cl_Status := ''pending''\<rparr>)\<rparr>))"

definition ResetClientStatus :: "save_outcome \<Rightarrow> string \<Rightarrow> Manager \<Rightarrow> Manager" where
  "ResetClientStatus o' clientID m =
     (case mget (am_clients m) clientID of
        None \<Rightarrow> m
      | Some c \<Rightarrow>
          snd (saveRegistry o' (m\<lparr>am_clients := mput (am_clients m) clientID (c\<lparr>cl_Status := ''pending'', cl_Certificate := ''''\<rparr>)\<rparr>)))"

definition add_member :: "string \<Rightarrow> string \<Rightarrow> (string, NamespaceInfo) gomap \<Rightarrow> (string, NamespaceInfo) gomap" where
  "add_member namespace clientID nss =
     (case mget nss namespace of
        None \<Rightarrow> nss
      | Some ns \<Rightarrow> mput nss namespace (ns\<lparr>ns_Clients := ns_Clients ns @ [clientID]\<rparr>))"

text \<open>The loop removes the first occurrence and stops.\<close>

definition remove_member :: "string \<Rightarrow> string \<Rightarrow> (string, NamespaceInfo) gomap \<Rightarrow> (string, NamespaceInfo) gomap" where
  "remove_member namespace clientID nss =
     (case mget nss namespace of
        None \<Rightarrow> nss
      | Some ns \<Rightarrow> mput nss namespace (ns\<lparr>ns_Clients := remove1 clientID (ns_Clients ns)\<rparr>))"

definition Approve ::
  "crypto \<Rightarrow> save_outcome \<Rightarrow> int \<Rightarrow> int \<Rightarrow> string \<Rightarrow> string \<Rightarrow> string \<Rightarrow> Manager \<Rightarrow> (string + string) \<times> Manager" where
  "Approve cr o' serial now clientID namespace role m =
     (case mget (am_clients m) clientID of
        None \<Rightarrow> (Inl ''client not found'', m)
      | Some c \<Rightarrow>
          if cl_Status c \<noteq> ''pending'' then (Inl (''client already '' @ cl_Status c), m)
          else case signClientCertificate cr serial now m (cl_PublicKey c) clientID 365 of
              Inl e \<Rightarrow> (Inl e, m)
            | Inr certPEM \<Rightarrow>
                let c1 = c\<lparr>cl_Status := ''approved'', cl_Certificate := certPEM, cl_Namespace := namespace,
                           cl_Role := role, cl_ApprovedAt := now\<rparr>;
                    m1 = m\<lparr>am_clients := mput (am_clients m) clientID c1,
                           am_namespaces := add_member namespace clientID (am_namespaces m)\<rparr> in
                case saveRegistry o' m1 of
                  (Some e, m2) \<Rightarrow> (Inl e, m2)
                | (None, m2) \<Rightarrow> (Inr certPEM, m2))"

definition auth_Delete :: "save_outcome \<Rightarrow> string \<Rightarrow> Manager \<Rightarrow> bool \<times> Manager" where
  "auth_Delete o' clientID m =
     (case mget (am_clients m) clientID of
        None \<Rightarrow> (False, m)
      | Some c \<Rightarrow>
          (True, snd (saveRegistry o' (m\<lparr>am_namespaces := remove_member (cl_Namespace c) clientID (am_namespaces m),
             am_clients := mdel (am_clients m) clientID\<rparr>))))"

definition GetByClientID :: "Manager \<Rightarrow> string \<Rightarrow> ClientRecord option" where
  "GetByClientID m clientID = mget (am_clients m) clientID"

definition GetPending :: "Manager \<Rightarrow> ClientRecord list" where
  "GetPending m = filter (\<lambda>c. cl_Status c = ''pending'') (map snd (am_clients m))"

definition GetApproved :: "Manager \<Rightarrow> ClientRecord list" where
  "GetApproved m = filter (\<lambda>c. cl_Status c = ''approved'') (map snd (am_clients m))"

section \<open>Namespaces\<close>

definition GetNamespace :: "Manager \<Rightarrow> string \<Rightarrow> NamespaceInfo option" where
  "GetNamespace m name = mget (am_namespaces m) name"

definition ListNamespaces :: "Manager \<Rightarrow> NamespaceInfo list" where
  "ListNamespaces m = map snd (am_namespaces m)"

definition GetClientsByNamespace :: "Manager \<Rightarrow> string \<Rightarrow> ClientRecord list" where
  "GetClientsByNamespace m namespace =
     (case mget (am_namespaces m) namespace of
        None \<Rightarrow> []
      | Some ns \<Rightarrow> List.map_filter (\<lambda>clientID. mget (am_clients m) clientID) (ns_Clients ns))"

definition SetClientNamespace :: "save_outcome \<Rightarrow> string \<Rightarrow> string \<Rightarrow> string \<Rightarrow> Manager \<Rightarrow> string option \<times> Manager" where
  "SetClientNamespace o' clientID namespace role m =
     (case mget (am_clients m) clientID of
        None \<Rightarrow> (Some ''client not found'', m)
      | Some c \<Rightarrow>
          (case mget (am_namespaces m) namespace of
             None \<Rightarrow> (Some (''namespace '' @ namespace @ '' does not exist''), m)
           | Some _ \<Rightarrow>
               saveRegistry o' (m\<lparr>am_namespaces := add_member namespace clientID (remove_member (cl_Namespace c) clientID (am_namespaces m)),
                 am_clients := mput (am_clients m) clientID (c\<lparr>cl_Namespace := namespace, cl_Role := role\<rparr>)\<rparr>)))"

section \<open>Runs\<close>

datatype auth_op =
    OpCreateVoucher save_outcome int string int int string string
  | OpUseVoucher save_outcome int string
  | OpDeleteVoucher save_outcome string
  | OpAddApplication save_outcome int string string
  | OpUpdatePublicKey save_outcome string string
  | OpResetClientStatus save_outcome string
  | OpApprove save_outcome int int string string string
  | OpDelete save_outcome string
  | OpSetClientNamespace save_outcome string string string

primrec auth_step :: "crypto \<Rightarrow> Manager \<Rightarrow> auth_op \<Rightarrow> Manager" where
  "auth_step cr m (OpCreateVoucher s now r mx ex ns role) = snd (CreateVoucher s now r mx ex ns role m)"
| "auth_step cr m (OpUseVoucher s now code) = snd (UseVoucher s now code m)"
| "auth_step cr m (OpDeleteVoucher s code) = snd (DeleteVoucher s code m)"
| "auth_step cr m (OpAddApplication s now c pk) = snd (AddApplication s now c pk m)"
| "auth_step cr m (OpUpdatePublicKey s c pk) = snd (UpdatePublicKey s c pk m)"
| "auth_step cr m (OpResetClientStatus s c) = ResetClientStatus s c m"
| "auth_step cr m (OpApprove s serial now c ns role) = snd (Approve cr s serial now c ns role m)"
| "auth_step cr m (OpDelete s c) = snd (auth_Delete s c m)"
| "auth_step cr m (OpSetClientNamespace s c ns role) = snd (SetClientNamespace s c ns role m)"

primrec op_save :: "auth_op \<Rightarrow> save_outcome" where
  "op_save (OpCreateVoucher s now r mx ex ns role) = s"
| "op_save (OpUseVoucher s now code) = s"
| "op_save (OpDeleteVoucher s code) = s"
| "op_save (OpAddApplication s now c pk) = s"
| "op_save (OpUpdatePublicKey s c pk) = s"
| "op_save (OpResetClientStatus s c) = s"
| "op_save (OpApprove s serial now c ns role) = s"
| "op_save (OpDelete s c) = s"
| "op_save (OpSetClientNamespace s c ns role) = s"

lemmas auth_op_defs = CreateVoucher_def UseVoucher_def DeleteVoucher_def AddApplication_def UpdatePublicKey_def
  ResetClientStatus_def Approve_def auth_Delete_def SetClientNamespace_def saveRegistry_def saveVouchers_def Let_def

section \<open>Invariant\<close>

declare map_of_eq_Some_iff [simp del]

text \<open>A certificate the CA issued for this key and this client.\<close>

definition issued :: "crypto \<Rightarrow> der option \<Rightarrow> der option \<Rightarrow> string \<Rightarrow> string \<Rightarrow> string \<Rightarrow> bool" where
  "issued cr ca key pk clientID cert \<longleftrightarrow>
     (\<exists>serial now c k pub certDER. ca = Some c \<and> key = Some k \<and> cr_pemDecode cr pk = Some pub \<and> cr_parsePub cr pub = None \<and>
        cr_createCert cr (client_template serial now clientID 365) (Inr c) pub k = Inr certDER \<and>
        cert = cr_pemEncode cr ''CERTIFICATE'' certDER)"

definition client_ok :: "crypto \<Rightarrow> der option \<Rightarrow> der option \<Rightarrow> string \<Rightarrow> ClientRecord \<Rightarrow> bool" where
  "client_ok cr ca key i c \<longleftrightarrow> cl_ClientID c = i \<and>
     (cl_Status c = ''pending'' \<and> cl_Certificate c = '''' \<or>
      cl_Status c = ''approved'' \<and> issued cr ca key (cl_PublicKey c) i (cl_Certificate c))"

definition registry_ok :: "crypto \<Rightarrow> der option \<Rightarrow> der option \<Rightarrow> (string, ClientRecord) gomap \<Rightarrow> bool" where
  "registry_ok cr ca key cs \<longleftrightarrow> wf_map cs \<and> (\<forall>i c. mget cs i = Some c \<longrightarrow> client_ok cr ca key i c)"

definition voucher_ok :: "string \<Rightarrow> Voucher \<Rightarrow> bool" where
  "voucher_ok code v \<longleftrightarrow> vc_Code v = code \<and> vc_MaxUses v < 2 ^ 63 \<and> (0 < vc_MaxUses v \<longrightarrow> 0 \<le> vc_UsedCount v \<and> vc_UsedCount v \<le> vc_MaxUses v)"

definition vouchers_ok :: "(string, Voucher) gomap \<Rightarrow> bool" where
  "vouchers_ok vs \<longleftrightarrow> wf_map vs \<and> (\<forall>code v. mget vs code = Some v \<longrightarrow> voucher_ok code v)"

definition dir_ok :: "crypto \<Rightarrow> der option \<Rightarrow> der option \<Rightarrow> data_dir \<Rightarrow> bool" where
  "dir_ok cr ca key d \<longleftrightarrow> (\<forall>cs. dd_registry d = Holds cs \<longrightarrow> registry_ok cr ca key cs) \<and> (\<forall>vs. dd_vouchers d = Holds vs \<longrightarrow> vouchers_ok vs)"

definition auth_inv :: "crypto \<Rightarrow> Manager \<Rightarrow> bool" where
  "auth_inv cr m \<longleftrightarrow> registry_ok cr (am_caCert m) (am_caKey m) (am_clients m) \<and> vouchers_ok (am_vouchers m) \<and>
     wf_map (am_namespaces m) \<and> dir_ok cr (am_caCert m) (am_caKey m) (am_dir m)"

text \<open>\<open>MaxUses\<close> is a Go \<open>int\<close>.\<close>

definition op_int64 :: "auth_op \<Rightarrow> bool" where
  "op_int64 x \<longleftrightarrow> (case x of OpCreateVoucher _ _ _ mx _ _ _ \<Rightarrow> mx < 2 ^ 63 | _ \<Rightarrow> True)"

lemma registry_ok_mput: "registry_ok cr ca key cs \<Longrightarrow> client_ok cr ca key i c \<Longrightarrow> registry_ok cr ca key (mput cs i c)"
  by (simp add: registry_ok_def)

lemma registry_ok_mdel: "registry_ok cr ca key cs \<Longrightarrow> registry_ok cr ca key (mdel cs i)"
  by (simp add: registry_ok_def)

lemma vouchers_ok_mput: "vouchers_ok vs \<Longrightarrow> voucher_ok i v \<Longrightarrow> vouchers_ok (mput vs i v)"
  by (simp add: vouchers_ok_def)

lemma vouchers_ok_mdel: "vouchers_ok vs \<Longrightarrow> vouchers_ok (mdel vs i)"
  by (simp add: vouchers_ok_def)

lemma members_wf [simp]: "wf_map nss \<Longrightarrow> wf_map (add_member ns c nss)" "wf_map nss \<Longrightarrow> wf_map (remove_member ns c nss)"
  by (simp_all add: add_member_def remove_member_def split: option.split)

lemma saveRegistry_parts:
  "am_clients (snd (saveRegistry s m)) = am_clients m" "am_vouchers (snd (saveRegistry s m)) = am_vouchers m"
  "am_namespaces (snd (saveRegistry s m)) = am_namespaces m" "am_caCert (snd (saveRegistry s m)) = am_caCert m"
  "am_caKey (snd (saveRegistry s m)) = am_caKey m" "am_config (snd (saveRegistry s m)) = am_config m"
  "am_jwtSecret (snd (saveRegistry s m)) = am_jwtSecret m"
  by (simp_all add: saveRegistry_def split: prod.split)

lemma saveVouchers_parts:
  "am_clients (snd (saveVouchers s m)) = am_clients m" "am_vouchers (snd (saveVouchers s m)) = am_vouchers m"
  "am_namespaces (snd (saveVouchers s m)) = am_namespaces m" "am_caCert (snd (saveVouchers s m)) = am_caCert m"
  "am_caKey (snd (saveVouchers s m)) = am_caKey m" "am_config (snd (saveVouchers s m)) = am_config m"
  "am_jwtSecret (snd (saveVouchers s m)) = am_jwtSecret m"
  by (simp_all add: saveVouchers_def split: prod.split)

lemmas save_parts [simp] = saveRegistry_parts saveVouchers_parts

lemma auth_inv_saveRegistry: "auth_inv cr m \<Longrightarrow> auth_inv cr (snd (saveRegistry s m))"
  by (simp add: saveRegistry_def saved_def auth_inv_def dir_ok_def split: save_outcome.split prod.split)

lemma auth_inv_saveVouchers: "auth_inv cr m \<Longrightarrow> auth_inv cr (snd (saveVouchers s m))"
  by (simp add: saveVouchers_def saved_def auth_inv_def dir_ok_def split: save_outcome.split prod.split)

lemma auth_inv_put_client:
  "auth_inv cr m \<Longrightarrow> client_ok cr (am_caCert m) (am_caKey m) i c \<Longrightarrow> wf_map nss \<Longrightarrow>
   auth_inv cr (m\<lparr>am_clients := mput (am_clients m) i c, am_namespaces := nss\<rparr>)"
  by (simp add: auth_inv_def registry_ok_mput)

lemma auth_inv_del_client:
  "auth_inv cr m \<Longrightarrow> wf_map nss \<Longrightarrow> auth_inv cr (m\<lparr>am_clients := mdel (am_clients m) i, am_namespaces := nss\<rparr>)"
  by (simp add: auth_inv_def registry_ok_mdel)

lemma auth_inv_put_voucher: "auth_inv cr m \<Longrightarrow> voucher_ok i v \<Longrightarrow> auth_inv cr (m\<lparr>am_vouchers := mput (am_vouchers m) i v\<rparr>)"
  by (simp add: auth_inv_def vouchers_ok_mput)

lemma auth_inv_del_voucher: "auth_inv cr m \<Longrightarrow> auth_inv cr (m\<lparr>am_vouchers := mdel (am_vouchers m) i\<rparr>)"
  by (simp add: auth_inv_def vouchers_ok_mdel)

lemma auth_inv_client: "auth_inv cr m \<Longrightarrow> mget (am_clients m) i = Some c \<Longrightarrow> client_ok cr (am_caCert m) (am_caKey m) i c"
  by (simp add: auth_inv_def registry_ok_def)

lemma auth_inv_voucher: "auth_inv cr m \<Longrightarrow> mget (am_vouchers m) i = Some v \<Longrightarrow> voucher_ok i v"
  by (simp add: auth_inv_def vouchers_ok_def)

lemma auth_inv_namespaces: "auth_inv cr m \<Longrightarrow> wf_map (am_namespaces m)"
  by (simp add: auth_inv_def)

lemma auth_inv_set_client:
  "auth_inv cr m \<Longrightarrow> client_ok cr (am_caCert m) (am_caKey m) i c \<Longrightarrow> auth_inv cr (m\<lparr>am_clients := mput (am_clients m) i c\<rparr>)"
  by (simp add: auth_inv_def registry_ok_mput)

lemma signed_issued:
  "signClientCertificate cr serial now m pk i 365 = Inr cert \<Longrightarrow> issued cr (am_caCert m) (am_caKey m) pk i cert"
  unfolding issued_def by (auto simp: signClientCertificate_def split: option.splits sum.splits)

lemma auth_inv_CreateVoucher:
  assumes "auth_inv cr m" "mx < 2 ^ 63"
  shows "auth_inv cr (snd (CreateVoucher s now r mx ex ns role m))"
proof -
  let ?code = "''vch_'' @ r"
  let ?v = "\<lparr>vc_Code = ?code, vc_MaxUses = mx, vc_UsedCount = 0, vc_ExpiresAt = ex, vc_Namespace = ns, vc_Role = role, vc_CreatedAt = now\<rparr>"
  have "auth_inv cr (snd (saveVouchers s (m\<lparr>am_vouchers := mput (am_vouchers m) ?code ?v\<rparr>)))"
    using assms by (intro auth_inv_saveVouchers auth_inv_put_voucher) (simp_all add: voucher_ok_def)
  then show ?thesis
    by (auto simp: CreateVoucher_def Let_def intro: auth_inv_del_voucher split: prod.split option.split)
qed

lemma voucher_ok_use:
  assumes "voucher_ok i v" "\<not> (0 < vc_MaxUses v \<and> vc_MaxUses v \<le> vc_UsedCount v)"
  shows "voucher_ok i (v\<lparr>vc_UsedCount := wrap64 (vc_UsedCount v + 1)\<rparr>)"
    "voucher_ok i (v\<lparr>vc_UsedCount := wrap64 (wrap64 (vc_UsedCount v + 1) - 1)\<rparr>)"
proof -
  have "wrap64 (vc_UsedCount v + 1) = vc_UsedCount v + 1" "wrap64 (vc_UsedCount v) = vc_UsedCount v" if "0 < vc_MaxUses v"
    using assms that by (auto simp: voucher_ok_def intro!: wrap64_id)
  then show "voucher_ok i (v\<lparr>vc_UsedCount := wrap64 (vc_UsedCount v + 1)\<rparr>)"
    "voucher_ok i (v\<lparr>vc_UsedCount := wrap64 (wrap64 (vc_UsedCount v + 1) - 1)\<rparr>)"
    using assms by (auto simp: voucher_ok_def)
qed

lemma auth_inv_UseVoucher:
  assumes "auth_inv cr m"
  shows "auth_inv cr (snd (UseVoucher s now code m))"
proof (cases "mget (am_vouchers m) code")
  case (Some v)
  let ?v = "v\<lparr>vc_UsedCount := wrap64 (vc_UsedCount v + 1)\<rparr>"
  obtain r m2 where sv: "saveVouchers s (m\<lparr>am_vouchers := mput (am_vouchers m) code ?v\<rparr>) = (r, m2)" by (rule prod.exhaust)
  have "auth_inv cr m2 \<and> auth_inv cr (m2\<lparr>am_vouchers := mput (am_vouchers m2) code (?v\<lparr>vc_UsedCount := wrap64 (vc_UsedCount ?v - 1)\<rparr>)\<rparr>)"
    if "\<not> (0 < vc_MaxUses v \<and> vc_MaxUses v \<le> vc_UsedCount v)"
  proof -
    note ok = voucher_ok_use [OF auth_inv_voucher [OF assms Some] that]
    have "auth_inv cr m2"
      using auth_inv_saveVouchers [OF auth_inv_put_voucher [OF assms ok(1)], of s] sv by simp
    then show ?thesis using ok(2) by (simp add: auth_inv_put_voucher)
  qed
  then show ?thesis
    using assms Some sv by (cases r) (auto simp: UseVoucher_def Let_def)
qed (use assms in \<open>simp add: UseVoucher_def\<close>)

lemma auth_inv_AddApplication:
  assumes "auth_inv cr m"
  shows "auth_inv cr (snd (AddApplication s now i pk m))"
proof -
  let ?c = "\<lparr>cl_ClientID = i, cl_PublicKey = pk, cl_Certificate = '''', cl_Status = ''pending'', cl_Namespace = ''permanent'',
    cl_Role = ''node'', cl_CreatedAt = now, cl_ApprovedAt = 0\<rparr>"
  obtain r m2 where sv: "saveRegistry s (m\<lparr>am_clients := mput (am_clients m) i ?c\<rparr>) = (r, m2)" by (rule prod.exhaust)
  have "auth_inv cr (snd (saveRegistry s (m\<lparr>am_clients := mput (am_clients m) i ?c\<rparr>)))"
    using assms by (intro auth_inv_saveRegistry auth_inv_set_client) (simp_all add: client_ok_def)
  then have m: "auth_inv cr m2" by (simp add: sv)
  then have "auth_inv cr (m2\<lparr>am_clients := mdel (am_clients m2) i\<rparr>)" by (simp add: auth_inv_def registry_ok_mdel)
  with m show ?thesis using assms sv
    by (cases r) (auto simp: AddApplication_def Let_def split: option.split)
qed

lemma auth_inv_Approve:
  assumes "auth_inv cr m"
  shows "auth_inv cr (snd (Approve cr s serial now i ns role m))"
proof (cases "mget (am_clients m) i")
  case (Some c)
  show ?thesis
  proof (cases "signClientCertificate cr serial now m (cl_PublicKey c) i 365")
    case (Inr cert)
    let ?c = "c\<lparr>cl_Status := ''approved'', cl_Certificate := cert, cl_Namespace := ns, cl_Role := role, cl_ApprovedAt := now\<rparr>"
    have "client_ok cr (am_caCert m) (am_caKey m) i ?c"
      using auth_inv_client [OF assms Some] signed_issued [OF Inr] by (simp add: client_ok_def)
    then have "auth_inv cr (snd (saveRegistry s (m\<lparr>am_clients := mput (am_clients m) i ?c, am_namespaces := add_member ns i (am_namespaces m)\<rparr>)))"
      using assms by (intro auth_inv_saveRegistry auth_inv_put_client) (simp_all add: auth_inv_namespaces)
    then show ?thesis using assms Some Inr by (auto simp: Approve_def Let_def split: prod.split option.split)
  qed (use assms Some in \<open>simp add: Approve_def\<close>)
qed (use assms in \<open>simp add: Approve_def\<close>)

lemma auth_inv_step:
  assumes "auth_inv cr m" "op_int64 x"
  shows "auth_inv cr (auth_step cr m x)"
proof (cases x)
  case (OpCreateVoucher s now r mx ex ns role)
  then show ?thesis using assms by (simp add: auth_inv_CreateVoucher op_int64_def)
next
  case (OpDeleteVoucher s code)
  then show ?thesis using assms
    by (simp add: DeleteVoucher_def auth_inv_saveVouchers auth_inv_del_voucher split: option.split)
next
  case (OpUpdatePublicKey s i pk)
  then show ?thesis using assms
    by (auto simp: UpdatePublicKey_def client_ok_def dest: auth_inv_client
        intro!: auth_inv_saveRegistry auth_inv_set_client split: option.split)
next
  case (OpResetClientStatus s i)
  then show ?thesis using assms
    by (auto simp: ResetClientStatus_def client_ok_def dest: auth_inv_client
        intro!: auth_inv_saveRegistry auth_inv_set_client split: option.split)
next
  case (OpDelete s i)
  have "auth_inv cr (m\<lparr>am_namespaces := remove_member ns i (am_namespaces m), am_clients := mdel (am_clients m) i\<rparr>)" for ns
    using assms(1) by (simp add: auth_inv_def registry_ok_mdel)
  then show ?thesis using OpDelete assms
    by (auto simp: auth_Delete_def intro: auth_inv_saveRegistry split: option.split)
next
  case (OpSetClientNamespace s i ns role)
  have "auth_inv cr (m\<lparr>am_namespaces := add_member ns i (remove_member (cl_Namespace c) i (am_namespaces m)),
      am_clients := mput (am_clients m) i (c\<lparr>cl_Namespace := ns, cl_Role := role\<rparr>)\<rparr>)" if "mget (am_clients m) i = Some c" for c
    using assms(1) auth_inv_client [OF assms(1) that] by (simp add: auth_inv_def registry_ok_mput client_ok_def)
  then show ?thesis using OpSetClientNamespace assms
    by (auto simp: SetClientNamespace_def intro: auth_inv_saveRegistry split: option.split)
qed (use assms in \<open>simp_all add: auth_inv_UseVoucher auth_inv_AddApplication auth_inv_Approve\<close>)

interpretation auth: invariant_run "auth_step cr" "auth_inv cr" op_int64 for cr
  by unfold_locales (rule auth_inv_step)

section \<open>Starting\<close>

lemma initCA_parts:
  assumes "initCA cr v m = (r, m')"
  shows "am_clients m' = am_clients m" "am_vouchers m' = am_vouchers m" "am_namespaces m' = am_namespaces m"
    "dd_registry (am_dir m') = dd_registry (am_dir m)" "dd_vouchers (am_dir m') = dd_vouchers (am_dir m)"
    "dd_jwt (am_dir m') = dd_jwt (am_dir m)"
  using assms by (auto simp: initCA_def loadCA_def generateCA_def Let_def split: option.splits sum.splits)

lemma initJWT_parts:
  assumes "initJWT v m = (r, m')"
  shows "am_clients m' = am_clients m" "am_vouchers m' = am_vouchers m" "am_namespaces m' = am_namespaces m"
    "dd_registry (am_dir m') = dd_registry (am_dir m)" "dd_vouchers (am_dir m') = dd_vouchers (am_dir m)"
    "am_caCert m' = am_caCert m" "am_caKey m' = am_caKey m"
  using assms by (auto simp: initJWT_def split: option.splits sum.splits)

definition in_file :: "'a list json_file \<Rightarrow> 'a list" where
  "in_file f = (case f of Holds x \<Rightarrow> x | _ \<Rightarrow> [])"

lemma Init_parts:
  assumes "Init cr v (NewManager config dir) = (None, m)"
  shows "am_clients m = in_file (dd_registry dir)" "am_vouchers m = in_file (dd_vouchers dir)"
    "am_namespaces m = fold (add_default (ie_now v)) default_namespaces []"
    "dd_registry (am_dir m) = dd_registry dir" "dd_vouchers (am_dir m) = dd_vouchers dir"
proof -
  obtain m1 where m1: "initCA cr v (NewManager config dir) = (None, m1)"
    using assms by (auto simp: Init_def split: prod.splits option.splits)
  obtain m2 where m2: "initJWT v m1 = (None, m2)" "m = initDefaultNamespaces (ie_now v) (loadVouchers (loadRegistry m2))"
    using assms m1 by (auto simp: Init_def split: prod.splits option.splits)
  note p = initCA_parts [OF m1] initJWT_parts [OF m2(1)]
  have "am_clients m2 = []" "am_vouchers m2 = []" "am_namespaces m2 = []"
    "dd_registry (am_dir m2) = dd_registry dir" "dd_vouchers (am_dir m2) = dd_vouchers dir"
    using p by (simp_all add: NewManager_def)
  then show "am_clients m = in_file (dd_registry dir)" "am_vouchers m = in_file (dd_vouchers dir)"
    "am_namespaces m = fold (add_default (ie_now v)) default_namespaces []"
    "dd_registry (am_dir m) = dd_registry dir" "dd_vouchers (am_dir m) = dd_vouchers dir"
    by (auto simp: m2(2) initDefaultNamespaces_def loadVouchers_def loadRegistry_def in_file_def split: json_file.split)
qed

lemma fold_add_default:
  assumes "wf_map nss" "\<forall>k ns. mget nss k = Some ns \<longrightarrow> ns_Clients ns = []"
  shows "wf_map (fold (add_default now) ds nss) \<and> (\<forall>k ns. mget (fold (add_default now) ds nss) k = Some ns \<longrightarrow> ns_Clients ns = [])"
  using assms
proof (induction ds arbitrary: nss)
  case (Cons d ds)
  have "wf_map (add_default now d nss)" "\<forall>k ns. mget (add_default now d nss) k = Some ns \<longrightarrow> ns_Clients ns = []"
    using Cons.prems by (auto simp: add_default_def split: option.split)
  then show ?case using Cons.IH by simp
qed simp

lemma auth_inv_Init:
  assumes "Init cr v (NewManager config dir) = (None, m)" "dir_ok cr (am_caCert m) (am_caKey m) dir"
  shows "auth_inv cr m"
proof -
  note p = Init_parts [OF assms(1)]
  have "wf_map (am_namespaces m)" using fold_add_default [of "[]"] by (simp add: p(3))
  moreover have "dir_ok cr (am_caCert m) (am_caKey m) (am_dir m)" using assms(2) by (simp add: dir_ok_def p(4,5))
  moreover have "registry_ok cr (am_caCert m) (am_caKey m) (am_clients m)" "vouchers_ok (am_vouchers m)"
    using assms(2) unfolding p(1,2) by (auto simp: dir_ok_def in_file_def registry_ok_def vouchers_ok_def split: json_file.split)
  ultimately show ?thesis by (simp add: auth_inv_def)
qed

section \<open>Memory and files\<close>

definition auth_synced :: "Manager \<Rightarrow> bool" where
  "auth_synced m \<longleftrightarrow> in_file (dd_registry (am_dir m)) = am_clients m \<and> in_file (dd_vouchers (am_dir m)) = am_vouchers m"

lemma saveOK:
  "saveRegistry SaveOK m = (None, m\<lparr>am_dir := (am_dir m)\<lparr>dd_registry := Holds (am_clients m)\<rparr>\<rparr>)"
  "saveVouchers SaveOK m = (None, m\<lparr>am_dir := (am_dir m)\<lparr>dd_vouchers := Holds (am_vouchers m)\<rparr>\<rparr>)"
  by (simp_all add: saveRegistry_def saveVouchers_def saved_def)

lemma auth_synced_step: "auth_synced m \<Longrightarrow> op_save x = SaveOK \<Longrightarrow> auth_synced (auth_step cr m x)"
  by (cases x)
    (auto simp: CreateVoucher_def UseVoucher_def DeleteVoucher_def AddApplication_def UpdatePublicKey_def
      ResetClientStatus_def Approve_def auth_Delete_def SetClientNamespace_def Let_def saveOK auth_synced_def in_file_def
      split: option.split sum.split)

interpretation auth_files: invariant_run "auth_step cr" auth_synced "\<lambda>x. op_save x = SaveOK" for cr
  by unfold_locales (rule auth_synced_step)

section \<open>Counting uses\<close>

text \<open>How often a run of operations redeemed a voucher.\<close>

fun redeemed :: "crypto \<Rightarrow> string \<Rightarrow> Manager \<Rightarrow> auth_op list \<Rightarrow> int" where
  "redeemed cr code m [] = 0"
| "redeemed cr code m (x # xs) =
     (case x of OpUseVoucher s now c \<Rightarrow> if c = code \<and> isl (fst (UseVoucher s now c m)) = False then 1 else 0 | _ \<Rightarrow> 0)
     + redeemed cr code (auth_step cr m x) xs"

definition creates :: "string \<Rightarrow> auth_op \<Rightarrow> bool" where
  "creates code x \<longleftrightarrow> (case x of OpCreateVoucher _ _ r _ _ _ _ \<Rightarrow> ''vch_'' @ r = code | _ \<Rightarrow> False)"

lemma auth_step_voucher_other:
  assumes "\<not> creates code x" "\<forall>s now. x \<noteq> OpUseVoucher s now code"
  shows "mget (am_vouchers (auth_step cr m x)) code = mget (am_vouchers m) code \<or> mget (am_vouchers (auth_step cr m x)) code = None"
  using assms
  by (cases x)
    (auto simp: CreateVoucher_def UseVoucher_def DeleteVoucher_def AddApplication_def UpdatePublicKey_def
      ResetClientStatus_def Approve_def auth_Delete_def SetClientNamespace_def Let_def creates_def saveRegistry_def saveVouchers_def
      split: option.split sum.split prod.split)

lemma UseVoucher_cases:
  assumes "voucher_ok code v" "mget (am_vouchers m) code = Some v" "0 < vc_MaxUses v"
  shows "(isl (fst (UseVoucher s now code m)) \<and> mget (am_vouchers (snd (UseVoucher s now code m))) code = Some v) \<or>
    (\<not> isl (fst (UseVoucher s now code m)) \<and> vc_UsedCount v < vc_MaxUses v \<and> (vc_ExpiresAt v \<le> 0 \<or> now \<le> vc_ExpiresAt v) \<and>
      mget (am_vouchers (snd (UseVoucher s now code m))) code = Some (v\<lparr>vc_UsedCount := vc_UsedCount v + 1\<rparr>))"
proof (cases "vc_MaxUses v \<le> vc_UsedCount v")
  case False
  then have "wrap64 (vc_UsedCount v + 1) = vc_UsedCount v + 1" "wrap64 (vc_UsedCount v) = vc_UsedCount v"
    using assms(1,3) by (auto simp: voucher_ok_def intro!: wrap64_id)
  moreover have "v\<lparr>vc_UsedCount := vc_UsedCount v\<rparr> = v" by simp
  ultimately show ?thesis
    using assms False by (cases s) (auto simp: UseVoucher_def Let_def saveVouchers_def saved_def not_less)
qed (use assms in \<open>simp add: UseVoucher_def\<close>)

lemma redeemed_absent: "list_all (\<lambda>x. \<not> creates code x) xs \<Longrightarrow> mget (am_vouchers m) code = None \<Longrightarrow> redeemed cr code m xs = 0"
proof (induction xs arbitrary: m)
  case (Cons x xs)
  have "mget (am_vouchers (auth_step cr m x)) code = None"
  proof (cases "\<exists>s now. x = OpUseVoucher s now code")
    case True
    then show ?thesis using Cons.prems(2) by (auto simp: UseVoucher_def)
  next
    case False
    then show ?thesis using Cons.prems auth_step_voucher_other [of code x cr m] by auto
  qed
  then show ?case using Cons by (auto simp: UseVoucher_def split: auth_op.split)
qed simp

lemma redeemed_bound:
  assumes "list_all (\<lambda>x. \<not> creates code x) xs" "voucher_ok code v" "mget (am_vouchers m) code = Some v" "0 < vc_MaxUses v"
  shows "vc_UsedCount v + redeemed cr code m xs \<le> vc_MaxUses v"
  using assms
proof (induction xs arbitrary: m v)
  case (Cons x xs)
  show ?case
  proof (cases "\<exists>s now. x = OpUseVoucher s now code")
    case True
    then obtain s now where x: "x = OpUseVoucher s now code" by blast
    from UseVoucher_cases [OF Cons.prems(2,3,4), of s now] show ?thesis
    proof
      assume "isl (fst (UseVoucher s now code m)) \<and> mget (am_vouchers (snd (UseVoucher s now code m))) code = Some v"
      then show ?thesis using Cons.IH [OF _ Cons.prems(2)] Cons.prems(1,4) x by simp
    next
      assume u: "\<not> isl (fst (UseVoucher s now code m)) \<and> vc_UsedCount v < vc_MaxUses v \<and> (vc_ExpiresAt v \<le> 0 \<or> now \<le> vc_ExpiresAt v) \<and>
        mget (am_vouchers (snd (UseVoucher s now code m))) code = Some (v\<lparr>vc_UsedCount := vc_UsedCount v + 1\<rparr>)"
      then have "voucher_ok code (v\<lparr>vc_UsedCount := vc_UsedCount v + 1\<rparr>)" using Cons.prems(2) by (simp add: voucher_ok_def)
      then show ?thesis using Cons.IH [of "v\<lparr>vc_UsedCount := vc_UsedCount v + 1\<rparr>" "snd (UseVoucher s now code m)"] Cons.prems(1,4) x u by simp
    qed
  next
    case False
    then have r: "redeemed cr code m (x # xs) = redeemed cr code (auth_step cr m x) xs" by (auto split: auth_op.split)
    show ?thesis
    proof (cases "mget (am_vouchers (auth_step cr m x)) code = None")
      case True
      then show ?thesis using Cons.prems r redeemed_absent [OF _ True, of xs cr] by (simp add: voucher_ok_def del: redeemed.simps)
    next
      case f: False
      then have "mget (am_vouchers (auth_step cr m x)) code = Some v"
        using auth_step_voucher_other [of code x cr m] False Cons.prems(1,3) by auto
      then show ?thesis using Cons.IH [OF _ Cons.prems(2) _ Cons.prems(4)] Cons.prems(1) r by (simp del: redeemed.simps)
    qed
  qed
qed (simp add: voucher_ok_def)

section \<open>Properties\<close>

text \<open>C23. The registry is sound: from a start on a directory whose files are sound (empty ones, for
  instance), any run of operations, with saves that succeed, fail or tear the file, keeps every client
  under its own identifier, either pending without certificate or approved with a certificate the CA
  issued for its current public key and its identifier, valid for 365 days; and keeps the use count of
  every limited voucher within its limit. The same holds of the files, so of the next start too.\<close>

theorem auth_run_invariant:
  assumes "Init cr v (NewManager config dir) = (None, m0)" and "dir_ok cr (am_caCert m0) (am_caKey m0) dir"
    and "list_all op_int64 ops"
  shows "auth_inv cr (foldl (auth_step cr) m0 ops)"
  by (rule auth.run_inv [OF auth_inv_Init [OF assms(1,2)] assms(3)])

definition toy_crypto :: crypto where
  "toy_crypto = \<lparr>cr_pemDecode = (\<lambda>s. Some (bytes_of s)), cr_pemEncode = (\<lambda>t d. string_of_bytes d),
     cr_parseCert = (\<lambda>_. None), cr_parseECKey = (\<lambda>_. None), cr_parsePub = (\<lambda>_. None), cr_marshalECKey = Inr,
     cr_publicKey = (\<lambda>k. k), cr_createCert = (\<lambda>t p pub k. Inr (bytes_of (ct_CommonName t)))\<rparr>"

definition toy_env :: init_env where
  "toy_env = \<lparr>ie_now = 0, ie_certReadErr = None, ie_keyReadErr = None, ie_newKey = Inr [1], ie_secret = Inr ''s'',
     ie_crtErr = None, ie_keyErr = None, ie_jwtErr = None\<rparr>"

definition empty_dir :: data_dir where
  "empty_dir = \<lparr>dd_caCrt = None, dd_caKey = None, dd_jwt = None, dd_registry = Absent, dd_vouchers = Absent\<rparr>"

definition toy_config :: auth_Config where
  "toy_config = \<lparr>cfg_APIKey = ''k'', cfg_ClientToken = ''t''\<rparr>"

definition toy_manager :: Manager where
  "toy_manager = snd (Init toy_crypto toy_env (NewManager toy_config empty_dir))"

lemmas toy_defs = toy_manager_def Init_def initCA_def generateCA_def initJWT_def NewManager_def toy_crypto_def toy_env_def
  toy_config_def empty_dir_def loadRegistry_def loadVouchers_def initDefaultNamespaces_def default_namespaces_def add_default_def

lemma toy_init: "Init toy_crypto toy_env (NewManager toy_config empty_dir) = (None, toy_manager)"
  by (simp add: toy_defs Let_def)

lemma toy_parts:
  "am_clients toy_manager = []" "am_vouchers toy_manager = []" "\<exists>ns. mget (am_namespaces toy_manager) ''permanent'' = Some ns \<and> ns_Clients ns = []"
  "am_caCert toy_manager = Some (bytes_of ''Aether CA'')" "am_caKey toy_manager = Some [1]"
  by (simp_all add: toy_defs Let_def ca_template_def)

definition toy_ops :: "auth_op list" where
  "toy_ops = [OpAddApplication SaveOK 5 ''c'' ''pk'', OpApprove SaveOK 1 6 ''c'' ''permanent'' ''node'']"

lemma toy_sign:
  "am_caCert m = Some ca \<Longrightarrow> am_caKey m = Some key \<Longrightarrow> signClientCertificate toy_crypto serial now m pk i d = Inr i"
  by (simp add: signClientCertificate_def toy_crypto_def client_template_def)

lemma toy_run: "\<exists>c. mget (am_clients (foldl (auth_step toy_crypto) toy_manager toy_ops)) ''c'' = Some c \<and> cl_Status c = ''approved''"
  by (simp add: toy_ops_def AddApplication_def Approve_def Let_def saveOK toy_sign toy_parts)

theorem auth_run_invariant_witness:
  "auth_inv toy_crypto (foldl (auth_step toy_crypto) toy_manager toy_ops) \<and>
   (\<exists>c. mget (am_clients (foldl (auth_step toy_crypto) toy_manager toy_ops)) ''c'' = Some c \<and> cl_Status c = ''approved'')"
  using auth_run_invariant [OF toy_init, of toy_ops] toy_run
  by (simp add: dir_ok_def empty_dir_def toy_ops_def op_int64_def)

text \<open>C24. A limited voucher is redeemed at most as often as its limit allows, whatever else happens to
  the manager and whichever saves fail, and never once it has expired.\<close>

theorem voucher_use_bounded:
  assumes "auth_inv cr m" and "mget (am_vouchers m) code = Some v" and "0 < vc_MaxUses v"
    and "list_all (\<lambda>x. \<not> creates code x) ops"
  shows "redeemed cr code m ops \<le> vc_MaxUses v - vc_UsedCount v \<and>
     (\<forall>s now w. fst (UseVoucher s now code m) = Inr w \<longrightarrow> vc_ExpiresAt v \<le> 0 \<or> now \<le> vc_ExpiresAt v)"
proof -
  note ok = auth_inv_voucher [OF assms(1,2)]
  have "vc_UsedCount v + redeemed cr code m ops \<le> vc_MaxUses v" by (rule redeemed_bound [OF assms(4) ok assms(2,3)])
  moreover have "vc_ExpiresAt v \<le> 0 \<or> now \<le> vc_ExpiresAt v" if "fst (UseVoucher s now code m) = Inr w" for s now w
    using UseVoucher_cases [OF ok assms(2,3), of s now] that by auto
  ultimately show ?thesis by (simp add: le_diff_eq add.commute)
qed

theorem voucher_use_bounded_witness:
  "\<exists>m v. mget (am_vouchers m) ''vch_1'' = Some v \<and> vc_MaxUses v = 1 \<and>
     redeemed toy_crypto ''vch_1'' m [OpUseVoucher SaveOK 3 ''vch_1'', OpUseVoucher SaveOK 4 ''vch_1''] \<le> 1"
proof -
  define v where "v = \<lparr>vc_Code = ''vch_1'', vc_MaxUses = 1, vc_UsedCount = 0, vc_ExpiresAt = 9, vc_Namespace = ''permanent'', vc_Role = ''node'', vc_CreatedAt = 2\<rparr>"
  define m where "m = foldl (auth_step toy_crypto) toy_manager [OpCreateVoucher SaveOK 2 ''1'' 1 9 ''permanent'' ''node'']"
  have inv: "auth_inv toy_crypto m"
    unfolding m_def by (rule auth.run_inv [OF auth_inv_Init [OF toy_init]]) (simp_all add: dir_ok_def empty_dir_def op_int64_def)
  have v: "mget (am_vouchers m) ''vch_1'' = Some v" by (simp add: m_def v_def CreateVoucher_def Let_def saveOK toy_parts(2))
  have "redeemed toy_crypto ''vch_1'' m [OpUseVoucher SaveOK 3 ''vch_1'', OpUseVoucher SaveOK 4 ''vch_1''] \<le> vc_MaxUses v - vc_UsedCount v"
    by (rule conjunct1 [OF voucher_use_bounded [OF inv v]]) (simp_all add: v_def creates_def)
  then show ?thesis using v unfolding v_def by (intro exI [of _ m]) simp
qed


lemma toy_restart: "\<exists>m'. Init toy_crypto toy_env (NewManager toy_config dir) = (None, m')"
  by (simp add: Init_def initCA_def loadCA_def generateCA_def initJWT_def toy_crypto_def toy_env_def NewManager_def Let_def split: option.split)


text \<open>The members of the namespaces do not survive a restart: they are in no file and are not
  rebuilt from the registry, so after every start every namespace lists no client, also those whose
  record names the namespace.\<close>

theorem auth_restart_forgets_members:
  assumes "Init cr v (NewManager config dir) = (None, m)"
  shows "GetClientsByNamespace m ns = []"
proof -
  have "ns_Clients x = []" if "mget (am_namespaces m) ns = Some x" for x
    using fold_add_default [of "[]" "ie_now v" default_namespaces] that Init_parts(3) [OF assms] by auto
  then show ?thesis by (auto simp: GetClientsByNamespace_def map_filter_def split: option.split)
qed

theorem auth_restart_forgets_members_witness:
  "\<exists>m' c. Init toy_crypto toy_env (NewManager toy_config (am_dir (foldl (auth_step toy_crypto) toy_manager toy_ops))) = (None, m') \<and>
     GetByClientID m' ''c'' = Some c \<and> cl_Namespace c = ''permanent'' \<and> GetClientsByNamespace m' ''permanent'' = []"
proof -
  obtain m' where m': "Init toy_crypto toy_env (NewManager toy_config (am_dir (foldl (auth_step toy_crypto) toy_manager toy_ops))) = (None, m')"
    using toy_restart by blast
  have "dd_registry (am_dir (foldl (auth_step toy_crypto) toy_manager toy_ops)) = Holds (am_clients (foldl (auth_step toy_crypto) toy_manager toy_ops))"
    by (simp add: toy_ops_def AddApplication_def Approve_def Let_def saveOK toy_sign toy_parts)
  then have "am_clients m' = am_clients (foldl (auth_step toy_crypto) toy_manager toy_ops)"
    using Init_parts(1) [OF m'] by (simp add: in_file_def)
  then have "\<exists>c. GetByClientID m' ''c'' = Some c \<and> cl_Namespace c = ''permanent''"
    by (simp add: GetByClientID_def toy_ops_def AddApplication_def Approve_def Let_def saveOK toy_sign toy_parts)
  then show ?thesis using m' auth_restart_forgets_members [OF m'] by blast
qed

text \<open>What \<open>Approve\<close> does: only a pending client is approved; then the returned certificate is
  the one stored in its record, issued for its key, and the client is a member of the namespace, if
  there is one of that name. Every other outcome but a failed save leaves the manager as it was.\<close>

theorem approve_effect:
  assumes "auth_inv cr m" and "Approve cr s serial now i ns role m = (r, m')"
  shows "case r of
      Inr cert \<Rightarrow> (\<exists>c. mget (am_clients m) i = Some c \<and> cl_Status c = ''pending'' \<and> issued cr (am_caCert m) (am_caKey m) (cl_PublicKey c) i cert \<and>
        GetByClientID m' i = Some (c\<lparr>cl_Status := ''approved'', cl_Certificate := cert, cl_Namespace := ns, cl_Role := role, cl_ApprovedAt := now\<rparr>) \<and>
        (GetNamespace m ns \<noteq> None \<longrightarrow> i \<in> cl_ClientID ` set (GetClientsByNamespace m' ns)))
    | Inl e \<Rightarrow> m' = m \<or> (\<exists>c. mget (am_clients m) i = Some c \<and> cl_Status c = ''pending'' \<and> s \<noteq> SaveOK)"
proof (cases "\<exists>c cert. mget (am_clients m) i = Some c \<and> cl_Status c = ''pending'' \<and> signClientCertificate cr serial now m (cl_PublicKey c) i 365 = Inr cert")
  case True
  then obtain c cert where c: "mget (am_clients m) i = Some c" "cl_Status c = ''pending''"
    and cert: "signClientCertificate cr serial now m (cl_PublicKey c) i 365 = Inr cert" by blast
  let ?c = "c\<lparr>cl_Status := ''approved'', cl_Certificate := cert, cl_Namespace := ns, cl_Role := role, cl_ApprovedAt := now\<rparr>"
  have id: "cl_ClientID c = i" using auth_inv_client [OF assms(1) c(1)] by (simp add: client_ok_def)
  have mem: "i \<in> cl_ClientID ` set (GetClientsByNamespace x ns)"
    if "mget (am_namespaces x) ns = Some (n\<lparr>ns_Clients := ns_Clients n @ [i]\<rparr>)" "mget (am_clients x) i = Some ?c" for x :: Manager and n
    using that id by (auto simp: GetClientsByNamespace_def map_filter_def image_iff)
  show ?thesis
  proof (cases "s = SaveOK")
    case True
    let ?m = "m\<lparr>am_clients := mput (am_clients m) i ?c, am_namespaces := add_member ns i (am_namespaces m)\<rparr>"
    have m': "r = Inr cert" "m' = snd (saveRegistry SaveOK ?m)"
      using assms(2) c cert True by (simp_all add: Approve_def Let_def saveOK)
    have "i \<in> cl_ClientID ` set (GetClientsByNamespace m' ns)" if "GetNamespace m ns = Some n" for n
      using that by (intro mem [of _ n]) (simp_all add: m'(2) add_member_def GetNamespace_def)
    then show ?thesis
      using c signed_issued [OF cert] by (auto simp: m' GetByClientID_def)
  qed (use assms(2) c cert in \<open>cases s; auto simp: Approve_def Let_def saveRegistry_def saved_def\<close>)
next
  case False
  then show ?thesis using assms(2) by (auto simp: Approve_def split: option.splits sum.splits if_splits)
qed

theorem approve_effect_witness:
  "\<exists>m'. Approve toy_crypto SaveOK 1 6 ''c'' ''permanent'' ''node'' (auth_step toy_crypto toy_manager (OpAddApplication SaveOK 5 ''c'' ''pk'')) = (Inr ''c'', m') \<and>
     ''c'' \<in> cl_ClientID ` set (GetClientsByNamespace m' ''permanent'')"
proof -
  let ?m = "auth_step toy_crypto toy_manager (OpAddApplication SaveOK 5 ''c'' ''pk'')"
  have "auth_inv toy_crypto toy_manager" by (rule auth_inv_Init [OF toy_init]) (simp add: dir_ok_def empty_dir_def)
  then have inv: "auth_inv toy_crypto ?m" by (rule auth_inv_step) (simp add: op_int64_def)
  obtain m' where m': "Approve toy_crypto SaveOK 1 6 ''c'' ''permanent'' ''node'' ?m = (Inr ''c'', m')"
    by (simp add: AddApplication_def Approve_def Let_def saveOK toy_sign toy_parts)
  have "GetNamespace ?m ''permanent'' \<noteq> None" using toy_parts(1,3) by (auto simp: AddApplication_def Let_def saveOK GetNamespace_def)
  then show ?thesis using approve_effect [OF inv m'] m' by auto
qed

lemma sign_cong:
  "am_caCert m' = am_caCert m \<Longrightarrow> am_caKey m' = am_caKey m \<Longrightarrow>
   signClientCertificate cr serial now m' pk i d = signClientCertificate cr serial now m pk i d"
  unfolding signClientCertificate_def by (simp only:)

text \<open>A client approved twice is two entries of its namespace, and \<open>Delete\<close> removes one of them.
  So a client that was reset, approved again and deleted leaves its identifier behind, and whoever
  applies under this identifier next is listed as a member of the namespace while still pending.\<close>

theorem deleted_client_stays_member:
  assumes "mget (am_clients m) i = None" and "mget (am_namespaces m) ns = Some n"
    and "signClientCertificate cr n1 t1 m pk i 365 = Inr cert1" and "signClientCertificate cr n2 t2 m pk i 365 = Inr cert2"
    and "m' = foldl (auth_step cr) m [OpAddApplication SaveOK t0 i pk, OpApprove SaveOK n1 t1 i ns role,
       OpResetClientStatus SaveOK i, OpApprove SaveOK n2 t2 i ns role, OpDelete SaveOK i, OpAddApplication SaveOK t3 i pk']"
  shows "\<exists>c \<in> set (GetClientsByNamespace m' ns). cl_ClientID c = i \<and> cl_Status c = ''pending'' \<and> cl_PublicKey c = pk'"
proof -
  have sg: "signClientCertificate cr n1 t1 x pk i 365 = Inr cert1" "signClientCertificate cr n2 t2 x pk i 365 = Inr cert2"
    if "am_caCert x = am_caCert m" "am_caKey x = am_caKey m" for x
    using assms(3,4) sign_cong [OF that] by simp_all
  define c0 where "c0 = \<lparr>cl_ClientID = i, cl_PublicKey = pk, cl_Certificate = '''', cl_Status = ''pending'', cl_Namespace = ''permanent'', cl_Role = ''node'', cl_CreatedAt = t0, cl_ApprovedAt = 0\<rparr>"
  define m1 where "m1 = auth_step cr m (OpAddApplication SaveOK t0 i pk)"
  have m1: "mget (am_clients m1) i = Some c0" "am_namespaces m1 = am_namespaces m" "am_caCert m1 = am_caCert m" "am_caKey m1 = am_caKey m"
    using assms(1) by (simp_all add: m1_def AddApplication_def Let_def saveOK c0_def)
  define m2 where "m2 = auth_step cr m1 (OpApprove SaveOK n1 t1 i ns role)"
  have m2: "mget (am_clients m2) i = Some (c0\<lparr>cl_Status := ''approved'', cl_Certificate := cert1, cl_Namespace := ns, cl_Role := role, cl_ApprovedAt := t1\<rparr>)"
    "am_namespaces m2 = add_member ns i (am_namespaces m)" "am_caCert m2 = am_caCert m" "am_caKey m2 = am_caKey m"
    using m1 sg(1) [of m1] by (simp_all add: m2_def Approve_def Let_def saveOK c0_def)
  define m3 where "m3 = auth_step cr m2 (OpResetClientStatus SaveOK i)"
  have m3: "\<exists>c. mget (am_clients m3) i = Some c \<and> cl_Status c = ''pending'' \<and> cl_PublicKey c = pk \<and> cl_Namespace c = ns"
    "am_namespaces m3 = add_member ns i (am_namespaces m)" "am_caCert m3 = am_caCert m" "am_caKey m3 = am_caKey m"
    using m2 by (simp_all add: m3_def ResetClientStatus_def saveOK c0_def)
  define m4 where "m4 = auth_step cr m3 (OpApprove SaveOK n2 t2 i ns role)"
  have m4: "\<exists>c. mget (am_clients m4) i = Some c \<and> cl_Namespace c = ns"
    "am_namespaces m4 = add_member ns i (add_member ns i (am_namespaces m))"
    using m3 sg(2) [of m3] by (auto simp: m4_def Approve_def Let_def saveOK)
  define m5 where "m5 = auth_step cr m4 (OpDelete SaveOK i)"
  have m5: "mget (am_clients m5) i = None" "\<exists>n'. mget (am_namespaces m5) ns = Some n' \<and> i \<in> set (ns_Clients n')"
    using m4 assms(2) by (auto simp: m5_def auth_Delete_def saveOK remove_member_def add_member_def remove1_append)
  have m': "m' = auth_step cr m5 (OpAddApplication SaveOK t3 i pk')"
    using assms(5) by (simp add: m5_def m4_def m3_def m2_def m1_def)
  show ?thesis
    using m5 unfolding m' by (auto simp: AddApplication_def Let_def saveOK GetClientsByNamespace_def map_filter_def)
qed

theorem deleted_client_stays_member_witness:
  "\<exists>m' c. c \<in> set (GetClientsByNamespace m' ''permanent'') \<and> cl_ClientID c = ''c'' \<and> cl_Status c = ''pending'' \<and> cl_PublicKey c = ''other''"
proof -
  obtain n where "mget (am_namespaces toy_manager) ''permanent'' = Some n" using toy_parts(3) by blast
  moreover have "mget (am_clients toy_manager) ''c'' = None" by (simp add: toy_parts(1))
  ultimately show ?thesis
    using deleted_client_stays_member [where i = "''c''" and pk' = "''other''", OF _ _ toy_sign [OF toy_parts(4,5)] toy_sign [OF toy_parts(4,5)] refl]
    by blast
qed

text \<open>\<open>Approve\<close> does not roll back: when its save fails, the caller gets an error and no
  certificate, but in memory the client is approved and cannot be approved again.\<close>

theorem approve_error_leaves_approved:
  assumes "mget (am_clients m) i = Some c" and "cl_Status c = ''pending''"
    and "signClientCertificate cr serial now m (cl_PublicKey c) i 365 = Inr cert" and "s \<noteq> SaveOK"
    and "Approve cr s serial now i ns role m = (r, m')"
  shows "isl r \<and> (\<exists>c'. GetByClientID m' i = Some c' \<and> cl_Status c' = ''approved'') \<and>
     fst (Approve cr SaveOK serial now i ns role m') = Inl ''client already approved''"
  using assms by (cases s) (auto simp: Approve_def Let_def saveRegistry_def saved_def GetByClientID_def)

theorem approve_error_leaves_approved_witness:
  "\<exists>r m'. Approve toy_crypto OpenFails 1 6 ''c'' ''permanent'' ''node'' (auth_step toy_crypto toy_manager (OpAddApplication SaveOK 5 ''c'' ''pk'')) = (r, m') \<and>
     isl r \<and> fst (Approve toy_crypto SaveOK 1 6 ''c'' ''permanent'' ''node'' m') = Inl ''client already approved''"
proof -
  let ?m = "auth_step toy_crypto toy_manager (OpAddApplication SaveOK 5 ''c'' ''pk'')"
  obtain r m' where r: "Approve toy_crypto OpenFails 1 6 ''c'' ''permanent'' ''node'' ?m = (r, m')" by (rule prod.exhaust)
  obtain c where c: "mget (am_clients ?m) ''c'' = Some c" "cl_Status c = ''pending''"
    by (simp add: AddApplication_def Let_def saveOK toy_parts)
  have "am_caCert ?m = Some (bytes_of ''Aether CA'')" "am_caKey ?m = Some [1]"
    by (simp_all add: AddApplication_def Let_def saveOK toy_parts)
  from approve_error_leaves_approved [OF c toy_sign [OF this] _ r] r show ?thesis by auto
qed

text \<open>The registry file is not replaced atomically: a save that tears it loses every client at the
  next start, also those saved before.\<close>

theorem registry_torn_write:
  assumes "AddApplication WriteTorn now i pk m = (r, m')" and "mget (am_clients m) i = None"
    and "Init cr v (NewManager config (am_dir m')) = (None, m2)"
  shows "r \<noteq> None \<and> am_clients m' = mdel (am_clients m) i \<and> am_clients m2 = []"
proof -
  have "r \<noteq> None \<and> am_clients m' = mdel (am_clients m) i \<and> dd_registry (am_dir m') = Garbage"
    using assms(1,2) by (auto simp: AddApplication_def Let_def saveRegistry_def saved_def delete_update_same)
  then show ?thesis using Init_parts(1) [OF assms(3)] by (simp add: in_file_def)
qed

theorem registry_torn_write_witness:
  "\<exists>m' m2 r. AddApplication WriteTorn 9 ''d'' ''pk'' (foldl (auth_step toy_crypto) toy_manager toy_ops) = (r, m') \<and>
     GetByClientID m' ''c'' \<noteq> None \<and> Init toy_crypto toy_env (NewManager toy_config (am_dir m')) = (None, m2) \<and> GetByClientID m2 ''c'' = None"
proof -
  let ?m = "foldl (auth_step toy_crypto) toy_manager toy_ops"
  obtain r m' where a: "AddApplication WriteTorn 9 ''d'' ''pk'' ?m = (r, m')" by (rule prod.exhaust)
  obtain m2 where m2: "Init toy_crypto toy_env (NewManager toy_config (am_dir m')) = (None, m2)" using toy_restart by blast
  have "mget (am_clients ?m) ''d'' = None"
    by (simp add: toy_ops_def AddApplication_def Approve_def Let_def saveOK toy_sign toy_parts)
  from registry_torn_write [OF a this m2] toy_run m2 a show ?thesis by (auto simp: GetByClientID_def)
qed

end
