(* ===== verification/Event_Bus.thy ===== *)
theory Event_Bus
  imports Proto
begin

text \<open>
  \<open>BBgrid_Server/runtime/eventbus.go\<close>: one bounded queue and one worker per resource type.

  \<^item> The channels live in a heap (\<open>eb_chans\<close>); the map \<open>eb_queues\<close> holds their addresses, as
    the Go map holds channel references that outlive their removal from the map.
  \<^item> A handler is a function value: \<open>Unsubscribe\<close> compares the text \<open>%p\<close> prints of it, its code
    address, so a handler is a code address and the environment it closes over.
  \<^item> \<open>eb_accepted\<close> and \<open>eb_delivered\<close> are histories: the events that entered a queue, and the
    events a worker took with the handlers it called, in order.
  \<^item> \<open>Publish\<close> has three parts that other calls can come between (the two locks and the send);
    the step relation \<open>bus_step\<close> interleaves them, \<open>Publish\<close> composes them.
\<close>

section \<open>State\<close>

record EventHandler =
  eh_code :: nat
  eh_env :: nat

record evchan =
  cn_type :: string
  cn_buf :: "GenericEvent list"
  cn_closed :: bool

record EventBusImpl =
  eb_typeSubs :: "(string, EventHandler list) gomap"
  eb_closed :: bool
  eb_seq :: int
  eb_queues :: "(string, nat) gomap"
  eb_stopped :: bool
  eb_chans :: "evchan list"
  eb_accepted :: "GenericEvent list"
  eb_delivered :: "(GenericEvent \<times> EventHandler list) list"

definition queueCap :: nat where "queueCap = 256"

definition NewEventBus :: EventBusImpl where
  "NewEventBus = \<lparr>eb_typeSubs = [], eb_closed = False, eb_seq = 0, eb_queues = [], eb_stopped = False,
     eb_chans = [], eb_accepted = [], eb_delivered = []\<rparr>"

abbreviation ev_type :: "GenericEvent \<Rightarrow> string" where
  "ev_type e \<equiv> rk_Type (ev_Resource e)"

section \<open>Operations\<close>

text \<open>The part of \<open>Publish\<close> under \<open>mu\<close>: the numbered event, unless it is dropped.\<close>

definition publish_begin :: "GenericEvent \<Rightarrow> EventBusImpl \<Rightarrow> GenericEvent option \<times> EventBusImpl" where
  "publish_begin event b =
     (if eb_closed b then (None, b)
      else let n = wrap64 (eb_seq b + 1); b' = b\<lparr>eb_seq := n\<rparr> in
        if mget (eb_typeSubs b) (ev_type event) = None then (None, b')
        else (Some (event\<lparr>ev_Sequence := n\<rparr>), b'))"

text \<open>The part under \<open>queueMu\<close>: the queue of the event's type, created on first use.\<close>

definition publish_queue :: "GenericEvent \<Rightarrow> EventBusImpl \<Rightarrow> nat option \<times> EventBusImpl" where
  "publish_queue event b =
     (case mget (eb_queues b) (ev_type event) of
        Some c \<Rightarrow> (Some c, b)
      | None \<Rightarrow>
          if eb_stopped b then (None, b)
          else let c = length (eb_chans b) in
            (Some c, b\<lparr>eb_chans := eb_chans b @ [\<lparr>cn_type = ev_type event, cn_buf = [], cn_closed = False\<rparr>],
                       eb_queues := mput (eb_queues b) (ev_type event) c\<rparr>))"

text \<open>The non-blocking send: an event for a closed or a full queue is dropped.\<close>

definition publish_send :: "nat \<Rightarrow> GenericEvent \<Rightarrow> EventBusImpl \<Rightarrow> EventBusImpl" where
  "publish_send c event b =
     (let ch = eb_chans b ! c in
      if cn_closed ch \<or> queueCap \<le> length (cn_buf ch) then b
      else b\<lparr>eb_chans := (eb_chans b)[c := ch\<lparr>cn_buf := cn_buf ch @ [event]\<rparr>],
             eb_accepted := eb_accepted b @ [event]\<rparr>)"

definition Publish :: "GenericEvent \<Rightarrow> EventBusImpl \<Rightarrow> EventBusImpl" where
  "Publish event b =
     (case publish_begin event b of
        (None, b1) \<Rightarrow> b1
      | (Some e, b1) \<Rightarrow>
          (case publish_queue e b1 of (None, b2) \<Rightarrow> b2 | (Some c, b2) \<Rightarrow> publish_send c e b2))"

definition Subscribe :: "string \<Rightarrow> EventHandler \<Rightarrow> EventBusImpl \<Rightarrow> EventBusImpl" where
  "Subscribe resourceType handler b =
     b\<lparr>eb_typeSubs := mput (eb_typeSubs b) resourceType (mget_or [] (eb_typeSubs b) resourceType @ [handler])\<rparr>"

fun remove_code :: "nat \<Rightarrow> EventHandler list \<Rightarrow> EventHandler list option" where
  "remove_code p [] = None"
| "remove_code p (h # hs) =
     (if eh_code h = p then Some hs else map_option (Cons h) (remove_code p hs))"

definition Unsubscribe :: "string \<Rightarrow> EventHandler \<Rightarrow> EventBusImpl \<Rightarrow> EventBusImpl" where
  "Unsubscribe resourceType handler b =
     (case remove_code (eh_code handler) (mget_or [] (eb_typeSubs b) resourceType) of
        None \<Rightarrow> b
      | Some hs \<Rightarrow> b\<lparr>eb_typeSubs := mput (eb_typeSubs b) resourceType hs\<rparr>)"

text \<open>One turn of the worker of channel \<open>c\<close>: the handlers are those subscribed at that moment, called
  in order; a panic in one of them is recovered and does not keep the next from being called.\<close>

definition worker_turn :: "nat \<Rightarrow> EventBusImpl \<Rightarrow> EventBusImpl" where
  "worker_turn c b =
     (let ch = eb_chans b ! c in
      case cn_buf ch of
        [] \<Rightarrow> b
      | event # rest \<Rightarrow>
          b\<lparr>eb_chans := (eb_chans b)[c := ch\<lparr>cn_buf := rest\<rparr>],
            eb_delivered := eb_delivered b @ [(event, mget_or [] (eb_typeSubs b) (cn_type ch))]\<rparr>)"

text \<open>The parts of \<open>Close\<close>.\<close>

definition close_begin :: "EventBusImpl \<Rightarrow> EventBusImpl" where
  "close_begin b = b\<lparr>eb_closed := True\<rparr>"

definition close_stop :: "EventBusImpl \<Rightarrow> EventBusImpl" where
  "close_stop b = b\<lparr>eb_stopped := True\<rparr>"

definition close_queues :: "EventBusImpl \<Rightarrow> EventBusImpl" where
  "close_queues b = b\<lparr>eb_chans := fold (\<lambda>(t, c) cs. cs[c := (cs ! c)\<lparr>cn_closed := True\<rparr>]) (eb_queues b) (eb_chans b),
     eb_queues := []\<rparr>"

definition workers_done :: "EventBusImpl \<Rightarrow> bool" where
  "workers_done b \<longleftrightarrow> list_all (\<lambda>ch. cn_closed ch \<and> cn_buf ch = []) (eb_chans b)"

definition close_clear :: "EventBusImpl \<Rightarrow> EventBusImpl" where
  "close_clear b = b\<lparr>eb_typeSubs := []\<rparr>"

definition Seq :: "EventBusImpl \<Rightarrow> int" where
  "Seq b = eb_seq b"

section \<open>Interleavings\<close>

text \<open>
  A configuration is the bus, the calls of \<open>Publish\<close> under way and how far \<open>Close\<close> has come
  (0 not called, 5 returned).
\<close>

datatype publisher = PubQueue GenericEvent | PubSend GenericEvent nat

record bus_conf =
  bc_bus :: EventBusImpl
  bc_pubs :: "publisher list"
  bc_close :: nat

definition remove_nth :: "nat \<Rightarrow> 'a list \<Rightarrow> 'a list" where
  "remove_nth i xs = take i xs @ drop (Suc i) xs"

definition conf_init :: bus_conf where
  "conf_init = \<lparr>bc_bus = NewEventBus, bc_pubs = [], bc_close = 0\<rparr>"

inductive bus_step :: "bus_conf \<Rightarrow> bus_conf \<Rightarrow> bool" where
  step_begin: "publish_begin ev (bc_bus k) = (r, b) \<Longrightarrow>
     bus_step k (k\<lparr>bc_bus := b, bc_pubs := bc_pubs k @ (case r of None \<Rightarrow> [] | Some e \<Rightarrow> [PubQueue e])\<rparr>)"
| step_queue: "i < length (bc_pubs k) \<Longrightarrow> bc_pubs k ! i = PubQueue e \<Longrightarrow> publish_queue e (bc_bus k) = (r, b) \<Longrightarrow>
     bus_step k (k\<lparr>bc_bus := b, bc_pubs := (case r of None \<Rightarrow> remove_nth i (bc_pubs k)
       | Some c \<Rightarrow> (bc_pubs k)[i := PubSend e c])\<rparr>)"
| step_send: "i < length (bc_pubs k) \<Longrightarrow> bc_pubs k ! i = PubSend e c \<Longrightarrow>
     bus_step k (k\<lparr>bc_bus := publish_send c e (bc_bus k), bc_pubs := remove_nth i (bc_pubs k)\<rparr>)"
| step_subscribe: "bus_step k (k\<lparr>bc_bus := Subscribe t h (bc_bus k)\<rparr>)"
| step_unsubscribe: "bus_step k (k\<lparr>bc_bus := Unsubscribe t h (bc_bus k)\<rparr>)"
| step_worker: "c < length (eb_chans (bc_bus k)) \<Longrightarrow> bus_step k (k\<lparr>bc_bus := worker_turn c (bc_bus k)\<rparr>)"
| step_close_begin: "bc_close k = 0 \<Longrightarrow> bus_step k (k\<lparr>bc_bus := close_begin (bc_bus k), bc_close := 1\<rparr>)"
| step_close_stop: "bc_close k = 1 \<Longrightarrow> bus_step k (k\<lparr>bc_bus := close_stop (bc_bus k), bc_close := 2\<rparr>)"
| step_close_queues: "bc_close k = 2 \<Longrightarrow> bus_step k (k\<lparr>bc_bus := close_queues (bc_bus k), bc_close := 3\<rparr>)"
| step_close_wait: "bc_close k = 3 \<Longrightarrow> workers_done (bc_bus k) \<Longrightarrow> bus_step k (k\<lparr>bc_close := 4\<rparr>)"
| step_close_clear: "bc_close k = 4 \<Longrightarrow> bus_step k (k\<lparr>bc_bus := close_clear (bc_bus k), bc_close := 5\<rparr>)"

inductive bus_reach :: "bus_conf \<Rightarrow> bool" where
  reach_init: "bus_reach conf_init"
| reach_step: "bus_reach k \<Longrightarrow> bus_step k k' \<Longrightarrow> bus_reach k'"

section \<open>Invariant\<close>

definition acc :: "string \<Rightarrow> EventBusImpl \<Rightarrow> GenericEvent list" where
  "acc t b = filter (\<lambda>e. ev_type e = t) (eb_accepted b)"

definition del :: "string \<Rightarrow> EventBusImpl \<Rightarrow> GenericEvent list" where
  "del t b = filter (\<lambda>e. ev_type e = t) (map fst (eb_delivered b))"

definition queued :: "string \<Rightarrow> EventBusImpl \<Rightarrow> GenericEvent list" where
  "queued t b = concat (map cn_buf (filter (\<lambda>ch. cn_type ch = t) (eb_chans b)))"

definition chans_ok :: "EventBusImpl \<Rightarrow> bool" where
  "chans_ok b \<longleftrightarrow> distinct (map cn_type (eb_chans b)) \<and> wf_map (eb_queues b) \<and>
     (\<forall>ch \<in> set (eb_chans b). length (cn_buf ch) \<le> queueCap \<and> (\<forall>e \<in> set (cn_buf ch). ev_type e = cn_type ch)) \<and>
     (\<forall>t c. mget (eb_queues b) t = Some c \<longrightarrow> c < length (eb_chans b) \<and> cn_type (eb_chans b ! c) = t)"

definition open_ok :: "EventBusImpl \<Rightarrow> bool" where
  "open_ok b \<longleftrightarrow> (\<forall>c < length (eb_chans b). cn_closed (eb_chans b ! c) \<or>
     mget (eb_queues b) (cn_type (eb_chans b ! c)) = Some c) \<and>
     (\<not> eb_stopped b \<longrightarrow> (\<forall>ch \<in> set (eb_chans b). \<not> cn_closed ch))"

definition fifo :: "EventBusImpl \<Rightarrow> bool" where
  "fifo b \<longleftrightarrow> (\<forall>t. acc t b = del t b @ queued t b)"

definition bus_inv :: "EventBusImpl \<Rightarrow> bool" where
  "bus_inv b \<longleftrightarrow> chans_ok b \<and> open_ok b \<and> fifo b"

definition pub_ok :: "EventBusImpl \<Rightarrow> publisher \<Rightarrow> bool" where
  "pub_ok b p \<longleftrightarrow> (case p of PubQueue e \<Rightarrow> True
     | PubSend e c \<Rightarrow> c < length (eb_chans b) \<and> cn_type (eb_chans b ! c) = ev_type e)"

section \<open>Lemmas\<close>

declare map_of_eq_Some_iff [simp del]

lemma filter_key_nth: "distinct (map f xs) \<Longrightarrow> i < length xs \<Longrightarrow> filter (\<lambda>x. f x = f (xs ! i)) xs = [xs ! i]"
proof (induction xs arbitrary: i)
  case (Cons x xs)
  show ?case
  proof (cases i)
    case 0
    have "\<forall>y \<in> set xs. f y \<noteq> f x" using Cons.prems(1) by (force simp: image_iff)
    then have "filter (\<lambda>y. f y = f x) xs = []" by (simp add: filter_empty_conv)
    then show ?thesis using 0 by simp
  next
    case (Suc j)
    then have "f x \<noteq> f (xs ! j)" using Cons.prems by (metis distinct.simps(2) length_Cons list.map(2)
        length_map not_less_eq nth_map nth_mem)
    then show ?thesis using Suc Cons by simp
  qed
qed simp

lemma filter_update_other: "\<not> P x \<Longrightarrow> i < length xs \<Longrightarrow> \<not> P (xs ! i) \<Longrightarrow> filter P (xs[i := x]) = filter P xs"
proof (induction xs arbitrary: i)
  case (Cons y ys)
  then show ?case by (cases i) auto
qed simp

lemma map_same_update: "f x = f (xs ! i) \<Longrightarrow> map f (xs[i := x]) = map f xs"
  by (metis list_update_id map_update)

lemma queued_own:
  assumes "chans_ok b" "c < length (eb_chans b)"
  shows "queued (cn_type (eb_chans b ! c)) b = cn_buf (eb_chans b ! c)"
  using filter_key_nth [of cn_type "eb_chans b" c] assms by (simp add: queued_def chans_ok_def)

lemma queued_update:
  assumes "chans_ok b" "c < length (eb_chans b)" "cn_type ch = cn_type (eb_chans b ! c)"
    "eb_chans b' = (eb_chans b)[c := ch]"
  shows "queued t b' = (if t = cn_type ch then cn_buf ch else queued t b)"
proof (cases "t = cn_type ch")
  case True
  have "distinct (map cn_type (eb_chans b'))"
    using assms by (simp add: chans_ok_def map_same_update)
  from filter_key_nth [OF this, of c] show ?thesis using assms True by (simp add: queued_def)
next
  case False
  then have "filter (\<lambda>x. cn_type x = t) (eb_chans b') = filter (\<lambda>x. cn_type x = t) (eb_chans b)"
    using assms by (simp add: filter_update_other)
  with False show ?thesis by (simp add: queued_def)
qed

lemma chans_ok_update:
  assumes "chans_ok b" "c < length (eb_chans b)" "cn_type ch = cn_type (eb_chans b ! c)"
    "eb_chans b' = (eb_chans b)[c := ch]" "eb_queues b' = eb_queues b"
    "length (cn_buf ch) \<le> queueCap" "\<forall>e \<in> set (cn_buf ch). ev_type e = cn_type ch"
  shows "chans_ok b'"
proof -
  have "x = ch \<or> x \<in> set (eb_chans b)" if "x \<in> set (eb_chans b')" for x
    using that assms(4) set_update_subset_insert [of "eb_chans b" c ch] by auto
  then show ?thesis
    using assms unfolding chans_ok_def by (fastforce simp: map_same_update nth_list_update)
qed

lemma open_ok_update:
  assumes "open_ok b" "c < length (eb_chans b)" "cn_type ch = cn_type (eb_chans b ! c)"
    "cn_closed ch = cn_closed (eb_chans b ! c)"
    "eb_chans b' = (eb_chans b)[c := ch]" "eb_queues b' = eb_queues b" "eb_stopped b' = eb_stopped b"
  shows "open_ok b'"
proof -
  have len: "length (eb_chans b') = length (eb_chans b)" by (simp add: assms(5))
  have nth: "cn_type (eb_chans b' ! i) = cn_type (eb_chans b ! i) \<and> cn_closed (eb_chans b' ! i) = cn_closed (eb_chans b ! i)"
    if "i < length (eb_chans b)" for i
    using that assms(2-5) by (cases "i = c") simp_all
  show ?thesis using assms(1) nth unfolding open_ok_def assms(6,7) all_set_conv_all_nth len by simp
qed

lemma bus_inv_New: "bus_inv NewEventBus"
  by (simp add: bus_inv_def chans_ok_def open_ok_def fifo_def acc_def del_def queued_def NewEventBus_def)

text \<open>Operations that leave the channels and the histories alone keep the invariant.\<close>

lemma bus_inv_frame:
  assumes "bus_inv b" "eb_chans b' = eb_chans b" "eb_queues b' = eb_queues b" "eb_stopped b' = eb_stopped b"
    "eb_accepted b' = eb_accepted b" "eb_delivered b' = eb_delivered b"
  shows "bus_inv b'"
  using assms by (simp add: bus_inv_def chans_ok_def open_ok_def fifo_def acc_def del_def queued_def)

lemma Subscribe_frame [simp]:
  "eb_chans (Subscribe t h b) = eb_chans b" "eb_queues (Subscribe t h b) = eb_queues b"
  "eb_stopped (Subscribe t h b) = eb_stopped b" "eb_accepted (Subscribe t h b) = eb_accepted b"
  "eb_delivered (Subscribe t h b) = eb_delivered b" "eb_seq (Subscribe t h b) = eb_seq b"
  by (simp_all add: Subscribe_def)

lemma Unsubscribe_frame [simp]:
  "eb_chans (Unsubscribe t h b) = eb_chans b" "eb_queues (Unsubscribe t h b) = eb_queues b"
  "eb_stopped (Unsubscribe t h b) = eb_stopped b" "eb_accepted (Unsubscribe t h b) = eb_accepted b"
  "eb_delivered (Unsubscribe t h b) = eb_delivered b" "eb_seq (Unsubscribe t h b) = eb_seq b"
  by (simp_all add: Unsubscribe_def split: option.splits)

lemma publish_begin_frame:
  assumes "publish_begin ev b = (r, b')"
  shows "eb_chans b' = eb_chans b" "eb_queues b' = eb_queues b" "eb_stopped b' = eb_stopped b"
    "eb_accepted b' = eb_accepted b" "eb_delivered b' = eb_delivered b"
    "r = Some e \<Longrightarrow> ev_type e = ev_type ev \<and> ev_Sequence e = wrap64 (eb_seq b + 1) \<and> eb_seq b' = wrap64 (eb_seq b + 1)"
  using assms by (auto simp: publish_begin_def Let_def split: if_splits)

lemma bus_inv_Subscribe: "bus_inv b \<Longrightarrow> bus_inv (Subscribe t h b)"
  by (erule bus_inv_frame) simp_all

lemma bus_inv_Unsubscribe: "bus_inv b \<Longrightarrow> bus_inv (Unsubscribe t h b)"
  by (erule bus_inv_frame) simp_all

lemma bus_inv_publish_begin: "publish_begin ev b = (r, b') \<Longrightarrow> bus_inv b \<Longrightarrow> bus_inv b'"
  by (erule bus_inv_frame) (simp_all add: publish_begin_frame)

lemma bus_inv_publish_queue:
  assumes "bus_inv b" "publish_queue e b = (r, b')"
  shows "bus_inv b'" "r = Some c \<Longrightarrow> pub_ok b' (PubSend e c)"
    "length (eb_chans b) \<le> length (eb_chans b')"
    "i < length (eb_chans b) \<Longrightarrow> cn_type (eb_chans b' ! i) = cn_type (eb_chans b ! i)"
proof -
  show "bus_inv b'"
  proof (cases "mget (eb_queues b) (ev_type e) = None \<and> \<not> eb_stopped b")
    case True
    then have b': "b' = b\<lparr>eb_chans := eb_chans b @ [\<lparr>cn_type = ev_type e, cn_buf = [], cn_closed = False\<rparr>],
        eb_queues := mput (eb_queues b) (ev_type e) (length (eb_chans b))\<rparr>"
      using assms(2) by (simp add: publish_queue_def Let_def)
    have new: "ev_type e \<noteq> cn_type ch" if "ch \<in> set (eb_chans b)" for ch
      using that True assms(1) unfolding bus_inv_def open_ok_def by (metis in_set_conv_nth option.distinct(1))
    have "chans_ok b'"
      using assms(1) new by (auto simp: b' bus_inv_def chans_ok_def nth_append less_SucI)
    moreover have "open_ok b'"
      using assms(1) True new by (auto simp: b' bus_inv_def open_ok_def nth_append less_Suc_eq)
    moreover have "fifo b'"
      using assms(1) by (simp add: b' bus_inv_def fifo_def acc_def del_def queued_def)
    ultimately show ?thesis by (simp add: bus_inv_def)
  next
    case False
    then have "b' = b" using assms(2) by (auto simp: publish_queue_def Let_def split: option.splits if_splits)
    then show ?thesis using assms(1) by simp
  qed
  show "r = Some c \<Longrightarrow> pub_ok b' (PubSend e c)"
    using assms by (auto simp: publish_queue_def pub_ok_def bus_inv_def chans_ok_def Let_def split: option.splits if_splits)
  show "length (eb_chans b) \<le> length (eb_chans b')"
    "i < length (eb_chans b) \<Longrightarrow> cn_type (eb_chans b' ! i) = cn_type (eb_chans b ! i)"
    using assms(2) by (auto simp: publish_queue_def Let_def nth_append split: option.splits if_splits)
qed

lemma publish_send_cases:
  obtains (dropped) "publish_send c e b = b"
  | (sent) ch where "ch = (eb_chans b ! c)\<lparr>cn_buf := cn_buf (eb_chans b ! c) @ [e]\<rparr>"
      "\<not> cn_closed (eb_chans b ! c)" "length (cn_buf (eb_chans b ! c)) < queueCap"
      "publish_send c e b = b\<lparr>eb_chans := (eb_chans b)[c := ch], eb_accepted := eb_accepted b @ [e]\<rparr>"
  by (cases "cn_closed (eb_chans b ! c) \<or> queueCap \<le> length (cn_buf (eb_chans b ! c))")
    (auto simp: publish_send_def Let_def)

lemma bus_inv_publish_send:
  assumes "bus_inv b" "pub_ok b (PubSend e c)"
  shows "bus_inv (publish_send c e b)"
proof (cases rule: publish_send_cases [of c e b])
  case dropped
  then show ?thesis using assms(1) by simp
next
  case (sent ch)
  have c: "c < length (eb_chans b)" and t: "cn_type (eb_chans b ! c) = ev_type e"
    using assms(2) by (simp_all add: pub_ok_def)
  let ?b = "publish_send c e b"
  have chans: "eb_chans ?b = (eb_chans b)[c := ch]" "eb_queues ?b = eb_queues b" "eb_stopped ?b = eb_stopped b"
    "eb_accepted ?b = eb_accepted b @ [e]" "eb_delivered ?b = eb_delivered b"
    by (simp_all add: sent(4))
  have ok: "chans_ok b" "open_ok b" "fifo b" using assms(1) by (simp_all add: bus_inv_def)
  have "\<forall>x \<in> set (cn_buf (eb_chans b ! c)). ev_type x = ev_type e"
    using ok(1) c t by (metis chans_ok_def nth_mem)
  then have "chans_ok ?b" using sent(1,3) t c by (intro chans_ok_update [OF ok(1) c _ chans(1,2)]) simp_all
  moreover have "open_ok ?b" using sent(1) by (intro open_ok_update [OF ok(2) c _ _ chans(1-3)]) simp_all
  moreover have "queued t' ?b = (if t' = ev_type e then queued t' b @ [e] else queued t' b)" for t'
    using queued_update [OF ok(1) c _ chans(1), of t'] queued_own [OF ok(1) c] sent(1) t by simp
  then have "fifo ?b" using ok(3) by (simp add: fifo_def acc_def del_def chans)
  ultimately show ?thesis by (simp add: bus_inv_def)
qed

lemma bus_inv_worker_turn:
  assumes "bus_inv b" "c < length (eb_chans b)"
  shows "bus_inv (worker_turn c b)"
proof (cases "cn_buf (eb_chans b ! c)")
  case Nil
  then show ?thesis using assms(1) by (simp add: worker_turn_def)
next
  case (Cons e rest)
  let ?b = "worker_turn c b" and ?ch = "(eb_chans b ! c)\<lparr>cn_buf := rest\<rparr>"
  have chans: "eb_chans ?b = (eb_chans b)[c := ?ch]" "eb_queues ?b = eb_queues b" "eb_stopped ?b = eb_stopped b"
    "eb_accepted ?b = eb_accepted b" "map fst (eb_delivered ?b) = map fst (eb_delivered b) @ [e]"
    using Cons by (simp_all add: worker_turn_def Let_def)
  have ok: "chans_ok b" "open_ok b" "fifo b" using assms(1) by (simp_all add: bus_inv_def)
  have buf: "\<forall>x \<in> set (e # rest). ev_type x = cn_type (eb_chans b ! c)" "length (e # rest) \<le> queueCap"
    using ok(1) assms(2) Cons by (metis chans_ok_def nth_mem)+
  have "chans_ok ?b" using buf by (intro chans_ok_update [OF ok(1) assms(2) _ chans(1,2)]) simp_all
  moreover have "open_ok ?b" by (intro open_ok_update [OF ok(2) assms(2) _ _ chans(1-3)]) simp_all
  moreover have "fifo ?b"
    unfolding fifo_def
  proof
    fix t
    have old: "acc t b = del t b @ queued t b" using ok(3) by (simp add: fifo_def)
    show "acc t ?b = del t ?b @ queued t ?b"
      using queued_update [OF ok(1) assms(2) _ chans(1), of t] queued_own [OF ok(1) assms(2)] buf(1) old Cons
      by (auto simp: acc_def del_def chans)
  qed
  ultimately show ?thesis by (simp add: bus_inv_def)
qed

lemma fold_close_chans:
  fixes qs :: "(string, nat) gomap"
  defines "f \<equiv> \<lambda>(t :: string, c) cs. cs[c := (cs ! c)\<lparr>cn_closed := True\<rparr>]"
  assumes "\<forall>(t, c) \<in> set qs. c < length cs"
  shows "length (fold f qs cs) = length cs \<and> map cn_type (fold f qs cs) = map cn_type cs \<and>
    map cn_buf (fold f qs cs) = map cn_buf cs \<and>
    (\<forall>i < length cs. cn_closed (fold f qs cs ! i) \<longleftrightarrow> cn_closed (cs ! i) \<or> i \<in> snd ` set qs)"
  using assms(2)
proof (induction qs arbitrary: cs)
  case (Cons q qs)
  obtain t c where q: "q = (t, c)" by (cases q)
  let ?cs = "cs[c := (cs ! c)\<lparr>cn_closed := True\<rparr>]"
  from Cons.prems q have "\<forall>(t, c) \<in> set qs. c < length ?cs" "c < length cs" by auto
  from Cons.IH [OF this(1)] this(2) show ?case
    by (auto simp: q f_def map_same_update nth_list_update)
qed simp

lemma bus_inv_close_queues:
  assumes "bus_inv b" "eb_stopped b"
  shows "bus_inv (close_queues b)" "\<forall>ch \<in> set (eb_chans (close_queues b)). cn_closed ch"
    "length (eb_chans (close_queues b)) = length (eb_chans b)"
    "map cn_type (eb_chans (close_queues b)) = map cn_type (eb_chans b)"
proof -
  have ok: "chans_ok b" "open_ok b" "fifo b" using assms(1) by (simp_all add: bus_inv_def)
  let ?cs = "eb_chans (close_queues b)"
  have "\<forall>(t, c) \<in> set (eb_queues b). c < length (eb_chans b)"
    using ok(1) by (auto simp: chans_ok_def map_of_eq_Some_iff)
  from fold_close_chans [OF this]
  have len: "length ?cs = length (eb_chans b)" and ty: "map cn_type ?cs = map cn_type (eb_chans b)"
    and buf: "map cn_buf ?cs = map cn_buf (eb_chans b)"
    and cl: "\<forall>i < length (eb_chans b). cn_closed (?cs ! i) \<longleftrightarrow> cn_closed (eb_chans b ! i) \<or> i \<in> snd ` set (eb_queues b)"
    by (simp_all add: close_queues_def)
  show "length ?cs = length (eb_chans b)" "map cn_type ?cs = map cn_type (eb_chans b)" by (fact len, fact ty)
  show closed: "\<forall>ch \<in> set ?cs. cn_closed ch"
    unfolding all_set_conv_all_nth
  proof (intro allI impI)
    fix i assume i: "i < length ?cs"
    have "cn_closed (eb_chans b ! i) \<or> mget (eb_queues b) (cn_type (eb_chans b ! i)) = Some i"
      using ok(2) i len by (simp add: open_ok_def)
    then show "cn_closed (?cs ! i)" using cl i len by (force dest: map_of_SomeD)
  qed
  have nth: "cn_type (?cs ! i) = cn_type (eb_chans b ! i)" "cn_buf (?cs ! i) = cn_buf (eb_chans b ! i)"
    if "i < length ?cs" for i
    using arg_cong [OF ty, of "\<lambda>xs. xs ! i"] arg_cong [OF buf, of "\<lambda>xs. xs ! i"] that len by simp_all
  have "chans_ok (close_queues b)"
    using ok(1) nth len ty unfolding chans_ok_def all_set_conv_all_nth by (simp add: close_queues_def [of b])
  moreover have "open_ok (close_queues b)"
    using closed assms(2) by (simp add: open_ok_def close_queues_def)
  moreover have "queued t (close_queues b) = queued t b" for t
  proof -
    have q: "queued t b' = concat (map snd (filter (\<lambda>x. fst x = t) (zip (map cn_type (eb_chans b')) (map cn_buf (eb_chans b')))))" for b'
      by (simp add: queued_def zip_map_map zip_same_conv_map filter_map comp_def)
    show ?thesis by (simp only: q ty buf)
  qed
  then have "fifo (close_queues b)" using ok(3) by (simp add: fifo_def acc_def del_def close_queues_def)
  ultimately show "bus_inv (close_queues b)" by (simp add: bus_inv_def)
qed

text \<open>The configuration invariant: it also relates the flags to how far \<open>Close\<close> has come.\<close>

definition conf_inv :: "bus_conf \<Rightarrow> bool" where
  "conf_inv k \<longleftrightarrow> bus_inv (bc_bus k) \<and> list_all (pub_ok (bc_bus k)) (bc_pubs k) \<and>
     (1 \<le> bc_close k \<longrightarrow> eb_closed (bc_bus k)) \<and> (2 \<le> bc_close k \<longrightarrow> eb_stopped (bc_bus k)) \<and>
     (3 \<le> bc_close k \<longrightarrow> eb_queues (bc_bus k) = [] \<and> (\<forall>ch \<in> set (eb_chans (bc_bus k)). cn_closed ch)) \<and>
     (4 \<le> bc_close k \<longrightarrow> workers_done (bc_bus k))"

lemma pub_ok_mono:
  assumes "length (eb_chans b) \<le> length (eb_chans b')"
    "\<And>i. i < length (eb_chans b) \<Longrightarrow> cn_type (eb_chans b' ! i) = cn_type (eb_chans b ! i)"
  shows "list_all (pub_ok b) ps \<Longrightarrow> list_all (pub_ok b') ps"
  using assms by (auto simp: list_all_iff pub_ok_def split: publisher.splits)

lemma list_all_remove_nth: "list_all P xs \<Longrightarrow> list_all P (remove_nth i xs)"
  by (auto simp: remove_nth_def list_all_iff dest: in_set_takeD in_set_dropD)

lemma list_all_update: "list_all P xs \<Longrightarrow> P x \<Longrightarrow> list_all P (xs[i := x])"
  using set_update_subset_insert [of xs i x] by (auto simp: list_all_iff)

lemma publish_send_closed: "\<forall>ch \<in> set (eb_chans b). cn_closed ch \<Longrightarrow> c < length (eb_chans b) \<Longrightarrow> publish_send c e b = b"
  by (simp add: publish_send_def)

lemma publish_send_frame [simp]:
  "eb_closed (publish_send c e b) = eb_closed b" "eb_stopped (publish_send c e b) = eb_stopped b"
  "eb_queues (publish_send c e b) = eb_queues b" "eb_seq (publish_send c e b) = eb_seq b"
  "length (eb_chans (publish_send c e b)) = length (eb_chans b)"
  "map cn_type (eb_chans (publish_send c e b)) = map cn_type (eb_chans b)"
  by (simp_all add: publish_send_def Let_def map_same_update)

lemma worker_turn_frame [simp]:
  "eb_closed (worker_turn c b) = eb_closed b" "eb_stopped (worker_turn c b) = eb_stopped b"
  "eb_queues (worker_turn c b) = eb_queues b" "eb_seq (worker_turn c b) = eb_seq b"
  "length (eb_chans (worker_turn c b)) = length (eb_chans b)"
  "map cn_type (eb_chans (worker_turn c b)) = map cn_type (eb_chans b)"
  "map cn_closed (eb_chans (worker_turn c b)) = map cn_closed (eb_chans b)"
  by (simp_all add: worker_turn_def Let_def map_same_update split: list.splits)

lemma nth_of_map: "map f xs = map f ys \<Longrightarrow> i < length ys \<Longrightarrow> f (xs ! i) = f (ys ! i)"
  by (metis length_map nth_map)

lemma pub_ok_same_types:
  assumes "map cn_type (eb_chans b') = map cn_type (eb_chans b)"
  shows "pub_ok b' = pub_ok b"
proof -
  have "length (eb_chans b') = length (eb_chans b)" using assms by (metis length_map)
  then show ?thesis using nth_of_map [OF assms] by (auto simp: pub_ok_def fun_eq_iff split: publisher.split)
qed

lemma conf_inv_begin:
  assumes "conf_inv k" "publish_begin ev (bc_bus k) = (r, b)"
  shows "conf_inv (k\<lparr>bc_bus := b, bc_pubs := bc_pubs k @ (case r of None \<Rightarrow> [] | Some e \<Rightarrow> [PubQueue e])\<rparr>)"
proof -
  note fr = publish_begin_frame [OF assms(2)]
  have "pub_ok b = pub_ok (bc_bus k)" by (rule pub_ok_same_types) (simp add: fr)
  moreover have "eb_closed b = eb_closed (bc_bus k)"
    using assms(2) by (auto simp: publish_begin_def Let_def split: if_splits)
  ultimately show ?thesis
    using assms(1) bus_inv_publish_begin [OF assms(2)] fr
    by (auto simp: conf_inv_def workers_done_def pub_ok_def split: option.splits)
qed

lemma conf_inv_queue:
  assumes "conf_inv k" "i < length (bc_pubs k)" "publish_queue e (bc_bus k) = (r, b)"
  shows "conf_inv (k\<lparr>bc_bus := b, bc_pubs := (case r of None \<Rightarrow> remove_nth i (bc_pubs k)
       | Some c \<Rightarrow> (bc_pubs k)[i := PubSend e c])\<rparr>)"
proof -
  have inv: "bus_inv (bc_bus k)" and ps: "list_all (pub_ok (bc_bus k)) (bc_pubs k)"
    using assms(1) by (simp_all add: conf_inv_def)
  note q = bus_inv_publish_queue [OF inv assms(3)]
  have "list_all (pub_ok b) (bc_pubs k)" by (rule pub_ok_mono [OF q(3,4) ps])
  then have "list_all (pub_ok b) (case r of None \<Rightarrow> remove_nth i (bc_pubs k) | Some c \<Rightarrow> (bc_pubs k)[i := PubSend e c])"
    using q(2) by (simp add: list_all_remove_nth list_all_update split: option.split)
  moreover have "eb_closed b = eb_closed (bc_bus k)" "eb_stopped b = eb_stopped (bc_bus k)"
    "eb_stopped (bc_bus k) \<Longrightarrow> eb_queues (bc_bus k) = [] \<Longrightarrow> b = bc_bus k"
    using assms(3) by (auto simp: publish_queue_def Let_def split: option.splits if_splits)
  ultimately show ?thesis using assms(1) q(1) by (auto simp: conf_inv_def)
qed

lemma conf_inv_send:
  assumes "conf_inv k" "i < length (bc_pubs k)" "bc_pubs k ! i = PubSend e c"
  shows "conf_inv (k\<lparr>bc_bus := publish_send c e (bc_bus k), bc_pubs := remove_nth i (bc_pubs k)\<rparr>)"
proof -
  have ok: "pub_ok (bc_bus k) (PubSend e c)"
    using assms by (metis conf_inv_def list_all_length)
  then have c: "c < length (eb_chans (bc_bus k))" by (simp add: pub_ok_def)
  have "pub_ok (publish_send c e (bc_bus k)) = pub_ok (bc_bus k)" by (rule pub_ok_same_types) simp
  then show ?thesis
    using assms(1) bus_inv_publish_send [OF _ ok] publish_send_closed [OF _ c]
    by (cases "3 \<le> bc_close k") (auto simp: conf_inv_def list_all_remove_nth)
qed

lemma conf_inv_worker:
  assumes "conf_inv k" "c < length (eb_chans (bc_bus k))"
  shows "conf_inv (k\<lparr>bc_bus := worker_turn c (bc_bus k)\<rparr>)"
proof -
  let ?b = "worker_turn c (bc_bus k)"
  have "pub_ok ?b = pub_ok (bc_bus k)" by (rule pub_ok_same_types) simp
  moreover have "cn_closed ` set (eb_chans ?b) = cn_closed ` set (eb_chans (bc_bus k))"
    by (metis list.set_map worker_turn_frame(7))
  then have "(\<forall>ch \<in> set (eb_chans (bc_bus k)). cn_closed ch) \<Longrightarrow> (\<forall>ch \<in> set (eb_chans ?b). cn_closed ch)"
    by (metis (mono_tags, lifting) image_iff)
  moreover have "workers_done (bc_bus k) \<Longrightarrow> ?b = bc_bus k"
    using assms(2) by (simp add: workers_done_def worker_turn_def list_all_length)
  ultimately show ?thesis
    using assms(1) bus_inv_worker_turn [OF _ assms(2)] by (auto simp: conf_inv_def)
qed

lemma conf_inv_close:
  assumes "conf_inv k"
  shows "bc_close k = 0 \<Longrightarrow> conf_inv (k\<lparr>bc_bus := close_begin (bc_bus k), bc_close := 1\<rparr>)"
    and "bc_close k = 1 \<Longrightarrow> conf_inv (k\<lparr>bc_bus := close_stop (bc_bus k), bc_close := 2\<rparr>)"
    and "bc_close k = 2 \<Longrightarrow> conf_inv (k\<lparr>bc_bus := close_queues (bc_bus k), bc_close := 3\<rparr>)"
    and "bc_close k = 3 \<Longrightarrow> workers_done (bc_bus k) \<Longrightarrow> conf_inv (k\<lparr>bc_close := 4\<rparr>)"
    and "bc_close k = 4 \<Longrightarrow> conf_inv (k\<lparr>bc_bus := close_clear (bc_bus k), bc_close := 5\<rparr>)"
proof -
  have inv: "bus_inv (bc_bus k)" and ps: "list_all (pub_ok (bc_bus k)) (bc_pubs k)"
    using assms by (simp_all add: conf_inv_def)
  show "conf_inv (k\<lparr>bc_bus := close_begin (bc_bus k), bc_close := 1\<rparr>)" if "bc_close k = 0"
    using bus_inv_frame [OF inv, of "close_begin (bc_bus k)"] ps pub_ok_same_types [of "close_begin (bc_bus k)" "bc_bus k"]
    by (simp add: conf_inv_def close_begin_def)
  show "conf_inv (k\<lparr>bc_bus := close_stop (bc_bus k), bc_close := 2\<rparr>)" if "bc_close k = 1"
  proof -
    have "bus_inv (close_stop (bc_bus k))"
      using inv by (simp add: close_stop_def bus_inv_def chans_ok_def open_ok_def fifo_def acc_def del_def queued_def)
    then show ?thesis using that assms pub_ok_same_types [of "close_stop (bc_bus k)" "bc_bus k"]
      by (simp add: conf_inv_def close_stop_def)
  qed
  show "conf_inv (k\<lparr>bc_bus := close_queues (bc_bus k), bc_close := 3\<rparr>)" if "bc_close k = 2"
  proof -
    have st: "eb_stopped (bc_bus k)" using that assms by (simp add: conf_inv_def)
    note q = bus_inv_close_queues [OF inv st]
    show ?thesis using that assms q pub_ok_same_types [OF q(4)] by (simp add: conf_inv_def close_queues_def [of "bc_bus k"])
  qed
  show "conf_inv (k\<lparr>bc_close := 4\<rparr>)" if "bc_close k = 3" "workers_done (bc_bus k)"
    using that assms by (simp add: conf_inv_def)
  show "conf_inv (k\<lparr>bc_bus := close_clear (bc_bus k), bc_close := 5\<rparr>)" if "bc_close k = 4"
    using that assms bus_inv_frame [OF inv, of "close_clear (bc_bus k)"]
      pub_ok_same_types [of "close_clear (bc_bus k)" "bc_bus k"]
    by (simp add: conf_inv_def close_clear_def workers_done_def)
qed

lemma conf_inv_subs:
  assumes "conf_inv k" "bus_inv b" "eb_chans b = eb_chans (bc_bus k)" "eb_queues b = eb_queues (bc_bus k)"
    "eb_stopped b = eb_stopped (bc_bus k)" "eb_closed b = eb_closed (bc_bus k)"
  shows "conf_inv (k\<lparr>bc_bus := b\<rparr>)"
  using assms pub_ok_same_types [of b "bc_bus k"] by (simp add: conf_inv_def workers_done_def)

lemma conf_inv_step: "bus_step k k' \<Longrightarrow> conf_inv k \<Longrightarrow> conf_inv k'"
proof (induction rule: bus_step.induct)
  case (step_subscribe k t h)
  then show ?case by (intro conf_inv_subs bus_inv_Subscribe) (simp_all add: conf_inv_def Subscribe_def)
next
  case (step_unsubscribe k t h)
  then show ?case
    by (intro conf_inv_subs bus_inv_Unsubscribe) (simp_all add: conf_inv_def Unsubscribe_def split: option.split)
qed (simp_all only: conf_inv_begin conf_inv_queue conf_inv_send conf_inv_worker conf_inv_close)

lemma bus_reach_inv: "bus_reach k \<Longrightarrow> conf_inv k"
proof (induction rule: bus_reach.induct)
  case reach_init
  then show ?case by (simp add: conf_inv_def conf_init_def bus_inv_New)
qed (rule conf_inv_step)

section \<open>Calls one at a time\<close>

text \<open>\<open>Close\<close> waits until every worker has emptied its queue.\<close>

definition drain_chan :: "nat \<Rightarrow> EventBusImpl \<Rightarrow> EventBusImpl" where
  "drain_chan c b = (worker_turn c ^^ length (cn_buf (eb_chans b ! c))) b"

definition bus_Close :: "EventBusImpl \<Rightarrow> EventBusImpl" where
  "bus_Close b = (let b1 = close_queues (close_stop (close_begin b)) in
     close_clear (fold drain_chan [0..<length (eb_chans b1)] b1))"

datatype bus_op =
    BPublish GenericEvent
  | BSubscribe string EventHandler
  | BUnsubscribe string EventHandler
  | BWorker nat

definition bus_apply :: "EventBusImpl \<Rightarrow> bus_op \<Rightarrow> EventBusImpl" where
  "bus_apply b x = (case x of
      BPublish ev \<Rightarrow> Publish ev b
    | BSubscribe t h \<Rightarrow> Subscribe t h b
    | BUnsubscribe t h \<Rightarrow> Unsubscribe t h b
    | BWorker c \<Rightarrow> if c < length (eb_chans b) then worker_turn c b else b)"

definition seq_inv :: "nat \<Rightarrow> EventBusImpl \<Rightarrow> bool" where
  "seq_inv n b \<longleftrightarrow> bus_inv b \<and> 0 \<le> eb_seq b \<and> eb_seq b \<le> int n \<and>
     sorted_wrt (<) (map ev_Sequence (eb_accepted b)) \<and> (\<forall>e \<in> set (eb_accepted b). ev_Sequence e \<le> eb_seq b)"

lemma bus_inv_Publish:
  assumes "bus_inv b"
  shows "bus_inv (Publish ev b)"
proof -
  obtain r b1 where 1: "publish_begin ev b = (r, b1)" by (cases "publish_begin ev b")
  have inv1: "bus_inv b1" by (rule bus_inv_publish_begin [OF 1 assms])
  show ?thesis
  proof (cases r)
    case (Some e)
    obtain q b2 where 2: "publish_queue e b1 = (q, b2)" by (cases "publish_queue e b1")
    note inv2 = bus_inv_publish_queue(1,2) [OF inv1 2]
    show ?thesis using 1 2 Some inv2 bus_inv_publish_send [OF inv2(1)]
      by (cases q) (simp_all add: Publish_def)
  qed (simp add: Publish_def 1 inv1)
qed

lemma publish_queue_frame:
  assumes "publish_queue e b = (r, b')"
  shows "eb_accepted b' = eb_accepted b" "eb_seq b' = eb_seq b" "eb_closed b' = eb_closed b"
    "eb_delivered b' = eb_delivered b" "eb_typeSubs b' = eb_typeSubs b"
  using assms by (auto simp: publish_queue_def Let_def split: option.splits if_splits)

lemma Publish_accepted:
  "Publish ev b = b \<or>
   eb_seq (Publish ev b) = wrap64 (eb_seq b + 1) \<and>
   (eb_accepted (Publish ev b) = eb_accepted b \<or>
    eb_accepted (Publish ev b) = eb_accepted b @ [ev\<lparr>ev_Sequence := wrap64 (eb_seq b + 1)\<rparr>])"
  by (auto simp: Publish_def publish_begin_def publish_send_def Let_def dest: publish_queue_frame
      split: prod.splits option.splits)

lemma seq_inv_step:
  assumes "seq_inv n b" "int n < 2 ^ 63 - 1"
  shows "seq_inv (Suc n) (bus_apply b x)"
proof (cases x)
  case (BPublish ev)
  have inv: "bus_inv (Publish ev b)" using assms(1) by (simp add: seq_inv_def bus_inv_Publish)
  have "wrap64 (eb_seq b + 1) = eb_seq b + 1"
    using assms by (intro wrap64_id) (simp_all add: seq_inv_def)
  moreover have "\<forall>e \<in> set (eb_accepted b). ev_Sequence e \<le> eb_seq b + 1"
    using assms(1) by (force simp: seq_inv_def)
  ultimately show ?thesis using Publish_accepted [of ev b] assms inv
    by (auto simp: BPublish bus_apply_def seq_inv_def sorted_wrt_append)
next
  case (BWorker c)
  have "eb_accepted (worker_turn c b) = eb_accepted b" by (simp add: worker_turn_def Let_def split: list.split)
  then show ?thesis using assms(1) by (auto simp: BWorker bus_apply_def seq_inv_def bus_inv_worker_turn)
qed (use assms(1) in \<open>auto simp: bus_apply_def seq_inv_def bus_inv_Subscribe bus_inv_Unsubscribe\<close>)

lemma seq_inv_run:
  "int (length ops) < 2 ^ 63 \<Longrightarrow> seq_inv (length ops) (foldl bus_apply NewEventBus ops)"
proof (induction ops rule: rev_induct)
  case Nil
  have "seq_inv 0 NewEventBus" using bus_inv_New by (simp add: seq_inv_def) (simp add: NewEventBus_def)
  then show ?case by simp
next
  case (snoc x ops)
  then show ?case using seq_inv_step [of "length ops"] by simp
qed

lemma sorted_map_filter: "sorted_wrt (<) (map f xs) \<Longrightarrow> sorted_wrt (<) (map f (filter P xs))"
  by (induction xs) auto

interpretation bus_ops: invariant_run bus_apply bus_inv "\<lambda>_. True"
  by unfold_locales (auto simp: bus_apply_def bus_inv_Publish bus_inv_Subscribe bus_inv_Unsubscribe
      bus_inv_worker_turn split: bus_op.split)

text \<open>Draining.\<close>

lemma worker_turn_buf:
  "c < length (eb_chans b) \<Longrightarrow>
   map cn_buf (eb_chans (worker_turn c b)) = (map cn_buf (eb_chans b))[c := tl (cn_buf (eb_chans b ! c))]"
  by (simp add: worker_turn_def Let_def map_update split: list.split) (metis list_update_id map_update)

lemma drain_chan_turns:
  assumes "bus_inv b" "c < length (eb_chans b)"
  shows "bus_inv ((worker_turn c ^^ n) b) \<and> length (eb_chans ((worker_turn c ^^ n) b)) = length (eb_chans b) \<and>
     map cn_buf (eb_chans ((worker_turn c ^^ n) b)) = (map cn_buf (eb_chans b))[c := drop n (cn_buf (eb_chans b ! c))]"
proof (induction n)
  case 0
  then show ?case using assms by (simp add: map_update [symmetric])
next
  case (Suc n)
  let ?b = "(worker_turn c ^^ n) b"
  have c: "c < length (eb_chans ?b)" using Suc assms(2) by simp
  have "cn_buf (eb_chans ?b ! c) = drop n (cn_buf (eb_chans b ! c))"
    using Suc assms(2) arg_cong [of _ _ "\<lambda>xs. xs ! c"] by (metis c length_map nth_list_update_eq nth_map)
  then show ?case using Suc c by (simp add: bus_inv_worker_turn worker_turn_buf drop_Suc tl_drop)
qed

lemma drain_chan_buf:
  assumes "bus_inv b" "c < length (eb_chans b)"
  shows "bus_inv (drain_chan c b)" "length (eb_chans (drain_chan c b)) = length (eb_chans b)"
    "map cn_buf (eb_chans (drain_chan c b)) = (map cn_buf (eb_chans b))[c := []]"
  using drain_chan_turns [OF assms, of "length (cn_buf (eb_chans b ! c))"] by (simp_all add: drain_chan_def)

lemma fold_drain:
  assumes "bus_inv b" "n \<le> length (eb_chans b)"
  shows "bus_inv (fold drain_chan [0..<n] b) \<and> length (eb_chans (fold drain_chan [0..<n] b)) = length (eb_chans b) \<and>
     (\<forall>i < n. cn_buf (eb_chans (fold drain_chan [0..<n] b) ! i) = [])"
  using assms(2)
proof (induction n)
  case (Suc n)
  let ?b = "fold drain_chan [0..<n] b"
  have ih: "bus_inv ?b" "length (eb_chans ?b) = length (eb_chans b)" "\<forall>i < n. cn_buf (eb_chans ?b ! i) = []"
    using Suc by simp_all
  have n: "n < length (eb_chans ?b)" using ih(2) Suc.prems by simp
  note d = drain_chan_buf [OF ih(1) n]
  have "cn_buf (eb_chans (drain_chan n ?b) ! i) = []" if "i < Suc n" for i
    using arg_cong [OF d(3), of "\<lambda>xs. xs ! i"] that ih(3) n d(2) by (cases "i = n") simp_all
  with d ih show ?case by simp
qed (simp add: assms(1))

lemma bus_Close_drains:
  assumes "bus_inv b"
  shows "bus_inv (bus_Close b)" "queued t (bus_Close b) = []" "eb_typeSubs (bus_Close b) = []"
proof -
  have "bus_inv (close_begin b)" by (rule bus_inv_frame [OF assms]) (simp_all add: close_begin_def)
  then have "bus_inv (close_stop (close_begin b))"
    by (simp add: close_stop_def bus_inv_def chans_ok_def open_ok_def fifo_def acc_def del_def queued_def)
  from bus_inv_close_queues(1) [OF this]
  have inv: "bus_inv (close_queues (close_stop (close_begin b)))" by (simp add: close_stop_def)
  let ?b1 = "close_queues (close_stop (close_begin b))"
  let ?b2 = "fold drain_chan [0..<length (eb_chans ?b1)] ?b1"
  have d: "bus_inv ?b2" "\<forall>ch \<in> set (eb_chans ?b2). cn_buf ch = []"
    using fold_drain [OF inv order_refl] by (auto simp: in_set_conv_nth)
  show "bus_inv (bus_Close b)" unfolding bus_Close_def Let_def
    by (rule bus_inv_frame [OF d(1)]) (simp_all add: close_clear_def)
  show "queued t (bus_Close b) = []" "eb_typeSubs (bus_Close b) = []"
    using d(2) by (auto simp: bus_Close_def Let_def close_clear_def queued_def concat_eq_Nil_conv)
qed

text \<open>The waiting of \<open>Close\<close> ends: some sequence of worker turns empties the queues.\<close>

definition backlog :: "EventBusImpl \<Rightarrow> nat" where
  "backlog b = sum_list (map length (map cn_buf (eb_chans b)))"

lemma backlog_turn:
  assumes "c < length (eb_chans b)" "cn_buf (eb_chans b ! c) \<noteq> []"
  shows "backlog (worker_turn c b) < backlog b"
proof -
  let ?L = "map cn_buf (eb_chans b)"
  have "?L = take c ?L @ cn_buf (eb_chans b ! c) # drop (Suc c) ?L"
    using assms(1) id_take_nth_drop [of c ?L] by simp
  moreover have "map cn_buf (eb_chans (worker_turn c b)) = take c ?L @ tl (cn_buf (eb_chans b ! c)) # drop (Suc c) ?L"
    using assms(1) worker_turn_buf [OF assms(1)] upd_conv_take_nth_drop [of c ?L] by simp
  ultimately have "backlog b = sum_list (map length (take c ?L)) + length (cn_buf (eb_chans b ! c)) + sum_list (map length (drop (Suc c) ?L))"
    "backlog (worker_turn c b) = sum_list (map length (take c ?L)) + length (tl (cn_buf (eb_chans b ! c))) + sum_list (map length (drop (Suc c) ?L))"
    unfolding backlog_def by (metis (no_types, lifting) add.assoc list.simps(9) map_append sum_list.Cons sum_list_append)+
  then show ?thesis using assms(2) by (cases "cn_buf (eb_chans b ! c)") simp_all
qed

lemma close_wait_ends:
  assumes "bc_close k = 3" "conf_inv k"
  shows "\<exists>k'. bus_step\<^sup>*\<^sup>* k k' \<and> bc_close k' = 4"
  using assms
proof (induction "backlog (bc_bus k)" arbitrary: k rule: less_induct)
  case less
  show ?case
  proof (cases "workers_done (bc_bus k)")
    case True
    from step_close_wait [OF less.prems(1) this] show ?thesis
      by (intro exI [of _ "k\<lparr>bc_close := 4\<rparr>"]) auto
  next
    case False
    then obtain c where c: "c < length (eb_chans (bc_bus k))" "cn_buf (eb_chans (bc_bus k) ! c) \<noteq> []"
      using less.prems by (auto simp: workers_done_def conf_inv_def list_all_length)
    let ?k = "k\<lparr>bc_bus := worker_turn c (bc_bus k)\<rparr>"
    have s: "bus_step k ?k" by (rule step_worker [OF c(1)])
    have "\<exists>k'. bus_step\<^sup>*\<^sup>* ?k k' \<and> bc_close k' = 4"
      using less.hyps [of ?k] backlog_turn [OF c] conf_inv_step [OF s less.prems(2)] less.prems(1) by simp
    then show ?thesis using s by (meson converse_rtranclp_into_rtranclp)
  qed
qed

section \<open>Properties\<close>

text \<open>C5. However the calls of publishers, subscribers, workers and \<open>Close\<close> interleave, each
  resource type is a FIFO: the events that entered its queue are, in order, those its worker has
  already taken followed by those still queued, so none is lost, duplicated or overtaken; and the
  queue never holds more than 256 events.\<close>

theorem event_bus_fifo:
  assumes "bus_reach k"
  shows "acc t (bc_bus k) = del t (bc_bus k) @ queued t (bc_bus k) \<and> length (queued t (bc_bus k)) \<le> 256"
proof -
  have inv: "chans_ok (bc_bus k)" "fifo (bc_bus k)"
    using bus_reach_inv [OF assms] by (simp_all add: conf_inv_def bus_inv_def)
  have "length (queued t (bc_bus k)) \<le> 256"
  proof (cases "\<exists>c < length (eb_chans (bc_bus k)). cn_type (eb_chans (bc_bus k) ! c) = t")
    case True
    then obtain c where c: "c < length (eb_chans (bc_bus k))" "cn_type (eb_chans (bc_bus k) ! c) = t" by blast
    then have "length (cn_buf (eb_chans (bc_bus k) ! c)) \<le> queueCap"
      using inv(1) unfolding chans_ok_def by (metis nth_mem)
    then show ?thesis using queued_own [OF inv(1) c(1)] c(2) by (simp add: queueCap_def)
  next
    case False
    then have "filter (\<lambda>ch. cn_type ch = t) (eb_chans (bc_bus k)) = []"
      by (auto simp: filter_empty_conv in_set_conv_nth)
    then show ?thesis by (simp add: queued_def)
  qed
  with inv(2) show ?thesis by (simp add: fifo_def)
qed

definition sample_event :: "string \<Rightarrow> GenericEvent" where
  "sample_event n = NewGenericEvent '''' 0 \<lparr>rk_Type = ''proxy'', rk_Namespace = ''default'', rk_Name = n\<rparr> ''ADDED'' AnyNil"

definition sample_handler :: EventHandler where
  "sample_handler = \<lparr>eh_code = 1, eh_env = 0\<rparr>"

theorem event_bus_fifo_witness: "bus_reach conf_init \<and> acc ''proxy'' (bc_bus conf_init) = []"
  using event_bus_fifo [OF reach_init, of "''proxy''"] reach_init
  by (simp add: conf_init_def NewEventBus_def acc_def)

text \<open>C30. When calls of \<open>Publish\<close> do not overlap, delivery follows the sequence numbers: in any run
  of publishes, subscriptions and worker turns the events of one type reach its handlers in strictly
  increasing sequence order.\<close>

theorem event_bus_sequence_order:
  assumes "int (length ops) < 2 ^ 63"
  shows "sorted_wrt (<) (map ev_Sequence (del t (foldl bus_apply NewEventBus ops)))"
proof -
  have inv: "seq_inv (length ops) (foldl bus_apply NewEventBus ops)" by (rule seq_inv_run [OF assms])
  then have "sorted_wrt (<) (map ev_Sequence (acc t (foldl bus_apply NewEventBus ops)))"
    by (simp add: seq_inv_def acc_def sorted_map_filter)
  moreover have "acc t (foldl bus_apply NewEventBus ops) =
      del t (foldl bus_apply NewEventBus ops) @ queued t (foldl bus_apply NewEventBus ops)"
    using inv by (simp add: seq_inv_def bus_inv_def fifo_def)
  ultimately show ?thesis by (simp add: sorted_wrt_append)
qed

theorem event_bus_sequence_order_witness:
  "sorted_wrt (<) (map ev_Sequence (del ''proxy'' (foldl bus_apply NewEventBus
     [BSubscribe ''proxy'' sample_handler, BPublish (sample_event ''a''), BPublish (sample_event ''b''), BWorker 0, BWorker 0])))"
  by (rule event_bus_sequence_order) simp

text \<open>When calls of \<open>Publish\<close> overlap, that order is not kept: the sequence number is taken
  under one lock and the event enters the queue after it is released, so two publishers can enter
  the queue in the opposite order and the handlers see event 2 before event 1.\<close>

theorem event_bus_overlap_reorders:
  "\<exists>k. bus_reach k \<and> map ev_Sequence (del ''proxy'' (bc_bus k)) = [2, 1]"
proof -
  let ?e1 = "sample_event ''a''\<lparr>ev_Sequence := 1\<rparr>" and ?e2 = "sample_event ''b''\<lparr>ev_Sequence := 2\<rparr>"
  let ?b1 = "Subscribe ''proxy'' sample_handler NewEventBus"
  let ?b2 = "?b1\<lparr>eb_seq := 2\<rparr>"
  let ?b3 = "?b2\<lparr>eb_chans := [\<lparr>cn_type = ''proxy'', cn_buf = [], cn_closed = False\<rparr>], eb_queues := [(''proxy'', 0)]\<rparr>"
  let ?b4 = "?b3\<lparr>eb_chans := [\<lparr>cn_type = ''proxy'', cn_buf = [?e2, ?e1], cn_closed = False\<rparr>], eb_accepted := [?e2, ?e1]\<rparr>"
  note st = reach_step
  have "bus_reach (conf_init\<lparr>bc_bus := ?b1\<rparr>)"
    using st [OF reach_init step_subscribe [of conf_init "''proxy''" sample_handler]] by (simp add: conf_init_def)
  from st [OF this step_begin [of "sample_event ''a''"]]
  have "bus_reach (conf_init\<lparr>bc_bus := ?b1\<lparr>eb_seq := 1\<rparr>, bc_pubs := [PubQueue ?e1]\<rparr>)"
    by (simp add: publish_begin_def Let_def conf_init_def Subscribe_def NewEventBus_def sample_event_def NewGenericEvent_def wrap64_def)
  from st [OF this step_begin [of "sample_event ''b''"]]
  have "bus_reach (conf_init\<lparr>bc_bus := ?b2, bc_pubs := [PubQueue ?e1, PubQueue ?e2]\<rparr>)"
    by (simp add: publish_begin_def Let_def conf_init_def Subscribe_def NewEventBus_def sample_event_def NewGenericEvent_def wrap64_def)
  from st [OF this step_queue [of 1 _ ?e2]]
  have "bus_reach (conf_init\<lparr>bc_bus := ?b3, bc_pubs := [PubQueue ?e1, PubSend ?e2 0]\<rparr>)"
    by (simp add: publish_queue_def Let_def conf_init_def Subscribe_def NewEventBus_def sample_event_def NewGenericEvent_def)
  from st [OF this step_send [of 1 _ ?e2 0]]
  have "bus_reach (conf_init\<lparr>bc_bus := publish_send 0 ?e2 ?b3, bc_pubs := [PubQueue ?e1]\<rparr>)"
    by (simp add: remove_nth_def conf_init_def)
  from st [OF this step_queue [of 0 _ ?e1]]
  have "bus_reach (conf_init\<lparr>bc_bus := publish_send 0 ?e2 ?b3, bc_pubs := [PubSend ?e1 0]\<rparr>)"
    by (simp add: publish_queue_def sample_event_def NewGenericEvent_def)
  from st [OF this step_send [of 0 _ ?e1 0]]
  have "bus_reach (conf_init\<lparr>bc_bus := ?b4, bc_pubs := []\<rparr>)"
    by (simp add: remove_nth_def conf_init_def publish_send_def Let_def queueCap_def NewEventBus_def Subscribe_def)
  from st [OF this step_worker [of 0]]
  have "bus_reach (conf_init\<lparr>bc_bus := worker_turn 0 ?b4, bc_pubs := []\<rparr>)" by (simp add: conf_init_def)
  from st [OF this step_worker [of 0]]
  have "bus_reach (conf_init\<lparr>bc_bus := worker_turn 0 (worker_turn 0 ?b4), bc_pubs := []\<rparr>)"
    by (simp add: conf_init_def)
  moreover have "map ev_Sequence (del ''proxy'' (worker_turn 0 (worker_turn 0 ?b4))) = [2, 1]"
    by (simp add: worker_turn_def Let_def del_def sample_event_def NewGenericEvent_def NewEventBus_def Subscribe_def)
  ultimately show ?thesis by (intro exI conjI) (assumption, simp)
qed

text \<open>C27. \<open>Close\<close> loses nothing that was accepted and always finishes: once its wait is over every
  event that entered a queue has been handed to the worker's handlers and later publishes are
  refused; and from the moment the queues are closed the wait can always be brought to its end.\<close>

theorem event_bus_close_drains:
  assumes "bus_reach k"
  shows "(4 \<le> bc_close k \<longrightarrow> del t (bc_bus k) = acc t (bc_bus k) \<and> publish_begin ev (bc_bus k) = (None, bc_bus k)) \<and>
     (bc_close k = 3 \<longrightarrow> (\<exists>k'. bus_step\<^sup>*\<^sup>* k k' \<and> bc_close k' = 4))"
proof -
  have inv: "conf_inv k" by (rule bus_reach_inv [OF assms])
  have "del t (bc_bus k) = acc t (bc_bus k) \<and> publish_begin ev (bc_bus k) = (None, bc_bus k)" if "4 \<le> bc_close k"
  proof -
    have "fifo (bc_bus k)" "workers_done (bc_bus k)" "eb_closed (bc_bus k)"
      using inv that by (simp_all add: conf_inv_def bus_inv_def)
    moreover from this(2) have "queued t (bc_bus k) = []"
      by (auto simp: queued_def workers_done_def list_all_iff concat_eq_Nil_conv)
    ultimately show ?thesis by (simp add: fifo_def publish_begin_def)
  qed
  then show ?thesis using close_wait_ends inv by blast
qed

theorem event_bus_close_drains_witness:
  "\<exists>k. bus_reach k \<and> bc_close k = 3 \<and> (\<exists>k'. bus_step\<^sup>*\<^sup>* k k' \<and> bc_close k' = 4)"
proof -
  let ?k = "conf_init\<lparr>bc_bus := close_queues (close_stop (close_begin NewEventBus)), bc_close := 3\<rparr>"
  have "bus_reach ?k"
    using reach_step [OF reach_step [OF reach_step [OF reach_init step_close_begin] step_close_stop] step_close_queues]
    by (simp add: conf_init_def)
  with event_bus_close_drains [OF this] show ?thesis by (intro exI [of _ ?k]) simp
qed

end
