(* ===== verification/State_Store.thy ===== *)
theory State_Store
  imports Proto
begin

text \<open>
  \<open>BBgrid_Server/runtime/statestore.go\<close>: the query side of the server. Every method holds the
  store's lock for its whole body, so each is one function on the state. The clock is an argument.
  A live connection (\<open>ClientConn\<close>) is a connection number; writing to it is a parameter of
  \<open>SendCommand\<close>.
\<close>

section \<open>State\<close>

record clientEntry =
  ce_ClientID :: string
  ce_Conn :: "nat option"
  ce_RemoteAddr :: string
  ce_ConnectedAt :: int
  ce_Host :: string
  ce_Latency :: int

record StateStoreImpl =
  ss_clients :: "(string, clientEntry) gomap"
  ss_proxies :: "(string, ProxyState) gomap"
  ss_relays :: "(string, RelaySession) gomap"
  ss_portIndex :: "(int, string) gomap"
  ss_desiredProxies :: "(string, ProxyDesiredState) gomap"
  ss_desiredRelays :: "(string, RelayDesiredState) gomap"
  ss_tunnelTokens :: "(string, string) gomap"
  ss_publicIP :: string

definition NewStateStore :: "string \<Rightarrow> StateStoreImpl" where
  "NewStateStore ip = \<lparr>ss_clients = [], ss_proxies = [], ss_relays = [], ss_portIndex = [],
     ss_desiredProxies = [], ss_desiredRelays = [], ss_tunnelTokens = [], ss_publicIP = ip\<rparr>"

section \<open>Helpers\<close>

definition proxyKey :: "string \<Rightarrow> int \<Rightarrow> string" where
  "proxyKey clientID port = clientID @ '':'' @ fmt_int port"

fun sep_scan :: "string \<Rightarrow> nat \<Rightarrow> nat option" where
  "sep_scan key 0 = None"
| "sep_scan key (Suc i) =
     (if key ! i = CHR ''-'' \<or> key ! i = CHR '':'' then Some i else sep_scan key i)"

definition parseClientIDFromKey :: "string \<Rightarrow> string" where
  "parseClientIDFromKey key = (case sep_scan key (length key) of None \<Rightarrow> key | Some i \<Rightarrow> take i key)"

definition parseProxyFromPayload :: "any \<Rightarrow> ProxyState option" where
  "parseProxyFromPayload payload =
     (case payload of AnyProxy p \<Rightarrow> Some p | AnyMap m \<Rightarrow> Some (parseProxyFromMap m) | _ \<Rightarrow> None)"

definition desired_of_proxy :: "ProxyState \<Rightarrow> ProxyDesiredState" where
  "desired_of_proxy p = \<lparr>pd_ClientID = ps_ClientID p, pd_RemotePort = ps_RemotePort p,
     pd_LocalPort = ps_LocalPort p, pd_LocalIP = ps_LocalIP p, pd_Protocol = ps_Protocol p,
     pd_BindAddr = ps_BindAddr p\<rparr>"

definition proxy_of_desired :: "ProxyDesiredState \<Rightarrow> ProxyState" where
  "proxy_of_desired d = \<lparr>ps_ClientID = pd_ClientID d, ps_RemotePort = pd_RemotePort d,
     ps_LocalPort = pd_LocalPort d, ps_LocalIP = pd_LocalIP d, ps_Protocol = pd_Protocol d,
     ps_BindAddr = pd_BindAddr d\<rparr>"

definition desired_of_relay :: "RelaySession \<Rightarrow> RelayDesiredState" where
  "desired_of_relay r = \<lparr>rd_ID = rs_ID r, rd_SourceClient = rs_SourceClient r,
     rd_TargetClient = rs_TargetClient r, rd_Protocol = rs_Protocol r, rd_SourcePort = rs_SourcePort r,
     rd_TargetPort = rs_TargetPort r, rd_TargetLocalIP = rs_TargetLocalIP r,
     rd_SourceLocalIP = rs_SourceLocalIP r, rd_Token = rs_Token r\<rparr>"

definition relay_of_desired :: "RelayDesiredState \<Rightarrow> RelaySession" where
  "relay_of_desired d = zero_RelaySession\<lparr>rs_ID := rd_ID d, rs_SourceClient := rd_SourceClient d,
     rs_TargetClient := rd_TargetClient d, rs_Protocol := rd_Protocol d, rs_SourcePort := rd_SourcePort d,
     rs_TargetPort := rd_TargetPort d, rs_TargetLocalIP := rd_TargetLocalIP d,
     rs_SourceLocalIP := rd_SourceLocalIP d, rs_Token := rd_Token d\<rparr>"

section \<open>Queries\<close>

definition GetClient :: "StateStoreImpl \<Rightarrow> string \<Rightarrow> clientEntry option" where
  "GetClient s clientID = mget (ss_clients s) clientID"

definition client_info :: "StateStoreImpl \<Rightarrow> clientEntry \<Rightarrow> ClientInfo" where
  "client_info s entry = \<lparr>ci_ID = ce_ClientID entry, ci_RemoteAddr = ce_RemoteAddr entry,
     ci_ConnectedAt = ce_ConnectedAt entry,
     ci_ProxyCount = length (filter (\<lambda>(_, p). ps_ClientID p = ce_ClientID entry) (ss_proxies s)),
     ci_Host = ce_Host entry, ci_Online = True\<rparr>"

definition GetClientInfo :: "StateStoreImpl \<Rightarrow> string \<Rightarrow> ClientInfo option" where
  "GetClientInfo s clientID = map_option (client_info s) (mget (ss_clients s) clientID)"

definition ListClients :: "StateStoreImpl \<Rightarrow> ClientInfo list" where
  "ListClients s = map (\<lambda>(_, entry). client_info s entry) (ss_clients s)"

text \<open>\<open>writeJSON\<close> is the connection's write: \<open>None\<close> on success.\<close>

definition SendCommand :: "(nat \<Rightarrow> any \<Rightarrow> string option) \<Rightarrow> StateStoreImpl \<Rightarrow> string \<Rightarrow> any \<Rightarrow> string option" where
  "SendCommand writeJSON s clientID cmd =
     (case mget (ss_clients s) clientID of
        None \<Rightarrow> Some (''client not found: '' @ clientID)
      | Some entry \<Rightarrow>
          (case ce_Conn entry of
             None \<Rightarrow> Some (''client connection not ready: '' @ clientID)
           | Some conn \<Rightarrow> writeJSON conn cmd))"

definition GetProxy :: "StateStoreImpl \<Rightarrow> string \<Rightarrow> int \<Rightarrow> ProxyState option" where
  "GetProxy s clientID port = mget (ss_proxies s) (clientID @ '':'' @ fmt_int port)"

definition ListProxies :: "StateStoreImpl \<Rightarrow> ProxyInfo list" where
  "ListProxies s = map (\<lambda>(_, p). \<lparr>pi_ClientID = ps_ClientID p, pi_RemotePort = ps_RemotePort p,
     pi_LocalPort = ps_LocalPort p, pi_LocalIP = ps_LocalIP p, pi_Protocol = ps_Protocol p,
     pi_BindAddr = ps_BindAddr p, pi_PublicAddr = ss_publicIP s @ '':'' @ fmt_int (ps_RemotePort p)\<rparr>)
     (ss_proxies s)"

definition GetClientIDByPort :: "StateStoreImpl \<Rightarrow> int \<Rightarrow> string option" where
  "GetClientIDByPort s port = mget (ss_portIndex s) port"

definition GetRelaySession :: "StateStoreImpl \<Rightarrow> string \<Rightarrow> RelaySession option" where
  "GetRelaySession s sessionID = mget (ss_relays s) sessionID"

definition ListRelaySessions :: "StateStoreImpl \<Rightarrow> RelaySession list" where
  "ListRelaySessions s = map snd (ss_relays s)"

definition FindTableByWSToken :: "StateStoreImpl \<Rightarrow> string \<Rightarrow> string + clientEntry \<times> string" where
  "FindTableByWSToken s token =
     (case mget (ss_tunnelTokens s) token of
        None \<Rightarrow> Inl ''invalid token''
      | Some key \<Rightarrow>
          (case mget (ss_clients s) (parseClientIDFromKey key) of
             None \<Rightarrow> Inl ''client not found''
           | Some entry \<Rightarrow> Inr (entry, key)))"

definition GetDesiredProxies :: "StateStoreImpl \<Rightarrow> ProxyDesiredState list" where
  "GetDesiredProxies s =
     filter (\<lambda>d. \<not> (pd_ClientID d = '''' \<or> pd_RemotePort d = 0)) (map snd (ss_desiredProxies s))"

definition GetDesiredRelays :: "StateStoreImpl \<Rightarrow> RelayDesiredState list" where
  "GetDesiredRelays s = filter (\<lambda>d. rd_ID d \<noteq> '''') (map snd (ss_desiredRelays s))"

text \<open>The adapter that hands a client entry out: \<open>TunnelHost\<close> and \<open>TunnelKey\<close>.\<close>

definition TunnelHost :: "clientEntry \<Rightarrow> string \<Rightarrow> string" where
  "TunnelHost entry publicIP = (if ce_Host entry = '''' then publicIP else ce_Host entry)"

definition TunnelKey :: "clientEntry \<Rightarrow> int \<Rightarrow> string" where
  "TunnelKey entry port = ce_ClientID entry @ ''-'' @ fmt_int port"

section \<open>Direct updates\<close>

definition SetClientConn :: "StateStoreImpl \<Rightarrow> int \<Rightarrow> string \<Rightarrow> nat \<Rightarrow> StateStoreImpl" where
  "SetClientConn s now clientID conn =
     (let entry = (case mget (ss_clients s) clientID of
          Some e \<Rightarrow> e
        | None \<Rightarrow> \<lparr>ce_ClientID = clientID, ce_Conn = None, ce_RemoteAddr = '''', ce_ConnectedAt = now,
                   ce_Host = '''', ce_Latency = 0\<rparr>)
      in s\<lparr>ss_clients := mput (ss_clients s) clientID (entry\<lparr>ce_Conn := Some conn\<rparr>)\<rparr>)"

definition StoreTunnelToken :: "StateStoreImpl \<Rightarrow> string \<Rightarrow> string \<Rightarrow> StateStoreImpl" where
  "StoreTunnelToken s token key = s\<lparr>ss_tunnelTokens := mput (ss_tunnelTokens s) token key\<rparr>"

definition RemoveTunnelToken :: "StateStoreImpl \<Rightarrow> string \<Rightarrow> StateStoreImpl" where
  "RemoveTunnelToken s token = s\<lparr>ss_tunnelTokens := mdel (ss_tunnelTokens s) token\<rparr>"

section \<open>Applying events\<close>

definition millis :: "int \<Rightarrow> int" where
  "millis v = wrap64 (wrap64 v * 1000000)"

definition client_modified :: "(string, any) gomap \<Rightarrow> clientEntry \<Rightarrow> clientEntry" where
  "client_modified payload entry =
     (let e1 = (case get_str payload ''host'' of None \<Rightarrow> entry | Some h \<Rightarrow> entry\<lparr>ce_Host := h\<rparr>) in
      case mget payload ''latency'' of
        Some (AnyInt64 v) \<Rightarrow> e1\<lparr>ce_Latency := millis v\<rparr>
      | Some (AnyFloat v) \<Rightarrow> e1\<lparr>ce_Latency := millis (f64_trunc v)\<rparr>
      | _ \<Rightarrow> e1)"

definition applyClientEvent :: "int \<Rightarrow> GenericEvent \<Rightarrow> StateStoreImpl \<Rightarrow> StateStoreImpl" where
  "applyClientEvent now event s =
     (let clientID = rk_Name (ev_Resource event) in
      if ev_EventType event = EventAdded then
        (case ev_Payload event of
           AnyMap payload \<Rightarrow>
             let remoteAddr = str_or '''' payload ''remote_addr''; host = str_or '''' payload ''host'';
                 fresh = \<lparr>ce_ClientID = clientID, ce_Conn = None, ce_RemoteAddr = remoteAddr,
                          ce_ConnectedAt = now, ce_Host = host, ce_Latency = 0\<rparr>;
                 entry = (case mget (ss_clients s) clientID of
                     None \<Rightarrow> fresh
                   | Some existing \<Rightarrow>
                       if ce_Conn existing \<noteq> None
                       then existing\<lparr>ce_RemoteAddr := remoteAddr, ce_Host := host\<rparr> else fresh)
             in s\<lparr>ss_clients := mput (ss_clients s) clientID entry\<rparr>
         | _ \<Rightarrow> s)
      else if ev_EventType event = EventModified then
        (case mget (ss_clients s) clientID of
           None \<Rightarrow> s
         | Some entry \<Rightarrow>
             (case ev_Payload event of
                AnyMap payload \<Rightarrow>
                  s\<lparr>ss_clients := mput (ss_clients s) clientID (client_modified payload entry)\<rparr>
              | _ \<Rightarrow> s))
      else if ev_EventType event = EventDeleted then
        s\<lparr>ss_portIndex := mfilter (\<lambda>_ cid. cid \<noteq> clientID) (ss_portIndex s),
          ss_tunnelTokens := mfilter (\<lambda>_ key. parseClientIDFromKey key \<noteq> clientID) (ss_tunnelTokens s),
          ss_clients := mdel (ss_clients s) clientID\<rparr>
      else s)"

definition applyProxyEvent :: "GenericEvent \<Rightarrow> StateStoreImpl \<Rightarrow> StateStoreImpl" where
  "applyProxyEvent event s =
     (if ev_EventType event = EventAdded then
        (case parseProxyFromPayload (ev_Payload event) of
           None \<Rightarrow> s
         | Some proxy \<Rightarrow>
             let key = proxyKey (ps_ClientID proxy) (ps_RemotePort proxy) in
             s\<lparr>ss_proxies := mput (ss_proxies s) key proxy,
               ss_portIndex := mput (ss_portIndex s) (ps_RemotePort proxy) (ps_ClientID proxy),
               ss_desiredProxies := mput (ss_desiredProxies s) key (desired_of_proxy proxy)\<rparr>)
      else if ev_EventType event = EventDeleted then
        (let key = rk_Name (ev_Resource event) in
         s\<lparr>ss_portIndex := (case mget (ss_proxies s) key of
               None \<Rightarrow> ss_portIndex s
             | Some proxy \<Rightarrow> mdel (ss_portIndex s) (ps_RemotePort proxy)),
           ss_proxies := mdel (ss_proxies s) key,
           ss_desiredProxies := mdel (ss_desiredProxies s) key\<rparr>)
      else s)"

definition applyRelayEvent :: "GenericEvent \<Rightarrow> StateStoreImpl \<Rightarrow> StateStoreImpl" where
  "applyRelayEvent event s =
     (if ev_EventType event = EventAdded then
        (case ev_Payload event of
           AnyRelay session \<Rightarrow>
             s\<lparr>ss_relays := mput (ss_relays s) (rs_ID session) session,
               ss_desiredRelays := mput (ss_desiredRelays s) (rs_ID session) (desired_of_relay session)\<rparr>
         | _ \<Rightarrow> s)
      else if ev_EventType event = EventDeleted then
        (let sessionID = rk_Name (ev_Resource event) in
         s\<lparr>ss_relays := mdel (ss_relays s) sessionID,
           ss_desiredRelays := mdel (ss_desiredRelays s) sessionID\<rparr>)
      else s)"

definition Apply :: "int \<Rightarrow> GenericEvent \<Rightarrow> StateStoreImpl \<Rightarrow> StateStoreImpl" where
  "Apply now event s =
     (if rk_Type (ev_Resource event) = ResourceTypeClient then applyClientEvent now event s
      else if rk_Type (ev_Resource event) = ResourceTypeProxy then applyProxyEvent event s
      else if rk_Type (ev_Resource event) = ResourceTypeRelay then applyRelayEvent event s
      else s)"

section \<open>Snapshot and restore\<close>

definition Snapshot :: "StateStoreImpl \<Rightarrow> (string, ProxyDesiredState) gomap \<times> (string, RelayDesiredState) gomap" where
  "Snapshot s = (ss_desiredProxies s, ss_desiredRelays s)"

definition restore_proxy :: "(string, any) gomap \<Rightarrow> ProxyDesiredState" where
  "restore_proxy m = desired_of_proxy (parseProxyFromMap m)"

definition restore_relay :: "(string, any) gomap \<Rightarrow> RelayDesiredState" where
  "restore_relay m = \<lparr>rd_ID = (case get_str m ''id'' of Some v \<Rightarrow> v | None \<Rightarrow> str_or '''' m ''session_id''),
     rd_SourceClient = str_or '''' m ''source_client'', rd_TargetClient = str_or '''' m ''target_client'',
     rd_Protocol = str_or '''' m ''protocol'', rd_SourcePort = int_or 0 m ''source_port'',
     rd_TargetPort = int_or 0 m ''target_port'', rd_TargetLocalIP = str_or '''' m ''target_local_ip'',
     rd_SourceLocalIP = str_or '''' m ''source_local_ip'', rd_Token = str_or '''' m ''token''\<rparr>"

definition restore_proxy_entry :: "string \<times> any \<Rightarrow> StateStoreImpl \<Rightarrow> StateStoreImpl" where
  "restore_proxy_entry kv s =
     (case snd kv of
        AnyMap m \<Rightarrow>
          let d = restore_proxy m in
          if pd_ClientID d = '''' \<or> pd_RemotePort d = 0 then s
          else s\<lparr>ss_desiredProxies := mput (ss_desiredProxies s) (fst kv) d,
                 ss_proxies := mput (ss_proxies s) (proxyKey (pd_ClientID d) (pd_RemotePort d)) (proxy_of_desired d),
                 ss_portIndex := mput (ss_portIndex s) (pd_RemotePort d) (pd_ClientID d)\<rparr>
      | _ \<Rightarrow> s)"

definition restore_relay_entry :: "string \<times> any \<Rightarrow> StateStoreImpl \<Rightarrow> StateStoreImpl" where
  "restore_relay_entry kv s =
     (case snd kv of
        AnyMap m \<Rightarrow>
          let d = restore_relay m in
          if rd_ID d = '''' then s
          else s\<lparr>ss_desiredRelays := mput (ss_desiredRelays s) (fst kv) d,
                 ss_relays := mput (ss_relays s) (rd_ID d) (relay_of_desired d)\<rparr>
      | _ \<Rightarrow> s)"

definition Restore :: "(string, any) gomap \<Rightarrow> StateStoreImpl \<Rightarrow> StateStoreImpl" where
  "Restore data s =
     (let s1 = (case mget data ''desired_proxies'' of
          Some (AnyMap proxies) \<Rightarrow> fold restore_proxy_entry proxies s | _ \<Rightarrow> s)
      in case mget data ''desired_relays'' of
          Some (AnyMap relays) \<Rightarrow> fold restore_relay_entry relays s1 | _ \<Rightarrow> s1)"

section \<open>The snapshot file\<close>

text \<open>
  What \<open>persist\<close> writes of a snapshot and reads back from it: the two maps through
  \<open>encoding/json\<close>, with the tags of \<open>ProxyDesiredState\<close> and \<open>RelayDesiredState\<close>.
\<close>

definition desired_proxy_json :: "ProxyDesiredState \<Rightarrow> (string \<times> json) list" where
  "desired_proxy_json d = proxy_json (proxy_of_desired d)"

definition desired_relay_json :: "RelayDesiredState \<Rightarrow> (string \<times> json) list" where
  "desired_relay_json d = [(''id'', JStr (rd_ID d)), (''source_client'', JStr (rd_SourceClient d)),
     (''target_client'', JStr (rd_TargetClient d)), (''protocol'', JStr (rd_Protocol d)),
     (''source_port'', JInt (rd_SourcePort d)), (''target_port'', JInt (rd_TargetPort d)),
     (''target_local_ip'', JStr (rd_TargetLocalIP d)), (''source_local_ip'', JStr (rd_SourceLocalIP d))]
     @ omitempty ''token'' (rd_Token d)"

definition snapshot_json ::
  "(string, ProxyDesiredState) gomap \<times> (string, RelayDesiredState) gomap \<Rightarrow> (string \<times> json) list" where
  "snapshot_json snap =
     [(''desired_proxies'', JObj (map (\<lambda>(k, d). (k, JObj (desired_proxy_json d))) (fst snap))),
      (''desired_relays'', JObj (map (\<lambda>(k, d). (k, JObj (desired_relay_json d))) (snd snap)))]"

definition any_entries :: "(string \<times> json) list \<Rightarrow> (string, any) gomap" where
  "any_entries kvs = map (map_prod id unmarshal_any) kvs"

section \<open>Keys\<close>

declare map_of_eq_Some_iff [simp del]

lemma proxyKey_inj [simp]: "proxyKey c p = proxyKey c' p' \<longleftrightarrow> c = c' \<and> p = p'"
proof
  have no_colon: "CHR '':'' \<notin> set (fmt_int i)" for i
    using fmt_int_chars [of "CHR '':''" i] by auto
  assume "proxyKey c p = proxyKey c' p'"
  then have "c @ CHR '':'' # fmt_int p = c' @ CHR '':'' # fmt_int p'"
    by (simp add: proxyKey_def)
  from append_sep_inj [OF this no_colon no_colon] show "c = c' \<and> p = p'" by simp
qed simp

lemma GetProxy_proxyKey: "GetProxy s c p = mget (ss_proxies s) (proxyKey c p)"
  by (simp add: GetProxy_def proxyKey_def)

lemma sep_scan_prefix:
  "i \<le> length a \<Longrightarrow> sep_scan (a @ b) i = sep_scan a i"
  by (induction i) (auto simp: nth_append)

lemma sep_scan_skip:
  assumes "\<forall>c \<in> set b. c \<noteq> CHR ''-'' \<and> c \<noteq> CHR '':''"
  shows "n \<le> length b \<Longrightarrow> sep_scan (a @ b) (length a + n) = sep_scan (a @ b) (length a)"
proof (induction n)
  case (Suc n)
  then have "b ! n \<in> set b" by simp
  with assms Suc show ?case by (auto simp: nth_append)
qed simp

text \<open>A token key \<open>clientID-port\<close> or \<open>clientID:port\<close> gives its client back.\<close>

lemma parseClientIDFromKey_key:
  assumes "0 \<le> port" "sep = CHR ''-'' \<or> sep = CHR '':''"
  shows "parseClientIDFromKey (c @ sep # fmt_int port) = c"
proof -
  have "\<forall>d \<in> set (fmt_int port). d \<noteq> CHR ''-'' \<and> d \<noteq> CHR '':''"
    using fmt_int_nonneg_chars [OF assms(1)] by fastforce
  from sep_scan_skip [OF this, of "length (fmt_int port)" "c @ [sep]"]
  have "sep_scan (c @ sep # fmt_int port) (length (c @ sep # fmt_int port)) = Some (length c)"
    using assms(2) by (auto simp: nth_append)
  then show ?thesis by (simp add: parseClientIDFromKey_def)
qed

section \<open>Invariant\<close>

text \<open>
  Distinct keys everywhere; every entry stored under the key built from its own fields; the desired
  state of a proxy and of a relay is that of the entry beside it; a port in the index belongs to a
  proxy of that client.
\<close>

definition store_wf :: "StateStoreImpl \<Rightarrow> bool" where
  "store_wf s \<longleftrightarrow> wf_map (ss_clients s) \<and> wf_map (ss_proxies s) \<and> wf_map (ss_relays s) \<and>
     wf_map (ss_portIndex s) \<and> wf_map (ss_desiredProxies s) \<and> wf_map (ss_desiredRelays s) \<and>
     wf_map (ss_tunnelTokens s)"

definition clients_ok :: "StateStoreImpl \<Rightarrow> bool" where
  "clients_ok s \<longleftrightarrow> (\<forall>c e. mget (ss_clients s) c = Some e \<longrightarrow> ce_ClientID e = c)"

definition proxies_ok :: "StateStoreImpl \<Rightarrow> bool" where
  "proxies_ok s \<longleftrightarrow>
     (\<forall>k p. mget (ss_proxies s) k = Some p \<longrightarrow> k = proxyKey (ps_ClientID p) (ps_RemotePort p)) \<and>
     (\<forall>k. mget (ss_desiredProxies s) k = map_option desired_of_proxy (mget (ss_proxies s) k)) \<and>
     (\<forall>q c. mget (ss_portIndex s) q = Some c \<longrightarrow> mget (ss_proxies s) (proxyKey c q) \<noteq> None)"

definition relays_ok :: "StateStoreImpl \<Rightarrow> bool" where
  "relays_ok s \<longleftrightarrow> (\<forall>k r. mget (ss_relays s) k = Some r \<longrightarrow> rs_ID r = k) \<and>
     (\<forall>k. mget (ss_desiredRelays s) k = map_option desired_of_relay (mget (ss_relays s) k))"

definition store_inv :: "StateStoreImpl \<Rightarrow> bool" where
  "store_inv s \<longleftrightarrow> store_wf s \<and> clients_ok s \<and> proxies_ok s \<and> relays_ok s"

lemmas store_inv_defs = store_inv_def store_wf_def clients_ok_def proxies_ok_def relays_ok_def

lemma store_inv_New: "store_inv (NewStateStore ip)"
  by (simp add: store_inv_defs NewStateStore_def)

lemma store_inv_SetClientConn: "store_inv s \<Longrightarrow> store_inv (SetClientConn s now c conn)"
  by (auto simp: store_inv_defs SetClientConn_def Let_def split: option.splits)

lemma client_modified_id [simp]: "ce_ClientID (client_modified m e) = ce_ClientID e"
  by (simp add: client_modified_def Let_def split: option.splits any.splits)

lemma store_inv_put_client:
  "store_inv s \<Longrightarrow> ce_ClientID e = c \<Longrightarrow> store_inv (s\<lparr>ss_clients := mput (ss_clients s) c e\<rparr>)"
  by (simp add: store_inv_defs)

lemma clients_ok_id: "store_inv s \<Longrightarrow> mget (ss_clients s) c = Some e \<Longrightarrow> ce_ClientID e = c"
  by (simp add: store_inv_defs)

lemma store_inv_drop_client:
  "store_inv s \<Longrightarrow>
   store_inv (s\<lparr>ss_portIndex := mfilter P (ss_portIndex s), ss_tunnelTokens := mfilter Q (ss_tunnelTokens s),
     ss_clients := mdel (ss_clients s) c\<rparr>)"
  by (auto simp: store_inv_defs dest!: mget_mfilter_le)

lemma store_inv_applyClientEvent: "store_inv s \<Longrightarrow> store_inv (applyClientEvent now ev s)"
  by (auto simp: applyClientEvent_def Let_def clients_ok_id
      intro!: store_inv_put_client store_inv_drop_client split: any.splits option.splits)

lemma store_inv_put_proxy:
  assumes "store_inv s" "k = proxyKey (ps_ClientID p) (ps_RemotePort p)"
  shows "store_inv (s\<lparr>ss_proxies := mput (ss_proxies s) k p,
     ss_portIndex := mput (ss_portIndex s) (ps_RemotePort p) (ps_ClientID p),
     ss_desiredProxies := mput (ss_desiredProxies s) k (desired_of_proxy p)\<rparr>)"
  using assms by (auto simp: store_inv_defs)

lemma proxies_ok_key:
  "store_inv s \<Longrightarrow> mget (ss_proxies s) k = Some p \<Longrightarrow> proxyKey (ps_ClientID p) (ps_RemotePort p) = k"
  by (simp add: store_inv_def proxies_ok_def)

lemma port_index_some:
  "store_inv s \<Longrightarrow> mget (ss_portIndex s) q = Some c \<Longrightarrow> \<exists>p. mget (ss_proxies s) (proxyKey c q) = Some p"
  by (simp add: store_inv_def proxies_ok_def)

lemma port_index_entry:
  assumes "store_inv s" "mget (ss_portIndex s) q = Some c"
  obtains p where "mget (ss_proxies s) (proxyKey c q) = Some p" "ps_ClientID p = c" "ps_RemotePort p = q"
proof -
  from port_index_some [OF assms] obtain p where p: "mget (ss_proxies s) (proxyKey c q) = Some p" ..
  from proxies_ok_key [OF assms(1) p] have "ps_ClientID p = c" "ps_RemotePort p = q" by simp_all
  with p that show thesis by blast
qed

lemma store_inv_del_proxy:
  assumes "store_inv s"
  shows "store_inv (s\<lparr>ss_portIndex := (case mget (ss_proxies s) k of None \<Rightarrow> ss_portIndex s
        | Some p \<Rightarrow> mdel (ss_portIndex s) (ps_RemotePort p)),
     ss_proxies := mdel (ss_proxies s) k, ss_desiredProxies := mdel (ss_desiredProxies s) k\<rparr>)"
    (is "store_inv ?t")
proof -
  have "mget (ss_proxies ?t) (proxyKey c q) \<noteq> None" if ix: "mget (ss_portIndex ?t) q = Some c" for c q
  proof -
    have old: "mget (ss_portIndex s) q = Some c" using ix by (auto split: option.splits if_splits)
    then obtain p where p: "mget (ss_proxies s) (proxyKey c q) = Some p" "ps_RemotePort p = q"
      by (rule port_index_entry [OF assms])
    have "proxyKey c q \<noteq> k" using ix p by auto
    with p show ?thesis by simp
  qed
  moreover have "store_wf ?t" "clients_ok ?t" "relays_ok ?t"
    using assms by (auto simp: store_inv_def store_wf_def clients_ok_def relays_ok_def split: option.splits)
  moreover have "\<forall>k'. mget (ss_desiredProxies ?t) k' = map_option desired_of_proxy (mget (ss_proxies ?t) k')"
    using assms by (simp add: store_inv_def proxies_ok_def)
  moreover have "\<forall>k' p. mget (ss_proxies ?t) k' = Some p \<longrightarrow> k' = proxyKey (ps_ClientID p) (ps_RemotePort p)"
    using proxies_ok_key [OF assms] by (simp add: fun_upd_apply)
  ultimately show ?thesis unfolding store_inv_def proxies_ok_def by blast
qed

lemma store_inv_applyProxyEvent: "store_inv s \<Longrightarrow> store_inv (applyProxyEvent ev s)"
  by (auto simp: applyProxyEvent_def Let_def store_inv_del_proxy store_inv_put_proxy split: option.splits)

lemma store_inv_applyRelayEvent: "store_inv s \<Longrightarrow> store_inv (applyRelayEvent ev s)"
  by (auto simp: applyRelayEvent_def Let_def store_inv_defs split: any.splits)

lemma store_inv_Apply: "store_inv s \<Longrightarrow> store_inv (Apply now ev s)"
  by (simp add: Apply_def store_inv_applyClientEvent store_inv_applyProxyEvent store_inv_applyRelayEvent)

text \<open>A snapshot is well keyed when its entries stand under the keys of their own fields.\<close>

definition proxy_entry_keyed :: "string \<times> any \<Rightarrow> bool" where
  "proxy_entry_keyed kv \<longleftrightarrow> (case snd kv of
      AnyMap m \<Rightarrow> fst kv = proxyKey (pd_ClientID (restore_proxy m)) (pd_RemotePort (restore_proxy m))
    | _ \<Rightarrow> True)"

definition relay_entry_keyed :: "string \<times> any \<Rightarrow> bool" where
  "relay_entry_keyed kv \<longleftrightarrow> (case snd kv of AnyMap m \<Rightarrow> fst kv = rd_ID (restore_relay m) | _ \<Rightarrow> True)"

definition entries_of :: "(string, any) gomap \<Rightarrow> string \<Rightarrow> (string \<times> any) list" where
  "entries_of data k = (case mget data k of Some (AnyMap m) \<Rightarrow> m | _ \<Rightarrow> [])"

definition snapshot_keyed :: "(string, any) gomap \<Rightarrow> bool" where
  "snapshot_keyed data \<longleftrightarrow> list_all proxy_entry_keyed (entries_of data ''desired_proxies'') \<and>
     list_all relay_entry_keyed (entries_of data ''desired_relays'')"

lemma Restore_entries:
  "Restore data s = fold restore_relay_entry (entries_of data ''desired_relays'')
     (fold restore_proxy_entry (entries_of data ''desired_proxies'') s)"
  by (simp add: Restore_def entries_of_def Let_def split: option.splits any.splits)

lemma desired_of_proxy_of_desired [simp]: "desired_of_proxy (proxy_of_desired d) = d"
  by (simp add: desired_of_proxy_def proxy_of_desired_def)

lemma proxy_of_desired_of_proxy [simp]: "proxy_of_desired (desired_of_proxy p) = p"
  by (simp add: desired_of_proxy_def proxy_of_desired_def)

lemma desired_of_relay_of_desired [simp]: "desired_of_relay (relay_of_desired d) = d"
  by (simp add: desired_of_relay_def relay_of_desired_def zero_RelaySession_def)

lemma relay_of_desired_ID [simp]: "rs_ID (relay_of_desired d) = rd_ID d"
  by (simp add: relay_of_desired_def)

lemma proxy_of_desired_keys [simp]:
  "ps_ClientID (proxy_of_desired d) = pd_ClientID d" "ps_RemotePort (proxy_of_desired d) = pd_RemotePort d"
  "ps_LocalPort (proxy_of_desired d) = pd_LocalPort d"
  by (simp_all add: proxy_of_desired_def)

lemma store_inv_restore_proxy_entry:
  "store_inv s \<Longrightarrow> proxy_entry_keyed kv \<Longrightarrow> store_inv (restore_proxy_entry kv s)"
  by (auto simp: restore_proxy_entry_def proxy_entry_keyed_def Let_def store_inv_defs split: any.splits)

lemma store_inv_restore_relay_entry:
  "store_inv s \<Longrightarrow> relay_entry_keyed kv \<Longrightarrow> store_inv (restore_relay_entry kv s)"
  by (auto simp: restore_relay_entry_def relay_entry_keyed_def Let_def store_inv_defs split: any.splits)

lemma store_inv_Restore:
  assumes "store_inv s" "snapshot_keyed data"
  shows "store_inv (Restore data s)"
proof -
  have ps: "list_all proxy_entry_keyed kvs \<Longrightarrow> store_inv t \<Longrightarrow> store_inv (fold restore_proxy_entry kvs t)" for kvs t
    by (induction kvs arbitrary: t) (simp_all add: store_inv_restore_proxy_entry)
  have rs: "list_all relay_entry_keyed kvs \<Longrightarrow> store_inv t \<Longrightarrow> store_inv (fold restore_relay_entry kvs t)" for kvs t
    by (induction kvs arbitrary: t) (simp_all add: store_inv_restore_relay_entry)
  show ?thesis using assms by (simp add: Restore_entries snapshot_keyed_def ps rs)
qed

text \<open>The operations that change the store.\<close>

datatype store_op =
    OpApply int GenericEvent
  | OpSetClientConn int string nat
  | OpStoreToken string string
  | OpRemoveToken string
  | OpRestore "(string, any) gomap"

fun store_step :: "StateStoreImpl \<Rightarrow> store_op \<Rightarrow> StateStoreImpl" where
  "store_step s (OpApply now ev) = Apply now ev s"
| "store_step s (OpSetClientConn now c conn) = SetClientConn s now c conn"
| "store_step s (OpStoreToken t k) = StoreTunnelToken s t k"
| "store_step s (OpRemoveToken t) = RemoveTunnelToken s t"
| "store_step s (OpRestore data) = Restore data s"

definition op_keyed :: "store_op \<Rightarrow> bool" where
  "op_keyed x \<longleftrightarrow> (case x of OpRestore data \<Rightarrow> snapshot_keyed data | _ \<Rightarrow> True)"

lemma store_inv_StoreTunnelToken: "store_inv s \<Longrightarrow> store_inv (StoreTunnelToken s t k)"
  by (simp add: StoreTunnelToken_def store_inv_defs)

lemma store_inv_RemoveTunnelToken: "store_inv s \<Longrightarrow> store_inv (RemoveTunnelToken s t)"
  by (simp add: RemoveTunnelToken_def store_inv_defs)

lemma store_inv_step: "store_inv s \<Longrightarrow> op_keyed x \<Longrightarrow> store_inv (store_step s x)"
  by (cases x) (simp_all add: store_inv_Apply store_inv_SetClientConn store_inv_StoreTunnelToken
      store_inv_RemoveTunnelToken store_inv_Restore op_keyed_def)

interpretation store: invariant_run store_step store_inv op_keyed
  by unfold_locales (rule store_inv_step)

section \<open>The store as a table of proxies\<close>

text \<open>The proxy events as the reconcile provider and the session server build them.\<close>

definition proxy_event :: "string \<Rightarrow> string \<Rightarrow> int \<Rightarrow> any \<Rightarrow> GenericEvent" where
  "proxy_event et c port payload = NewGenericEvent '''' 0
     \<lparr>rk_Type = ResourceTypeProxy, rk_Namespace = NamespaceDefault, rk_Name = proxyKey c port\<rparr> et payload"

definition proxy_added :: "ProxyState \<Rightarrow> GenericEvent" where
  "proxy_added p = proxy_event EventAdded (ps_ClientID p) (ps_RemotePort p) (AnyProxy p)"

definition proxy_deleted :: "string \<Rightarrow> int \<Rightarrow> GenericEvent" where
  "proxy_deleted c port = proxy_event EventDeleted c port AnyNil"

definition client_event :: "string \<Rightarrow> string \<Rightarrow> any \<Rightarrow> GenericEvent" where
  "client_event et c payload = NewGenericEvent '''' 0
     \<lparr>rk_Type = ResourceTypeClient, rk_Namespace = NamespaceDefault, rk_Name = c\<rparr> et payload"

lemmas event_defs = proxy_added_def proxy_deleted_def proxy_event_def client_event_def NewGenericEvent_def

lemma GetProxy_added:
  "GetProxy (Apply now (proxy_added p) s) c q =
     (if c = ps_ClientID p \<and> q = ps_RemotePort p then Some p else GetProxy s c q)"
  by (auto simp: GetProxy_proxyKey Apply_def applyProxyEvent_def event_defs parseProxyFromPayload_def Let_def)

lemma GetProxy_deleted:
  "GetProxy (Apply now (proxy_deleted c' q') s) c q = (if c = c' \<and> q = q' then None else GetProxy s c q)"
  by (auto simp: GetProxy_proxyKey Apply_def applyProxyEvent_def event_defs Let_def)

lemma GetClientIDByPort_added:
  "GetClientIDByPort (Apply now (proxy_added p) s) q =
     (if q = ps_RemotePort p then Some (ps_ClientID p) else GetClientIDByPort s q)"
  by (auto simp: GetClientIDByPort_def Apply_def applyProxyEvent_def event_defs parseProxyFromPayload_def Let_def)

lemma Apply_added_frame [simp]:
  "ss_clients (Apply now (proxy_added p) s) = ss_clients s" "ss_relays (Apply now (proxy_added p) s) = ss_relays s"
  "ss_tunnelTokens (Apply now (proxy_added p) s) = ss_tunnelTokens s"
  by (simp_all add: Apply_def applyProxyEvent_def event_defs parseProxyFromPayload_def Let_def)

lemma Apply_deleted_frame [simp]:
  "ss_clients (Apply now (proxy_deleted c q) s) = ss_clients s" "ss_relays (Apply now (proxy_deleted c q) s) = ss_relays s"
  "ss_tunnelTokens (Apply now (proxy_deleted c q) s) = ss_tunnelTokens s"
  by (simp_all add: Apply_def applyProxyEvent_def event_defs Let_def)

lemma FindTable_cong:
  "ss_tunnelTokens t = ss_tunnelTokens s \<Longrightarrow> ss_clients t = ss_clients s \<Longrightarrow> FindTableByWSToken t = FindTableByWSToken s"
  by (simp add: FindTableByWSToken_def fun_eq_iff cong: option.case_cong)

text \<open>
  Seen through its events and \<open>GetProxy\<close>, the store is a keyed container whose keys are pairs of a
  client and a port; the value is what the key does not determine.
\<close>

type_synonym proxy_rest = "int \<times> string \<times> string \<times> string"

definition proxy_of :: "string \<times> int \<Rightarrow> proxy_rest \<Rightarrow> ProxyState" where
  "proxy_of k v = (case v of (lport, lip, pr, bind) \<Rightarrow> \<lparr>ps_ClientID = fst k, ps_RemotePort = snd k,
     ps_LocalPort = lport, ps_LocalIP = lip, ps_Protocol = pr, ps_BindAddr = bind\<rparr>)"

definition proxy_rest_of :: "ProxyState \<Rightarrow> proxy_rest" where
  "proxy_rest_of p = (ps_LocalPort p, ps_LocalIP p, ps_Protocol p, ps_BindAddr p)"

definition lookup_proxy :: "StateStoreImpl \<Rightarrow> string \<times> int \<Rightarrow> proxy_rest option" where
  "lookup_proxy s k = map_option proxy_rest_of (GetProxy s (fst k) (snd k))"

lemma proxy_of_simps [simp]:
  "ps_ClientID (proxy_of k v) = fst k" "ps_RemotePort (proxy_of k v) = snd k" "proxy_rest_of (proxy_of k v) = v"
  by (simp_all add: proxy_of_def proxy_rest_of_def split: prod.splits)

interpretation proxies: keyed_store lookup_proxy "\<lambda>s k v. Apply 0 (proxy_added (proxy_of k v)) s"
    "\<lambda>s k. Apply 0 (proxy_deleted (fst k) (snd k)) s" store_inv "\<lambda>_. True"
  by unfold_locales (auto simp: lookup_proxy_def GetProxy_added GetProxy_deleted store_inv_Apply prod_eq_iff)

section \<open>Snapshot round trip\<close>

definition small_int :: "int \<Rightarrow> bool" where
  "small_int n \<longleftrightarrow> \<bar>n\<bar> \<le> 2 ^ 53"

definition proxy_storable :: "ProxyDesiredState \<Rightarrow> bool" where
  "proxy_storable d \<longleftrightarrow> pd_ClientID d \<noteq> '''' \<and> pd_RemotePort d \<noteq> 0 \<and>
     small_int (pd_RemotePort d) \<and> small_int (pd_LocalPort d)"

definition relay_storable :: "RelayDesiredState \<Rightarrow> bool" where
  "relay_storable d \<longleftrightarrow> rd_ID d \<noteq> '''' \<and> small_int (rd_SourcePort d) \<and> small_int (rd_TargetPort d)"

lemma parseProxyFromMap_json:
  assumes "small_int (ps_RemotePort p)" "small_int (ps_LocalPort p)"
  shows "parseProxyFromMap (any_entries (proxy_json p)) = p"
  using assms by (simp add: parseProxyFromMap_def any_entries_def proxy_json_def str_or_def int_or_def
      get_str_def get_f64_def small_int_def)

lemma restore_proxy_json: "proxy_storable d \<Longrightarrow> restore_proxy (any_entries (desired_proxy_json d)) = d"
  using parseProxyFromMap_json [of "proxy_of_desired d"]
  by (simp add: restore_proxy_def desired_proxy_json_def proxy_storable_def)

lemma restore_relay_json: "relay_storable d \<Longrightarrow> restore_relay (any_entries (desired_relay_json d)) = d"
  by (simp add: restore_relay_def any_entries_def desired_relay_json_def str_or_def int_or_def
      get_str_def get_f64_def relay_storable_def small_int_def omitempty_def)

abbreviation proxy_entries :: "(string, ProxyDesiredState) gomap \<Rightarrow> (string \<times> any) list" where
  "proxy_entries m \<equiv> map (\<lambda>(k, d). (k, AnyMap (any_entries (desired_proxy_json d)))) m"

abbreviation relay_entries :: "(string, RelayDesiredState) gomap \<Rightarrow> (string \<times> any) list" where
  "relay_entries m \<equiv> map (\<lambda>(k, d). (k, AnyMap (any_entries (desired_relay_json d)))) m"

lemma snapshot_entries:
  "entries_of (any_entries (snapshot_json (Snapshot s))) ''desired_proxies'' = proxy_entries (ss_desiredProxies s)"
  "entries_of (any_entries (snapshot_json (Snapshot s))) ''desired_relays'' = relay_entries (ss_desiredRelays s)"
  by (simp_all add: entries_of_def any_entries_def snapshot_json_def Snapshot_def case_prod_beta comp_def map_prod_def)

lemma fold_restore_proxies:
  assumes "list_all (\<lambda>(k, d). proxy_storable d) m"
  shows "mget (ss_desiredProxies (fold restore_proxy_entry (proxy_entries m) s)) =
      mget (ss_desiredProxies s) ++ map_of (rev m)"
    and "ss_relays (fold restore_proxy_entry (proxy_entries m) s) = ss_relays s"
    and "ss_desiredRelays (fold restore_proxy_entry (proxy_entries m) s) = ss_desiredRelays s"
  using assms
  by (induction m arbitrary: s)
    (auto simp: restore_proxy_entry_def Let_def restore_proxy_json proxy_storable_def)

lemma fold_restore_ports:
  "list_all (\<lambda>(k, d). proxy_storable d) m \<Longrightarrow>
   mkeys (ss_portIndex (fold restore_proxy_entry (proxy_entries m) s)) =
     mkeys (ss_portIndex s) \<union> (\<lambda>(k, d). pd_RemotePort d) ` set m"
  by (induction m arbitrary: s)
    (simp_all add: restore_proxy_entry_def Let_def restore_proxy_json proxy_storable_def case_prod_beta)

lemma fold_restore_relays:
  assumes "list_all (\<lambda>(k, d). relay_storable d) m"
  shows "mget (ss_desiredRelays (fold restore_relay_entry (relay_entries m) s)) =
      mget (ss_desiredRelays s) ++ map_of (rev m)"
    and "ss_proxies (fold restore_relay_entry (relay_entries m) s) = ss_proxies s"
    and "ss_desiredProxies (fold restore_relay_entry (relay_entries m) s) = ss_desiredProxies s"
    and "ss_portIndex (fold restore_relay_entry (relay_entries m) s) = ss_portIndex s"
  using assms
  by (induction m arbitrary: s)
    (auto simp: restore_relay_entry_def Let_def restore_relay_json relay_storable_def)

lemma fold_restore_relay_sessions:
  assumes "list_all (\<lambda>(k, d). relay_storable d \<and> k = rd_ID d) m"
  shows "mget (ss_relays (fold restore_relay_entry (relay_entries m) s)) k =
      (case map_of (rev m) k of None \<Rightarrow> mget (ss_relays s) k | Some d \<Rightarrow> Some (relay_of_desired d))"
  using assms
  by (induction m arbitrary: s)
    (auto simp: restore_relay_entry_def Let_def restore_relay_json relay_storable_def map_add_def split: option.splits)

lemma map_of_rev: "wf_map m \<Longrightarrow> map_of (rev m) = map_of m"
  by (rule map_of_inject_set [THEN iffD2]) (simp_all add: rev_map [symmetric])

definition snapshot_storable :: "StateStoreImpl \<Rightarrow> bool" where
  "snapshot_storable s \<longleftrightarrow> list_all (\<lambda>(k, d). proxy_storable d) (ss_desiredProxies s) \<and>
     list_all (\<lambda>(k, d). relay_storable d) (ss_desiredRelays s)"

lemma desired_proxy_keyed:
  assumes "store_inv s" "(k, d) \<in> set (ss_desiredProxies s)"
  shows "k = proxyKey (pd_ClientID d) (pd_RemotePort d)"
proof -
  from assms have "mget (ss_desiredProxies s) k = Some d"
    by (simp add: store_inv_def store_wf_def map_of_is_SomeI)
  then obtain p where "mget (ss_proxies s) k = Some p" "d = desired_of_proxy p"
    using assms(1) by (auto simp: store_inv_def proxies_ok_def)
  with proxies_ok_key [OF assms(1)] show ?thesis by (auto simp: desired_of_proxy_def)
qed

lemma desired_relay_keyed:
  assumes "store_inv s" "(k, d) \<in> set (ss_desiredRelays s)"
  shows "k = rd_ID d"
proof -
  from assms have "mget (ss_desiredRelays s) k = Some d"
    by (simp add: store_inv_def store_wf_def map_of_is_SomeI)
  then obtain r where "mget (ss_relays s) k = Some r" "d = desired_of_relay r"
    using assms(1) by (auto simp: store_inv_def relays_ok_def)
  then show ?thesis using assms(1) by (simp add: store_inv_def relays_ok_def desired_of_relay_def)
qed

lemma snapshot_keyed_Snapshot:
  assumes "store_inv s" "snapshot_storable s"
  shows "snapshot_keyed (any_entries (snapshot_json (Snapshot s)))"
  using assms(2) desired_proxy_keyed [OF assms(1)] desired_relay_keyed [OF assms(1)]
  by (auto simp: snapshot_keyed_def snapshot_entries snapshot_storable_def list_all_iff
      proxy_entry_keyed_def relay_entry_keyed_def restore_proxy_json restore_relay_json)

lemma Restore_Snapshot:
  fixes ip :: string
  assumes "store_inv s" "snapshot_storable s"
    and "t = Restore (any_entries (snapshot_json (Snapshot s))) (NewStateStore ip)"
  shows "mget (ss_desiredProxies t) = mget (ss_desiredProxies s)"
    and "mget (ss_desiredRelays t) = mget (ss_desiredRelays s)"
    and "mkeys (ss_portIndex t) = (\<lambda>(k, d). pd_RemotePort d) ` set (ss_desiredProxies s)"
    and "store_inv t"
    and "mget (ss_relays t) r = map_option (relay_of_desired \<circ> desired_of_relay) (mget (ss_relays s) r)"
proof -
  have st: "list_all (\<lambda>(k, d). proxy_storable d) (ss_desiredProxies s)"
    "list_all (\<lambda>(k, d). relay_storable d) (ss_desiredRelays s)"
    and wf: "wf_map (ss_desiredProxies s)" "wf_map (ss_desiredRelays s)"
    using assms by (simp_all add: snapshot_storable_def store_inv_def store_wf_def)
  note folds = fold_restore_proxies [OF st(1)] fold_restore_relays [OF st(2)] fold_restore_ports [OF st(1)]
  show "mget (ss_desiredProxies t) = mget (ss_desiredProxies s)"
    "mget (ss_desiredRelays t) = mget (ss_desiredRelays s)"
    "mkeys (ss_portIndex t) = (\<lambda>(k, d). pd_RemotePort d) ` set (ss_desiredProxies s)"
    by (simp_all add: assms(3) Restore_entries snapshot_entries folds map_of_rev wf NewStateStore_def)
  have "list_all (\<lambda>(k, d). relay_storable d \<and> k = rd_ID d) (ss_desiredRelays s)"
    using st(2) desired_relay_keyed [OF assms(1)] by (auto simp: list_all_iff)
  from fold_restore_relay_sessions [OF this]
  have "mget (ss_relays t) r = map_option relay_of_desired (mget (ss_desiredRelays s) r)"
    by (simp add: assms(3) Restore_entries snapshot_entries folds map_of_rev wf NewStateStore_def split: option.split)
  then show "mget (ss_relays t) r = map_option (relay_of_desired \<circ> desired_of_relay) (mget (ss_relays s) r)"
    using assms(1) by (simp add: store_inv_def relays_ok_def option.map_comp)
  show "store_inv t"
    using store_inv_Restore [OF store_inv_New snapshot_keyed_Snapshot [OF assms(1,2)]] assms(3) by simp
qed

lemma proxies_of_desired:
  assumes "store_inv s"
  shows "mget (ss_proxies s) k = map_option proxy_of_desired (mget (ss_desiredProxies s) k)"
  using assms by (cases "mget (ss_proxies s) k") (simp_all add: store_inv_def proxies_ok_def)

lemma port_of_proxy:
  assumes "store_inv s"
  shows "q \<in> (\<lambda>(k, d). pd_RemotePort d) ` set (ss_desiredProxies s) \<longleftrightarrow> (\<exists>c. GetProxy s c q \<noteq> None)"
proof
  assume "q \<in> (\<lambda>(k, d). pd_RemotePort d) ` set (ss_desiredProxies s)"
  then obtain k d where kd: "(k, d) \<in> set (ss_desiredProxies s)" "pd_RemotePort d = q" by auto
  then have "mget (ss_desiredProxies s) k = Some d"
    using assms by (simp add: store_inv_def store_wf_def map_of_is_SomeI)
  then have p: "mget (ss_proxies s) k = Some (proxy_of_desired d)"
    using proxies_of_desired [OF assms, of k] by simp
  with proxies_ok_key [OF assms p] kd(2) have "GetProxy s (pd_ClientID d) q = Some (proxy_of_desired d)"
    by (simp add: GetProxy_proxyKey)
  then show "\<exists>c. GetProxy s c q \<noteq> None" by blast
next
  assume "\<exists>c. GetProxy s c q \<noteq> None"
  then obtain c p where p: "mget (ss_proxies s) (proxyKey c q) = Some p" by (auto simp: GetProxy_proxyKey)
  then have "mget (ss_desiredProxies s) (proxyKey c q) = Some (desired_of_proxy p)"
    using assms by (simp add: store_inv_def proxies_ok_def)
  then have "(proxyKey c q, desired_of_proxy p) \<in> set (ss_desiredProxies s)" by (rule map_of_SomeD)
  moreover have "pd_RemotePort (desired_of_proxy p) = q"
    using proxies_ok_key [OF assms p] by (simp add: desired_of_proxy_def)
  ultimately show "q \<in> (\<lambda>(k, d). pd_RemotePort d) ` set (ss_desiredProxies s)" by force
qed

section \<open>Properties\<close>


definition sample_proxy :: ProxyState where
  "sample_proxy = \<lparr>ps_ClientID = ''c1'', ps_RemotePort = 8080, ps_LocalPort = 80, ps_LocalIP = ''127.0.0.1'',
     ps_Protocol = ''tcp'', ps_BindAddr = ''0.0.0.0''\<rparr>"

definition sample_ops :: "store_op list" where
  "sample_ops = [OpSetClientConn 0 ''c1'' 7, OpApply 0 (proxy_added sample_proxy), OpStoreToken ''t'' ''c1-8080'']"

lemma sample_ops_keyed: "list_all op_keyed sample_ops"
  by (simp add: sample_ops_def op_keyed_def)

lemma sample_run:
  "foldl store_step (NewStateStore ''ip'') sample_ops =
     \<lparr>ss_clients = [(''c1'', \<lparr>ce_ClientID = ''c1'', ce_Conn = Some 7, ce_RemoteAddr = '''', ce_ConnectedAt = 0,
        ce_Host = '''', ce_Latency = 0\<rparr>)],
      ss_proxies = [(''c1:8080'', sample_proxy)], ss_relays = [], ss_portIndex = [(8080, ''c1'')],
      ss_desiredProxies = [(''c1:8080'', desired_of_proxy sample_proxy)], ss_desiredRelays = [],
      ss_tunnelTokens = [(''t'', ''c1-8080'')], ss_publicIP = ''ip''\<rparr>"
  by (simp add: sample_ops_def NewStateStore_def SetClientConn_def Apply_def applyProxyEvent_def event_defs
      parseProxyFromPayload_def Let_def StoreTunnelToken_def proxyKey_def sample_proxy_def)


text \<open>The port index is sound: after any such sequence, a client that \<open>GetClientIDByPort\<close>
  returns for a port has a proxy on exactly that port, which \<open>GetProxy\<close> finds and
  \<open>ListProxies\<close> lists with the server's public address.\<close>

theorem port_index_sound:
  assumes "list_all op_keyed ops" and "s = foldl store_step (NewStateStore ip) ops"
    and "GetClientIDByPort s q = Some c"
  shows "\<exists>p. GetProxy s c q = Some p \<and> ps_ClientID p = c \<and> ps_RemotePort p = q \<and>
     (\<exists>info \<in> set (ListProxies s). pi_ClientID info = c \<and> pi_RemotePort info = q \<and>
        pi_PublicAddr info = ss_publicIP s @ '':'' @ fmt_int q)"
proof -
  have inv: "store_inv s" using store.run_inv [OF store_inv_New assms(1)] assms(2) by simp
  have ix: "mget (ss_portIndex s) q = Some c" using assms(3) by (simp add: GetClientIDByPort_def)
  obtain p where p: "mget (ss_proxies s) (proxyKey c q) = Some p" "ps_ClientID p = c" "ps_RemotePort p = q"
    by (rule port_index_entry [OF inv ix])
  have "\<exists>info \<in> set (ListProxies s). pi_ClientID info = c \<and> pi_RemotePort info = q \<and>
        pi_PublicAddr info = ss_publicIP s @ '':'' @ fmt_int q"
    unfolding ListProxies_def set_map by (rule bexI [OF _ imageI [OF map_of_SomeD [OF p(1)]]]) (simp add: p)
  then show ?thesis using p by (simp add: GetProxy_proxyKey)
qed

theorem port_index_sound_witness:
  "\<exists>p. GetProxy (foldl store_step (NewStateStore ''ip'') sample_ops) ''c1'' 8080 = Some p \<and> ps_ClientID p = ''c1''"
proof -
  have "GetClientIDByPort (foldl store_step (NewStateStore ''ip'') sample_ops) 8080 = Some ''c1''"
    by (simp add: sample_run GetClientIDByPort_def)
  from port_index_sound [OF sample_ops_keyed refl this] show ?thesis by blast
qed

text \<open>A proxy event has exactly its effect: after ADDED the proxy is found under its client and
  port and owns the port in the index, after DELETED it is gone, every other lookup of a proxy is
  unchanged, and clients, relays and tunnel tokens are untouched.\<close>

theorem proxy_events_effect:
  "GetProxy (Apply now (proxy_added p) s) c q =
     (if c = ps_ClientID p \<and> q = ps_RemotePort p then Some p else GetProxy s c q) \<and>
   GetClientIDByPort (Apply now (proxy_added p) s) q =
     (if q = ps_RemotePort p then Some (ps_ClientID p) else GetClientIDByPort s q) \<and>
   GetProxy (Apply now (proxy_deleted c' q') s) c q = (if c = c' \<and> q = q' then None else GetProxy s c q) \<and>
   (\<forall>ev \<in> {proxy_added p, proxy_deleted c' q'}. GetClient (Apply now ev s) = GetClient s \<and>
      GetRelaySession (Apply now ev s) = GetRelaySession s \<and> FindTableByWSToken (Apply now ev s) = FindTableByWSToken s)"
  by (simp add: GetProxy_added GetProxy_deleted GetClientIDByPort_added GetClient_def [abs_def]
      GetRelaySession_def [abs_def] FindTable_cong [OF Apply_added_frame(3,1)] FindTable_cong [OF Apply_deleted_frame(3,1)])

theorem proxy_events_effect_witness:
  "GetProxy (Apply 0 (proxy_added sample_proxy) (NewStateStore '''')) ''c1'' 8080 = Some sample_proxy \<and>
   GetProxy (Apply 0 (proxy_deleted ''c1'' 8080) (NewStateStore '''')) ''c1'' 8080 = None"
  using proxy_events_effect [of 0 sample_proxy "NewStateStore ''''" "''c1''" 8080 "''c1''" 8080]
  by (simp add: sample_proxy_def)

text \<open>When a client goes away, its session state goes with it and nothing else does: after a
  client DELETED event the client is unknown, commands to it fail, none of its ports is in the index
  and none of its tunnel tokens resolves; the other clients, their ports and tokens, and all proxies
  and relays, kept so that they can be restored, are as before.\<close>

theorem client_deleted_effect:
  assumes "store_inv s" and "t = Apply now (client_event EventDeleted c payload) s"
  shows "GetClient t c = None \<and> SendCommand w t c cmd = Some (''client not found: '' @ c) \<and>
     GetClientIDByPort t q \<noteq> Some c \<and>
     (parseClientIDFromKey key = c \<longrightarrow> mget (ss_tunnelTokens s) tok = Some key \<longrightarrow>
        FindTableByWSToken t tok = Inl ''invalid token'') \<and>
     (c' \<noteq> c \<longrightarrow> GetClient t c' = GetClient s c' \<and>
        (GetClientIDByPort s q = Some c' \<longrightarrow> GetClientIDByPort t q = Some c') \<and>
        (parseClientIDFromKey key = c' \<longrightarrow> mget (ss_tunnelTokens s) tok = Some key \<longrightarrow>
           FindTableByWSToken t tok = FindTableByWSToken s tok)) \<and>
     GetProxy t = GetProxy s \<and> ListRelaySessions t = ListRelaySessions s \<and> Snapshot t = Snapshot s"
proof -
  have t: "t = s\<lparr>ss_portIndex := mfilter (\<lambda>_ cid. cid \<noteq> c) (ss_portIndex s),
     ss_tunnelTokens := mfilter (\<lambda>_ key. parseClientIDFromKey key \<noteq> c) (ss_tunnelTokens s),
     ss_clients := mdel (ss_clients s) c\<rparr>"
    by (simp add: assms(2) Apply_def applyClientEvent_def client_event_def NewGenericEvent_def)
  have wf: "wf_map (ss_portIndex s)" "wf_map (ss_tunnelTokens s)"
    using assms(1) by (simp_all add: store_inv_def store_wf_def)
  show ?thesis
    by (simp add: t GetClient_def SendCommand_def GetClientIDByPort_def FindTableByWSToken_def mget_mfilter wf
        GetProxy_def [abs_def] ListRelaySessions_def Snapshot_def split: option.split)
qed

theorem client_deleted_effect_witness:
  "GetClient (Apply 0 (client_event EventDeleted ''c1'' AnyNil) (foldl store_step (NewStateStore ''ip'') sample_ops)) ''c1'' = None \<and>
   GetClient (foldl store_step (NewStateStore ''ip'') sample_ops) ''c1'' \<noteq> None"
  using client_deleted_effect [OF store.run_inv [OF store_inv_New sample_ops_keyed, of "''ip''"]
      refl [of "Apply 0 (client_event EventDeleted ''c1'' AnyNil) (foldl store_step (NewStateStore ''ip'') sample_ops)"]]
  by (simp add: sample_run GetClient_def)

text \<open>A tunnel token leads back to its client: once a token is stored under the key that the
  client's own entry builds for a port, looking the token up returns that client and that key, until
  the token is removed, when the lookup fails; other tokens are not affected by either.\<close>

theorem tunnel_token_lookup:
  assumes "store_inv s" and "GetClient s c = Some e" and "0 \<le> port"
  shows "FindTableByWSToken (StoreTunnelToken s tok (TunnelKey e port)) tok = Inr (e, TunnelKey e port) \<and>
     FindTableByWSToken (RemoveTunnelToken s tok) tok = Inl ''invalid token'' \<and>
     (tok' \<noteq> tok \<longrightarrow> FindTableByWSToken (StoreTunnelToken s tok (TunnelKey e port)) tok' = FindTableByWSToken s tok' \<and>
        FindTableByWSToken (RemoveTunnelToken s tok) tok' = FindTableByWSToken s tok')"
proof -
  have "ce_ClientID e = c" using clients_ok_id [OF assms(1)] assms(2) by (simp add: GetClient_def)
  then have "parseClientIDFromKey (TunnelKey e port) = c"
    using parseClientIDFromKey_key [OF assms(3), of "CHR ''-''" c] by (simp add: TunnelKey_def)
  then show ?thesis
    using assms(2) by (simp add: FindTableByWSToken_def StoreTunnelToken_def RemoveTunnelToken_def GetClient_def
        split: option.split)
qed

theorem tunnel_token_lookup_witness:
  "\<exists>e. GetClient (foldl store_step (NewStateStore ''ip'') sample_ops) ''c1'' = Some e \<and>
     FindTableByWSToken (StoreTunnelToken (foldl store_step (NewStateStore ''ip'') sample_ops) ''x'' (TunnelKey e 8080)) ''x''
       = Inr (e, ''c1-8080'')"
proof -
  obtain e where e: "GetClient (foldl store_step (NewStateStore ''ip'') sample_ops) ''c1'' = Some e"
    "ce_ClientID e = ''c1''"
    by (simp add: sample_run GetClient_def)
  then show ?thesis
    using tunnel_token_lookup [OF store.run_inv [OF store_inv_New sample_ops_keyed] e(1), of 8080 "''x''"]
    by (simp add: TunnelKey_def)
qed



text \<open>The port index is not complete: it keeps one client per port and deleting any proxy on
  the port drops the entry. When two clients hold a proxy on one port, deleting the first one's
  proxy leaves the second one's in place with its port unknown to \<open>GetClientIDByPort\<close>.\<close>

theorem port_index_forgets_shared_port:
  assumes "ps_ClientID p \<noteq> ps_ClientID p'" and "ps_RemotePort p = ps_RemotePort p'"
    and "s = Apply now (proxy_deleted (ps_ClientID p) (ps_RemotePort p))
       (Apply now (proxy_added p') (Apply now (proxy_added p) s0))"
  shows "GetProxy s (ps_ClientID p') (ps_RemotePort p') = Some p' \<and> GetClientIDByPort s (ps_RemotePort p') = None"
proof -
  have "GetProxy s (ps_ClientID p') (ps_RemotePort p') = Some p'"
    using assms by (simp add: GetProxy_added GetProxy_deleted)
  moreover have "GetClientIDByPort s (ps_RemotePort p') = None"
    using assms by (simp add: GetClientIDByPort_def Apply_def applyProxyEvent_def event_defs
        parseProxyFromPayload_def Let_def)
  ultimately show ?thesis by simp
qed

theorem port_index_forgets_shared_port_witness:
  "GetClientIDByPort (Apply 0 (proxy_deleted ''c1'' 8080) (Apply 0 (proxy_added (sample_proxy\<lparr>ps_ClientID := ''c2''\<rparr>))
     (Apply 0 (proxy_added sample_proxy) (NewStateStore '''')))) 8080 = None"
  using port_index_forgets_shared_port [of sample_proxy "sample_proxy\<lparr>ps_ClientID := ''c2''\<rparr>" _ 0 "NewStateStore ''''"]
  by (simp add: sample_proxy_def)

end
