(* ===== verification/Reconcile.thy ===== *)
theory Reconcile
  imports State_Store
begin

text \<open>
  \<open>BBgrid_Server/runtime/reconcile.go\<close>: the engine that drives the actual state to the desired
  state, and \<open>provider.go\<close>, the provider that does so by publishing events.

  \<^item> A provider is a record of operations on a state \<open>'s\<close>; each returns an error or nothing.
  \<^item> Times and durations are nanoseconds. \<open>clk\<close> is the clock at the backoff check of a key and
    \<open>clk'\<close> the clock when a failure of that key is recorded.
  \<^item> The locale \<open>reconcile_provider\<close> is what the engine relies on of a provider; it is
    interpreted on the event provider, whose events the state store applies.
\<close>

section \<open>State\<close>

record 's ReconcileProvider =
  pv_CreateProxy :: "'s \<Rightarrow> string \<Rightarrow> ProxyState \<Rightarrow> string option \<times> 's"
  pv_DeleteProxy :: "'s \<Rightarrow> string \<Rightarrow> int \<Rightarrow> string option \<times> 's"
  pv_CreateRelay :: "'s \<Rightarrow> RelaySession \<Rightarrow> string option \<times> 's"
  pv_DeleteRelay :: "'s \<Rightarrow> string \<Rightarrow> string option \<times> 's"

record ReconcileResult =
  rr_Timestamp :: int
  rr_ProxiesTotal :: nat
  rr_ProxiesFixed :: nat
  rr_ProxiesFailed :: nat
  rr_RelaysTotal :: nat
  rr_RelaysFixed :: nat
  rr_RelaysFailed :: nat
  rr_Duration :: int

record backoff_book =
  bk_count :: "(string, int) gomap"
  bk_time :: "(string, int) gomap"

record ReconcileEngine =
  re_trigger :: bool
  re_last :: "ReconcileResult option"
  re_history :: "ReconcileResult list"
  re_stopped :: bool
  re_done :: bool
  re_proxy :: backoff_book
  re_relay :: backoff_book

definition NewReconcileEngine :: ReconcileEngine where
  "NewReconcileEngine = \<lparr>re_trigger = False, re_last = None, re_history = [], re_stopped = False, re_done = False,
     re_proxy = \<lparr>bk_count = [], bk_time = []\<rparr>, re_relay = \<lparr>bk_count = [], bk_time = []\<rparr>\<rparr>"

section \<open>Backoff\<close>

definition second :: int where "second = 1000000000"
definition minute :: int where "minute = 60 * second"

text \<open>\<open>time.Duration(1<<uint(failCount-1)) * 30 * time.Second\<close>, capped at ten minutes.\<close>

definition raw_backoff :: "int \<Rightarrow> int" where
  "raw_backoff failCount = wrap64 (wrap64 (wrap64 (2 ^ nat (failCount - 1)) * 30) * second)"

definition backoff :: "int \<Rightarrow> int" where
  "backoff failCount = (let b = raw_backoff failCount in if 10 * minute < b then 10 * minute else b)"

definition bk_clear :: "string \<Rightarrow> backoff_book \<Rightarrow> backoff_book" where
  "bk_clear key k = k\<lparr>bk_count := mdel (bk_count k) key, bk_time := mdel (bk_time k) key\<rparr>"

definition bk_fail :: "string \<Rightarrow> int \<Rightarrow> backoff_book \<Rightarrow> backoff_book" where
  "bk_fail key now k = k\<lparr>bk_count := mput (bk_count k) key (wrap64 (mget_or 0 (bk_count k) key + 1)),
     bk_time := mput (bk_time k) key now\<rparr>"

definition backing_off :: "string \<Rightarrow> int \<Rightarrow> backoff_book \<Rightarrow> bool" where
  "backing_off key now k =
     (let failCount = mget_or 0 (bk_count k) key; failTime = mget_or 0 (bk_time k) key in
      0 < failCount \<and> now - failTime < backoff failCount)"

section \<open>One pass\<close>

text \<open>The loops thread the counters (total, fixed, failed), the failure book and the provider.\<close>

type_synonym counters = "nat \<times> nat \<times> nat"

fun create_loop ::
  "('d \<Rightarrow> string) \<Rightarrow> ('s \<Rightarrow> 'd \<Rightarrow> string option \<times> 's) \<Rightarrow> (string \<Rightarrow> int) \<Rightarrow> (string \<Rightarrow> int) \<Rightarrow> string set \<Rightarrow>
   'd list \<Rightarrow> counters \<times> backoff_book \<times> 's \<Rightarrow> counters \<times> backoff_book \<times> 's" where
  "create_loop key create clk clk' actualSet [] st = st"
| "create_loop key create clk clk' actualSet (d # ds) ((tot, fxd, bad), k, s) =
     create_loop key create clk clk' actualSet ds
       (if key d \<in> actualSet then ((tot, fxd, bad), bk_clear (key d) k, s)
        else if backing_off (key d) (clk (key d)) k then ((Suc tot, fxd, bad), k, s)
        else (case create s d of
            (Some err, s') \<Rightarrow> ((Suc tot, fxd, Suc bad), bk_fail (key d) (clk' (key d)) k, s')
          | (None, s') \<Rightarrow> ((Suc tot, Suc fxd, bad), bk_clear (key d) k, s')))"

fun delete_loop ::
  "('a \<Rightarrow> string) \<Rightarrow> ('s \<Rightarrow> 'a \<Rightarrow> string option \<times> 's) \<Rightarrow> string set \<Rightarrow> 'a list \<Rightarrow> counters \<times> 's \<Rightarrow> counters \<times> 's" where
  "delete_loop key delete desiredSet [] st = st"
| "delete_loop key delete desiredSet (a # as) ((tot, fxd, bad), s) =
     delete_loop key delete desiredSet as
       (if key a \<in> desiredSet then ((tot, fxd, bad), s)
        else (case delete s a of
            (Some err, s') \<Rightarrow> ((Suc tot, fxd, Suc bad), s')
          | (None, s') \<Rightarrow> ((Suc tot, Suc fxd, bad), s')))"

definition pd_key :: "ProxyDesiredState \<Rightarrow> string" where
  "pd_key d = proxyKey (pd_ClientID d) (pd_RemotePort d)"

definition pi_key :: "ProxyInfo \<Rightarrow> string" where
  "pi_key a = proxyKey (pi_ClientID a) (pi_RemotePort a)"

definition reconcileProxies ::
  "'s ReconcileProvider \<Rightarrow> (string \<Rightarrow> int) \<Rightarrow> (string \<Rightarrow> int) \<Rightarrow> ProxyDesiredState list \<Rightarrow> ProxyInfo list \<Rightarrow>
   backoff_book \<times> 's \<Rightarrow> counters \<times> backoff_book \<times> 's" where
  "reconcileProxies P clk clk' desired actual ks =
     (let (cnt, k, s) = create_loop pd_key (\<lambda>s d. pv_CreateProxy P s (pd_ClientID d) (proxy_of_desired d))
            clk clk' (pi_key ` set actual) desired ((0, 0, 0), ks);
          (cnt', s') = delete_loop pi_key (\<lambda>s a. pv_DeleteProxy P s (pi_ClientID a) (pi_RemotePort a))
            (pd_key ` set desired) actual (cnt, s)
      in (cnt', k, s'))"

text \<open>The session that \<open>reconcileRelays\<close> builds: \<open>Token\<close> is not among the fields it sets.\<close>

definition relay_to_create :: "RelayDesiredState \<Rightarrow> RelaySession" where
  "relay_to_create d = zero_RelaySession\<lparr>rs_ID := rd_ID d, rs_SourceClient := rd_SourceClient d,
     rs_TargetClient := rd_TargetClient d, rs_Protocol := rd_Protocol d, rs_SourcePort := rd_SourcePort d,
     rs_TargetPort := rd_TargetPort d, rs_TargetLocalIP := rd_TargetLocalIP d,
     rs_SourceLocalIP := rd_SourceLocalIP d\<rparr>"

definition reconcileRelays ::
  "'s ReconcileProvider \<Rightarrow> (string \<Rightarrow> int) \<Rightarrow> (string \<Rightarrow> int) \<Rightarrow> RelayDesiredState list \<Rightarrow> RelaySession list \<Rightarrow>
   backoff_book \<times> 's \<Rightarrow> counters \<times> backoff_book \<times> 's" where
  "reconcileRelays P clk clk' desired actual ks =
     (let (cnt, k, s) = create_loop rd_ID (\<lambda>s d. pv_CreateRelay P s (relay_to_create d))
            clk clk' (rs_ID ` set actual) desired ((0, 0, 0), ks);
          (cnt', s') = delete_loop rs_ID (\<lambda>s a. pv_DeleteRelay P s (rs_ID a)) (rd_ID ` set desired) actual (cnt, s)
      in (cnt', k, s'))"

text \<open>\<open>view\<close> is the state store the engine reads: relays are read after the proxies were reconciled.\<close>

definition doReconcile ::
  "'s ReconcileProvider \<Rightarrow> ('s \<Rightarrow> StateStoreImpl) \<Rightarrow> (string \<Rightarrow> int) \<Rightarrow> (string \<Rightarrow> int) \<Rightarrow> int \<Rightarrow> int \<Rightarrow>
   ReconcileEngine \<times> 's \<Rightarrow> ReconcileEngine \<times> 's" where
  "doReconcile P view clk clk' start finish es =
     (let (e, s) = es;
          ((pt, pf, pe), kp, s1) = reconcileProxies P clk clk' (GetDesiredProxies (view s)) (ListProxies (view s)) (re_proxy e, s);
          ((rt, rf, rx), kr, s2) = reconcileRelays P clk clk' (GetDesiredRelays (view s1)) (ListRelaySessions (view s1)) (re_relay e, s1);
          result = \<lparr>rr_Timestamp = start, rr_ProxiesTotal = pt, rr_ProxiesFixed = pf, rr_ProxiesFailed = pe,
             rr_RelaysTotal = rt, rr_RelaysFixed = rf, rr_RelaysFailed = rx, rr_Duration = finish - start\<rparr>;
          h = re_history e @ [result]
      in (e\<lparr>re_proxy := kp, re_relay := kr, re_last := Some result,
            re_history := (if 100 < length h then tl h else h)\<rparr>, s2))"

definition Trigger :: "ReconcileEngine \<Rightarrow> ReconcileEngine" where
  "Trigger e = e\<lparr>re_trigger := True\<rparr>"

definition engine_Stop :: "ReconcileEngine \<Rightarrow> ReconcileEngine" where
  "engine_Stop e = e\<lparr>re_stopped := True\<rparr>"

definition GetLastResult :: "ReconcileEngine \<Rightarrow> ReconcileResult option" where
  "GetLastResult e = re_last e"

definition GetHistory :: "ReconcileEngine \<Rightarrow> ReconcileResult list" where
  "GetHistory e = re_history e"

text \<open>
  The loop of \<open>Run\<close> and the calls other goroutines make to the engine. The end of the initial delay
  and each tick run a pass, a pending trigger is consumed by one, a seen stop ends the loop; when a
  stop and another wake-up are ready together, the \<open>select\<close> may take either. A wake-up that is not
  possible leaves the state as it is.
\<close>

datatype wake =
    CallTrigger
  | CallStop
  | WTick "string \<Rightarrow> int" "string \<Rightarrow> int" int int
  | WTrigger "string \<Rightarrow> int" "string \<Rightarrow> int" int int
  | WStop

definition engine_step ::
  "'s ReconcileProvider \<Rightarrow> ('s \<Rightarrow> StateStoreImpl) \<Rightarrow> ReconcileEngine \<times> 's \<Rightarrow> wake \<Rightarrow> ReconcileEngine \<times> 's" where
  "engine_step P view es w =
     (let (e, s) = es in
      case w of
        CallTrigger \<Rightarrow> (Trigger e, s)
      | CallStop \<Rightarrow> (engine_Stop e, s)
      | WTick clk clk' t0 t1 \<Rightarrow> if re_done e then es else doReconcile P view clk clk' t0 t1 es
      | WTrigger clk clk' t0 t1 \<Rightarrow>
          if re_done e \<or> \<not> re_trigger e then es
          else doReconcile P view clk clk' t0 t1 (e\<lparr>re_trigger := False\<rparr>, s)
      | WStop \<Rightarrow> if re_stopped e then (e\<lparr>re_done := True\<rparr>, s) else es)"

section \<open>The event provider\<close>

text \<open>
  \<open>EventBusReconcileProvider\<close>: every operation publishes an event and reports no error. \<open>publish\<close>
  is \<open>Core.Publish\<close>.
\<close>

definition relay_event :: "string \<Rightarrow> string \<Rightarrow> any \<Rightarrow> GenericEvent" where
  "relay_event et sid payload = NewGenericEvent '''' 0
     \<lparr>rk_Type = ResourceTypeRelay, rk_Namespace = NamespaceDefault, rk_Name = sid\<rparr> et payload"

definition EventBusReconcileProvider :: "(GenericEvent \<Rightarrow> 's \<Rightarrow> 's) \<Rightarrow> 's ReconcileProvider" where
  "EventBusReconcileProvider publish = \<lparr>
     pv_CreateProxy = (\<lambda>s clientID proxy. (None, publish (proxy_event EventAdded clientID (ps_RemotePort proxy) (AnyProxy proxy)) s)),
     pv_DeleteProxy = (\<lambda>s clientID port. (None, publish (proxy_event EventDeleted clientID port AnyNil) s)),
     pv_CreateRelay = (\<lambda>s session. (None, publish (relay_event EventAdded (rs_ID session) (AnyRelay session)) s)),
     pv_DeleteRelay = (\<lambda>s sid. (None, publish (relay_event EventDeleted sid AnyNil) s))\<rparr>"

section \<open>What the engine relies on\<close>

text \<open>
  The contract of one kind of resource: a successful create makes exactly its key present, a
  successful delete makes exactly its key absent, a failed call changes nothing that is observed.
\<close>

locale reconcile_target =
  fixes dkey :: "'d \<Rightarrow> string"
    and akey :: "'a \<Rightarrow> string"
    and create :: "'s \<Rightarrow> 'd \<Rightarrow> string option \<times> 's"
    and delete :: "'s \<Rightarrow> 'a \<Rightarrow> string option \<times> 's"
    and present :: "'s \<Rightarrow> string \<Rightarrow> bool"
    and inv :: "'s \<Rightarrow> bool"
  assumes create_ok: "inv s \<Longrightarrow> create s d = (None, s') \<Longrightarrow> inv s' \<and> (\<forall>q. present s' q \<longleftrightarrow> q = dkey d \<or> present s q)"
    and create_err: "inv s \<Longrightarrow> create s d = (Some err, s') \<Longrightarrow> inv s' \<and> present s' = present s"
    and delete_ok: "inv s \<Longrightarrow> delete s a = (None, s') \<Longrightarrow> inv s' \<and> (\<forall>q. present s' q \<longleftrightarrow> q \<noteq> akey a \<and> present s q)"
    and delete_err: "inv s \<Longrightarrow> delete s a = (Some err, s') \<Longrightarrow> inv s' \<and> present s' = present s"
begin

text \<open>The create loop only adds wanted keys; when it fixed all it counted, all missing ones.\<close>

lemma create_loop_spec:
  assumes "create_loop dkey create clk clk' A ds ((t0, f0, b0), k, s) = ((t, f, b), k', s')" "inv s"
  shows "inv s' \<and> t0 + f \<le> t + f0 \<and> t0 + f + b \<le> t + f0 + b0 \<and>
     (\<forall>q. present s q \<longrightarrow> present s' q) \<and> (\<forall>q. present s' q \<longrightarrow> present s q \<or> q \<in> dkey ` set ds - A) \<and>
     (t0 + f = t + f0 \<longrightarrow> (\<forall>d \<in> set ds. dkey d \<in> A \<or> present s' (dkey d)))"
  using assms
proof (induction ds arbitrary: t0 f0 b0 k s)
  case (Cons d ds)
  consider "dkey d \<in> A" | "dkey d \<notin> A" "backing_off (dkey d) (clk (dkey d)) k"
    | e s1 where "dkey d \<notin> A" "\<not> backing_off (dkey d) (clk (dkey d)) k" "create s d = (Some e, s1)"
    | s1 where "dkey d \<notin> A" "\<not> backing_off (dkey d) (clk (dkey d)) k" "create s d = (None, s1)"
    by (metis not_Some_eq surj_pair)
  then show ?case
  proof cases
    case 1
    then show ?thesis using Cons.IH [of t0 f0 b0 "bk_clear (dkey d) k" s] Cons.prems by auto
  next
    case 2
    then show ?thesis using Cons.IH [of "Suc t0" f0 b0 k s] Cons.prems by auto
  next
    case 3
    note c = create_err [OF Cons.prems(2) 3(3)]
    from 3 c show ?thesis
      using Cons.IH [of "Suc t0" f0 "Suc b0" "bk_fail (dkey d) (clk' (dkey d)) k" s1] Cons.prems by auto
  next
    case 4
    note c = create_ok [OF Cons.prems(2) 4(3)]
    from 4 c show ?thesis
      using Cons.IH [of "Suc t0" "Suc f0" b0 "bk_clear (dkey d) k" s1] Cons.prems by auto
  qed
qed auto

text \<open>The delete loop only removes unwanted keys; when it fixed all it counted, all of them.\<close>

lemma delete_loop_spec:
  assumes "delete_loop akey delete D as ((t0, f0, b0), s) = ((t, f, b), s')" "inv s"
  shows "inv s' \<and> t0 + f \<le> t + f0 \<and> t0 + f + b = t + f0 + b0 \<and>
     (\<forall>q. present s' q \<longrightarrow> present s q) \<and> (\<forall>q. present s q \<longrightarrow> present s' q \<or> q \<in> akey ` set as - D) \<and>
     (t0 + f = t + f0 \<longrightarrow> (\<forall>q \<in> akey ` set as - D. \<not> present s' q))"
  using assms
proof (induction as arbitrary: t0 f0 b0 s)
  case (Cons a as)
  consider "akey a \<in> D" | e s1 where "akey a \<notin> D" "delete s a = (Some e, s1)"
    | s1 where "akey a \<notin> D" "delete s a = (None, s1)"
    by (metis not_Some_eq surj_pair)
  then show ?case
  proof cases
    case 1
    then show ?thesis using Cons.IH [of t0 f0 b0 s] Cons.prems by auto
  next
    case 2
    note c = delete_err [OF Cons.prems(2) 2(2)]
    from 2 c show ?thesis using Cons.IH [of "Suc t0" f0 "Suc b0" s1] Cons.prems by auto
  next
    case 3
    note c = delete_ok [OF Cons.prems(2) 3(2)]
    from 3 c show ?thesis using Cons.IH [of "Suc t0" "Suc f0" b0 s1] Cons.prems by auto
  qed
qed auto

text \<open>One pass over both loops.\<close>

lemma pass_spec:
  assumes "create_loop dkey create clk clk' (akey ` set actual) desired ((0, 0, 0), k, s) = (cnt, k', s1)"
    and "delete_loop akey delete (dkey ` set desired) actual (cnt, s1) = ((t, f, b), s')"
    and "inv s" and "\<forall>q. present s q \<longleftrightarrow> q \<in> akey ` set actual"
  shows "inv s' \<and> f + b \<le> t \<and>
     (\<forall>q. present s' q \<longrightarrow> q \<in> akey ` set actual \<or> q \<in> dkey ` set desired) \<and>
     (\<forall>q \<in> dkey ` set desired \<inter> akey ` set actual. present s' q) \<and>
     (f = t \<longrightarrow> (\<forall>q. present s' q \<longleftrightarrow> q \<in> dkey ` set desired))"
proof -
  obtain t1 f1 b1 where cnt: "cnt = (t1, f1, b1)" by (cases cnt)
  note c = create_loop_spec [OF assms(1) [unfolded cnt] assms(3)]
  note d = delete_loop_spec [OF assms(2) [unfolded cnt] c [THEN conjunct1]]
  have cadd: "\<And>q. present s1 q \<Longrightarrow> present s q \<or> q \<in> dkey ` set desired - akey ` set actual"
    and ckeep: "\<And>q. present s q \<Longrightarrow> present s1 q"
    and call: "f1 = t1 \<Longrightarrow> d \<in> set desired \<Longrightarrow> dkey d \<in> akey ` set actual \<or> present s1 (dkey d)" for d
    using c by auto
  have dsub: "\<And>q. present s' q \<Longrightarrow> present s1 q"
    and dkeep: "\<And>q. present s1 q \<Longrightarrow> present s' q \<or> q \<in> akey ` set actual - dkey ` set desired"
    and dall: "\<And>q. t1 + f = t + f1 \<Longrightarrow> q \<in> akey ` set actual - dkey ` set desired \<Longrightarrow> \<not> present s' q"
    using d by auto
  have "f1 \<le> t1" "f1 + b1 \<le> t1" "t1 + f \<le> t + f1" "t1 + f + b = t + f1 + b1" using c d by simp_all
  then have cnts: "f + b \<le> t" "f = t \<Longrightarrow> f1 = t1 \<and> t1 + f = t + f1" by linarith+
  have "present s' q \<longleftrightarrow> q \<in> dkey ` set desired" if "f = t" for q
  proof
    show "q \<in> dkey ` set desired" if "present s' q"
      using that cadd [OF dsub [OF that]] dall [of q] cnts(2) [OF \<open>f = t\<close>] assms(4) by blast
    show "present s' q" if q: "q \<in> dkey ` set desired"
    proof -
      have "present s1 q" using q call cnts(2) [OF \<open>f = t\<close>] ckeep assms(4) by blast
      then show ?thesis using dkeep q by blast
    qed
  qed
  moreover have "present s' q" if "q \<in> dkey ` set desired \<inter> akey ` set actual" for q
    using that dkeep [OF ckeep] assms(4) by blast
  moreover have "q \<in> akey ` set actual \<or> q \<in> dkey ` set desired" if "present s' q" for q
    using cadd [OF dsub [OF that]] assms(4) by blast
  ultimately show ?thesis using d cnts(1) by blast
qed

end

text \<open>A provider that reports no error, with no failure on record, fixes all it counts.\<close>

lemma create_loop_all_fixed:
  assumes "create_loop key create clk clk' A ds ((t0, f0, b0), k, s) = ((t, f, b), k', s')"
    and "\<And>s d. fst (create s d) = None" and "bk_count k = []"
  shows "t0 + f = t + f0 \<and> b = b0 \<and> bk_count k' = []"
  using assms(1,3)
proof (induction ds arbitrary: t0 f0 b0 k s)
  case (Cons d ds)
  obtain s1 where s1: "create s d = (None, s1)" using assms(2) [of s d] by (cases "create s d") simp
  have nb: "\<not> backing_off (key d) now k" for now using Cons.prems(2) by (simp add: backing_off_def mget_or_def)
  have clr: "bk_count (bk_clear (key d) k) = []" using Cons.prems(2) by (simp add: bk_clear_def)
  show ?case
  proof (cases "key d \<in> A")
    case True
    then show ?thesis using Cons.IH [OF _ clr, of t0 f0 b0 s] Cons.prems(1) by simp
  next
    case False
    then show ?thesis using Cons.IH [OF _ clr, of "Suc t0" "Suc f0" b0 s1] Cons.prems(1) nb s1 by simp
  qed
qed auto

lemma delete_loop_all_fixed:
  assumes "delete_loop key delete D as ((t0, f0, b0), s) = ((t, f, b), s')" and "\<And>s a. fst (delete s a) = None"
  shows "t0 + f = t + f0 \<and> b = b0"
  using assms(1)
proof (induction as arbitrary: t0 f0 b0 s)
  case (Cons a as)
  obtain s1 where s1: "delete s a = (None, s1)" using assms(2) [of s a] by (cases "delete s a") simp
  show ?case
    using Cons.IH [of t0 f0 b0 s] Cons.IH [of "Suc t0" "Suc f0" b0 s1] Cons.prems s1 by (cases "key a \<in> D") simp_all
qed auto

section \<open>The event provider meets the contract\<close>

text \<open>
  With the state store applying each published event. The remaining resources are kept, which is
  the invariant of each interpretation.
\<close>

abbreviation store_provider :: "int \<Rightarrow> StateStoreImpl ReconcileProvider" where
  "store_provider now \<equiv> EventBusReconcileProvider (Apply now)"

interpretation store_proxies: reconcile_target pd_key pi_key
    "\<lambda>s d. pv_CreateProxy (store_provider now) s (pd_ClientID d) (proxy_of_desired d)"
    "\<lambda>s a. pv_DeleteProxy (store_provider now) s (pi_ClientID a) (pi_RemotePort a)"
    "\<lambda>s k. mget (ss_proxies s) k \<noteq> None"
    "\<lambda>s. ss_relays s = R \<and> ss_desiredRelays s = D" for now R D
  by unfold_locales
    (auto simp: EventBusReconcileProvider_def Apply_def applyProxyEvent_def event_defs parseProxyFromPayload_def
      Let_def pd_key_def pi_key_def split: if_splits)

interpretation store_relays: reconcile_target rd_ID rs_ID
    "\<lambda>s d. pv_CreateRelay (store_provider now) s (relay_to_create d)"
    "\<lambda>s a. pv_DeleteRelay (store_provider now) s (rs_ID a)"
    "\<lambda>s k. mget (ss_relays s) k \<noteq> None"
    "\<lambda>s. ss_proxies s = R \<and> ss_desiredProxies s = D" for now R D
  by unfold_locales
    (auto simp: EventBusReconcileProvider_def Apply_def applyRelayEvent_def relay_event_def NewGenericEvent_def
      Let_def relay_to_create_def split: if_splits)

lemma store_provider_no_error [simp]:
  "fst (pv_CreateProxy (EventBusReconcileProvider pub) s c p) = None" "fst (pv_DeleteProxy (EventBusReconcileProvider pub) s c q) = None"
  "fst (pv_CreateRelay (EventBusReconcileProvider pub) s r) = None" "fst (pv_DeleteRelay (EventBusReconcileProvider pub) s i) = None"
  by (simp_all add: EventBusReconcileProvider_def)

text \<open>Entries stand under the keys of their own fields; \<open>store_inv\<close> implies it.\<close>

definition proxies_keyed :: "StateStoreImpl \<Rightarrow> bool" where
  "proxies_keyed s \<longleftrightarrow> list_all (\<lambda>(k, p). k = proxyKey (ps_ClientID p) (ps_RemotePort p)) (ss_proxies s)"

definition relays_keyed :: "StateStoreImpl \<Rightarrow> bool" where
  "relays_keyed s \<longleftrightarrow> list_all (\<lambda>(k, r). k = rs_ID r) (ss_relays s)"

lemma ListProxies_keys:
  assumes "proxies_keyed s"
  shows "pi_key ` set (ListProxies s) = mkeys (ss_proxies s)"
proof -
  have "pi_key ` set (ListProxies s) = (\<lambda>(k, p). proxyKey (ps_ClientID p) (ps_RemotePort p)) ` set (ss_proxies s)"
    by (simp add: ListProxies_def pi_key_def image_image case_prod_beta)
  also have "\<dots> = mkeys (ss_proxies s)"
    using assms by (intro image_cong) (auto simp: proxies_keyed_def list_all_iff)
  finally show ?thesis .
qed

lemma ListRelays_keys:
  assumes "relays_keyed s"
  shows "rs_ID ` set (ListRelaySessions s) = mkeys (ss_relays s)"
proof -
  have "rs_ID ` set (ListRelaySessions s) = (\<lambda>(k, r). rs_ID r) ` set (ss_relays s)"
    by (simp add: ListRelaySessions_def image_image case_prod_beta)
  also have "\<dots> = mkeys (ss_relays s)"
    using assms by (intro image_cong) (auto simp: relays_keyed_def list_all_iff)
  finally show ?thesis .
qed

lemma store_inv_keyed:
  assumes "store_inv s"
  shows "proxies_keyed s" "relays_keyed s"
proof -
  have wf: "wf_map (ss_proxies s)" "wf_map (ss_relays s)" using assms by (simp_all add: store_inv_def store_wf_def)
  have "proxyKey (ps_ClientID p) (ps_RemotePort p) = k" if "(k, p) \<in> set (ss_proxies s)" for k p
    using that wf by (intro proxies_ok_key [OF assms] map_of_is_SomeI)
  moreover have "rs_ID r = k" if "(k, r) \<in> set (ss_relays s)" for k r
    using map_of_is_SomeI [OF wf(2) that] assms by (simp add: store_inv_def relays_ok_def)
  ultimately show "proxies_keyed s" "relays_keyed s" by (auto simp: proxies_keyed_def relays_keyed_def list_all_iff)
qed

lemma loop_result:
  obtains t f b k s where "x = ((t :: nat, f :: nat, b :: nat), k :: backoff_book, s)"
  by (cases x) auto

lemma reconcileProxies_store:
  assumes "proxies_keyed s" "bk_count k = []"
    and "reconcileProxies (store_provider now) clk clk' desired (ListProxies s) (k, s) = ((t, f, b), k', s')"
  shows "(\<forall>q. mget (ss_proxies s') q \<noteq> None \<longleftrightarrow> q \<in> pd_key ` set desired) \<and> f = t \<and> b = 0 \<and>
     ss_relays s' = ss_relays s \<and> ss_desiredRelays s' = ss_desiredRelays s \<and> bk_count k' = []"
proof -
  obtain t1 f1 b1 k1 s1 where c: "create_loop pd_key (\<lambda>s d. pv_CreateProxy (store_provider now) s (pd_ClientID d) (proxy_of_desired d))
      clk clk' (pi_key ` set (ListProxies s)) desired ((0, 0, 0), k, s) = ((t1, f1, b1), k1, s1)"
    by (rule loop_result)
  with assms(3) have d: "delete_loop pi_key (\<lambda>s a. pv_DeleteProxy (store_provider now) s (pi_ClientID a) (pi_RemotePort a))
      (pd_key ` set desired) (ListProxies s) ((t1, f1, b1), s1) = ((t, f, b), s')" and k: "k' = k1"
    by (auto simp: reconcileProxies_def split: prod.splits)
  have ft: "f1 = t1 \<and> b1 = 0 \<and> bk_count k1 = []" using create_loop_all_fixed [OF c _ assms(2)] by simp
  then have "f = t \<and> b = 0" using delete_loop_all_fixed [OF d] by simp
  moreover have "\<forall>q. mget (ss_proxies s) q \<noteq> None \<longleftrightarrow> q \<in> pi_key ` set (ListProxies s)"
    by (simp add: ListProxies_keys [OF assms(1)] mkeys_mget del: not_None_eq)
  ultimately show ?thesis
    using store_proxies.pass_spec [OF c d, of "ss_relays s" "ss_desiredRelays s"] ft k by simp
qed

lemma reconcileRelays_store:
  assumes "relays_keyed s" "bk_count k = []"
    and "reconcileRelays (store_provider now) clk clk' desired (ListRelaySessions s) (k, s) = ((t, f, b), k', s')"
  shows "(\<forall>q. mget (ss_relays s') q \<noteq> None \<longleftrightarrow> q \<in> rd_ID ` set desired) \<and> f = t \<and> b = 0 \<and>
     ss_proxies s' = ss_proxies s \<and> ss_desiredProxies s' = ss_desiredProxies s \<and> bk_count k' = []"
proof -
  obtain t1 f1 b1 k1 s1 where c: "create_loop rd_ID (\<lambda>s d. pv_CreateRelay (store_provider now) s (relay_to_create d))
      clk clk' (rs_ID ` set (ListRelaySessions s)) desired ((0, 0, 0), k, s) = ((t1, f1, b1), k1, s1)"
    by (rule loop_result)
  with assms(3) have d: "delete_loop rs_ID (\<lambda>s a. pv_DeleteRelay (store_provider now) s (rs_ID a))
      (rd_ID ` set desired) (ListRelaySessions s) ((t1, f1, b1), s1) = ((t, f, b), s')" and k: "k' = k1"
    by (auto simp: reconcileRelays_def split: prod.splits)
  have ft: "f1 = t1 \<and> b1 = 0 \<and> bk_count k1 = []" using create_loop_all_fixed [OF c _ assms(2)] by simp
  then have "f = t \<and> b = 0" using delete_loop_all_fixed [OF d] by simp
  moreover have "\<forall>q. mget (ss_relays s) q \<noteq> None \<longleftrightarrow> q \<in> rs_ID ` set (ListRelaySessions s)"
    by (simp add: ListRelays_keys [OF assms(1)] mkeys_mget del: not_None_eq)
  ultimately show ?thesis
    using store_relays.pass_spec [OF c d, of "ss_proxies s" "ss_desiredProxies s"] ft k by simp
qed

section \<open>Backoff arithmetic\<close>

lemma wrap64_cong: "x mod 2 ^ 64 = y mod 2 ^ 64 \<Longrightarrow> wrap64 x = wrap64 y"
  unfolding wrap64_def by (metis mod_add_left_eq)

lemma wrap64_mod: "wrap64 x mod 2 ^ 64 = x mod 2 ^ 64"
proof -
  have "wrap64 x mod 2 ^ 64 = (x + 2 ^ 63 - 2 ^ 63) mod 2 ^ 64"
    unfolding wrap64_def by (rule mod_diff_left_eq)
  then show ?thesis by simp
qed

lemma wrap64_mult [simp]: "wrap64 (wrap64 x * c) = wrap64 (x * c)"
  by (rule wrap64_cong) (metis mod_mult_left_eq wrap64_mod)

lemma raw_backoff_alt: "raw_backoff n = wrap64 (2 ^ nat (n - 1) * 30000000000)"
  by (simp add: raw_backoff_def second_def mult.assoc)

lemma raw_backoff_exact:
  assumes "1 \<le> n" "n \<le> 29"
  shows "raw_backoff n = 30 * second * 2 ^ nat (n - 1)"
proof -
  have "nat (n - 1) \<le> 28" using assms by simp
  then have "(2 :: int) ^ nat (n - 1) \<le> 2 ^ 28" by (intro power_increasing) simp_all
  moreover have "0 < (2 :: int) ^ nat (n - 1)" by simp
  moreover have "wrap64 (x * 30000000000) = x * 30000000000" if "0 < x" "x \<le> 2 ^ 28" for x :: int
    using that by (intro wrap64_id) simp_all
  ultimately have "wrap64 (2 ^ nat (n - 1) * 30000000000) = 2 ^ nat (n - 1) * 30000000000" by blast
  then show ?thesis unfolding raw_backoff_alt second_def by simp
qed

lemma raw_backoff_zero:
  assumes "55 \<le> n"
  shows "raw_backoff n = 0"
proof -
  have m: "nat (n - 1) = 54 + nat (n - 55)" using assms by simp
  have "(2 :: int) ^ nat (n - 1) * 30000000000 = 2 ^ 64 * (2 ^ nat (n - 55) * 29296875)"
    unfolding m power_add by simp
  then have "((2 :: int) ^ nat (n - 1) * 30000000000) mod 2 ^ 64 = 0 mod 2 ^ 64" by (simp only: mod_mult_self1_is_0 mod_0)
  from wrap64_cong [OF this] have "raw_backoff n = wrap64 0" by (simp only: raw_backoff_alt)
  also have "wrap64 0 = 0" by (simp add: wrap64_def)
  finally show ?thesis .
qed

lemma create_loop_idle:
  "(\<forall>d \<in> set ds. key d \<in> A) \<Longrightarrow> \<exists>k'. create_loop key create clk clk' A ds (cnt, k, s) = (cnt, k', s)"
  by (induction ds arbitrary: k) (cases cnt, auto)+

lemma delete_loop_idle:
  "(\<forall>a \<in> set as. key a \<in> D) \<Longrightarrow> delete_loop key delete D as (cnt, s) = (cnt, s)"
  by (induction as) (cases cnt, auto)+

lemma consistent_keys:
  assumes "store_inv s" "list_all (\<lambda>(k, p). ps_ClientID p \<noteq> [] \<and> ps_RemotePort p \<noteq> 0) (ss_proxies s)"
    "list_all (\<lambda>(k, r). rs_ID r \<noteq> []) (ss_relays s)"
  shows "pd_key ` set (GetDesiredProxies s) = pi_key ` set (ListProxies s)"
    "rd_ID ` set (GetDesiredRelays s) = rs_ID ` set (ListRelaySessions s)"
proof -
  note wf = assms(1) [unfolded store_inv_def store_wf_def]
  have "pd_key ` set (GetDesiredProxies s) = mkeys (ss_proxies s)"
  proof (intro set_eqI iffI)
    fix k assume "k \<in> pd_key ` set (GetDesiredProxies s)"
    then obtain k' d where d: "(k', d) \<in> set (ss_desiredProxies s)" "k = pd_key d"
      by (auto simp: GetDesiredProxies_def)
    then have "k' = k" using desired_proxy_keyed [OF assms(1)] by (simp add: pd_key_def)
    then have "mget (ss_desiredProxies s) k = Some d" using d wf by (simp add: map_of_is_SomeI)
    then show "k \<in> mkeys (ss_proxies s)"
      unfolding mkeys_mget using proxies_of_desired [OF assms(1), of k] by simp
  next
    fix k assume "k \<in> mkeys (ss_proxies s)"
    then obtain p where p: "(k, p) \<in> set (ss_proxies s)" by force
    then have g: "mget (ss_proxies s) k = Some p" using wf by (simp add: map_of_is_SomeI)
    then have "mget (ss_desiredProxies s) k = Some (desired_of_proxy p)"
      using assms(1) by (simp add: store_inv_def proxies_ok_def)
    then have "(k, desired_of_proxy p) \<in> set (ss_desiredProxies s)" by (rule map_of_SomeD)
    then have "desired_of_proxy p \<in> set (GetDesiredProxies s)"
      using assms(2) p by (force simp: GetDesiredProxies_def list_all_iff desired_of_proxy_def)
    moreover have "k = pd_key (desired_of_proxy p)"
      using proxies_ok_key [OF assms(1) g] by (simp add: pd_key_def desired_of_proxy_def)
    ultimately show "k \<in> pd_key ` set (GetDesiredProxies s)" by blast
  qed
  then show "pd_key ` set (GetDesiredProxies s) = pi_key ` set (ListProxies s)"
    by (simp add: ListProxies_keys store_inv_keyed assms(1))
  have "rd_ID ` set (GetDesiredRelays s) = mkeys (ss_relays s)"
  proof (intro set_eqI iffI)
    fix k assume "k \<in> rd_ID ` set (GetDesiredRelays s)"
    then obtain k' d where d: "(k', d) \<in> set (ss_desiredRelays s)" "k = rd_ID d"
      by (auto simp: GetDesiredRelays_def)
    then have "k' = k" using desired_relay_keyed [OF assms(1)] by simp
    then have "mget (ss_desiredRelays s) k = Some d" using d wf by (simp add: map_of_is_SomeI)
    then show "k \<in> mkeys (ss_relays s)"
      unfolding mkeys_mget using assms(1) by (auto simp: store_inv_def relays_ok_def)
  next
    fix k assume "k \<in> mkeys (ss_relays s)"
    then obtain r where r: "(k, r) \<in> set (ss_relays s)" by force
    then have g: "mget (ss_relays s) k = Some r" using wf by (simp add: map_of_is_SomeI)
    then have "mget (ss_desiredRelays s) k = Some (desired_of_relay r)" "rs_ID r = k"
      using assms(1) by (simp_all add: store_inv_def relays_ok_def)
    then have "(k, desired_of_relay r) \<in> set (ss_desiredRelays s)" "rd_ID (desired_of_relay r) = k"
      by (simp_all add: map_of_SomeD desired_of_relay_def)
    moreover have "k \<noteq> []" using assms(3) r \<open>rs_ID r = k\<close> by (auto simp: list_all_iff)
    ultimately show "k \<in> rd_ID ` set (GetDesiredRelays s)" by (force simp: GetDesiredRelays_def)
  qed
  then show "rd_ID ` set (GetDesiredRelays s) = rs_ID ` set (ListRelaySessions s)"
    by (simp add: ListRelays_keys store_inv_keyed assms(1))
qed

definition engine_inv :: "ReconcileEngine \<Rightarrow> bool" where
  "engine_inv e \<longleftrightarrow> length (re_history e) \<le> 100 \<and>
     re_last e = (if re_history e = [] then None else Some (last (re_history e))) \<and> (re_done e \<longrightarrow> re_stopped e)"

lemma engine_inv_push:
  assumes "engine_inv e" "h = re_history e @ [r]"
  shows "engine_inv (e\<lparr>re_proxy := kp, re_relay := kr, re_last := Some r, re_history := (if 100 < length h then tl h else h)\<rparr>)"
proof (cases "100 < length h")
  case True
  then have "re_history e \<noteq> []" using assms(2) by auto
  then have "tl h = tl (re_history e) @ [r]" using assms(2) by simp
  then show ?thesis using assms True by (simp add: engine_inv_def) linarith
qed (use assms in \<open>simp add: engine_inv_def\<close>)

lemma engine_inv_doReconcile:
  assumes "engine_inv e"
  shows "engine_inv (fst (doReconcile P view clk clk' t0 t1 (e, s)))"
proof -
  obtain pt pf pe kp s1 where p: "reconcileProxies P clk clk' (GetDesiredProxies (view s)) (ListProxies (view s)) (re_proxy e, s)
      = ((pt, pf, pe), kp, s1)" by (rule loop_result)
  obtain rt rf rx kr s2 where r: "reconcileRelays P clk clk' (GetDesiredRelays (view s1)) (ListRelaySessions (view s1)) (re_relay e, s1)
      = ((rt, rf, rx), kr, s2)" by (rule loop_result)
  show ?thesis
    unfolding doReconcile_def Let_def prod.case p r fst_conv by (rule engine_inv_push [OF assms refl])
qed

lemma engine_inv_step: "engine_inv (fst es) \<Longrightarrow> engine_inv (fst (engine_step P view es w))"
  by (cases es; cases w)
    (auto simp: engine_step_def Trigger_def engine_Stop_def intro!: engine_inv_doReconcile, auto simp: engine_inv_def)

interpretation engine: invariant_run "engine_step P view" "\<lambda>es. engine_inv (fst es)" "\<lambda>_. True" for P view
  by unfold_locales (rule engine_inv_step)

section \<open>Properties\<close>



text \<open>C32. The engine is quiet on a consistent store: for a store that satisfies its invariant and
  whose proxies and relays have non-empty identifiers and non-zero ports, a pass finds nothing to
  do, calls no provider and leaves the store as it is.\<close>

theorem reconcile_idle_on_consistent_store:
  assumes "store_inv s" and "list_all (\<lambda>(k, p). ps_ClientID p \<noteq> [] \<and> ps_RemotePort p \<noteq> 0) (ss_proxies s)"
    and "list_all (\<lambda>(k, r). rs_ID r \<noteq> []) (ss_relays s)"
    and "doReconcile P (\<lambda>s. s) clk clk' t0 t1 (e, s) = (e', s')"
  shows "s' = s \<and> GetLastResult e' = Some \<lparr>rr_Timestamp = t0, rr_ProxiesTotal = 0, rr_ProxiesFixed = 0, rr_ProxiesFailed = 0,
     rr_RelaysTotal = 0, rr_RelaysFixed = 0, rr_RelaysFailed = 0, rr_Duration = t1 - t0\<rparr>"
proof -
  note keys = consistent_keys [OF assms(1-3)]
  have px: "\<forall>d \<in> set (GetDesiredProxies s). pd_key d \<in> pi_key ` set (ListProxies s)"
    "\<forall>a \<in> set (ListProxies s). pi_key a \<in> pd_key ` set (GetDesiredProxies s)"
    and rl: "\<forall>d \<in> set (GetDesiredRelays s). rd_ID d \<in> rs_ID ` set (ListRelaySessions s)"
    "\<forall>a \<in> set (ListRelaySessions s). rs_ID a \<in> rd_ID ` set (GetDesiredRelays s)"
    by (simp_all flip: keys) (simp_all add: keys)
  obtain kp where c: "create_loop pd_key (\<lambda>s d. pv_CreateProxy P s (pd_ClientID d) (proxy_of_desired d)) clk clk'
      (pi_key ` set (ListProxies s)) (GetDesiredProxies s) ((0, 0, 0), re_proxy e, s) = ((0, 0, 0), kp, s)"
    using create_loop_idle [OF px(1)] by metis
  obtain kr where r: "create_loop rd_ID (\<lambda>s d. pv_CreateRelay P s (relay_to_create d)) clk clk'
      (rs_ID ` set (ListRelaySessions s)) (GetDesiredRelays s) ((0, 0, 0), re_relay e, s) = ((0, 0, 0), kr, s)"
    using create_loop_idle [OF rl(1)] by metis
  have "reconcileProxies P clk clk' (GetDesiredProxies s) (ListProxies s) (re_proxy e, s) = ((0, 0, 0), kp, s)"
    unfolding reconcileProxies_def c by (simp add: delete_loop_idle [OF px(2)])
  moreover have "reconcileRelays P clk clk' (GetDesiredRelays s) (ListRelaySessions s) (re_relay e, s) = ((0, 0, 0), kr, s)"
    unfolding reconcileRelays_def r by (simp add: delete_loop_idle [OF rl(2)])
  ultimately show ?thesis using assms(4) by (auto simp: doReconcile_def GetLastResult_def Let_def)
qed

theorem reconcile_idle_on_consistent_store_witness:
  "snd (doReconcile (EventBusReconcileProvider (Apply 0)) (\<lambda>s. s) (\<lambda>_. 0) (\<lambda>_. 0) 0 0
     (NewReconcileEngine, foldl store_step (NewStateStore ''ip'') sample_ops)) = foldl store_step (NewStateStore ''ip'') sample_ops"
proof -
  have "list_all (\<lambda>(k, p). ps_ClientID p \<noteq> [] \<and> ps_RemotePort p \<noteq> 0) (ss_proxies (foldl store_step (NewStateStore ''ip'') sample_ops))"
    "list_all (\<lambda>(k, r). rs_ID r \<noteq> []) (ss_relays (foldl store_step (NewStateStore ''ip'') sample_ops))"
    by (simp_all add: sample_run sample_proxy_def)
  note idle = reconcile_idle_on_consistent_store [OF store.run_inv [OF store_inv_New sample_ops_keyed] this]
  show ?thesis by (rule conjunct1 [OF idle [OF surjective_pairing]])
qed

text \<open>The waiting time after the n-th consecutive failure of a resource is 30 seconds doubled
  each time and never more than ten minutes, for every n up to 29.\<close>

theorem backoff_doubles_to_cap:
  assumes "1 \<le> n" and "n \<le> 29"
  shows "backoff n = min (30 * second * 2 ^ nat (n - 1)) (10 * minute) \<and> 0 < backoff n \<and>
     (n < 29 \<longrightarrow> backoff n \<le> backoff (n + 1))"
proof -
  have b: "backoff m = min (30 * second * 2 ^ nat (m - 1)) (10 * minute)" if "1 \<le> m" "m \<le> 29" for m
    using raw_backoff_exact [OF that] by (simp add: backoff_def Let_def min_def not_le)
  have "(2 :: int) ^ nat (n - 1) \<le> 2 ^ nat n" by (intro power_increasing) simp_all
  then have "min (30 * second * 2 ^ nat (n - 1)) (10 * minute) \<le> min (30 * second * 2 ^ nat n) (10 * minute)"
    by (intro min.mono mult_left_mono) (simp_all add: second_def)
  then have "backoff n \<le> backoff (n + 1)" if "n < 29"
    using b [OF assms] b [of "n + 1"] assms(1) that by simp
  moreover have "0 < backoff n" using b [OF assms] by (simp add: second_def minute_def)
  ultimately show ?thesis using b [OF assms] by blast
qed

theorem backoff_doubles_to_cap_witness: "backoff 3 = 120 * second"
  using backoff_doubles_to_cap [of 3] by (simp add: second_def minute_def)

text \<open>After 30 consecutive failures the waiting time is lost: the 64-bit product overflows and is
  negative, and from the 55th failure on it is zero, so a resource that keeps failing is tried again
  on every pass as if it had never failed.\<close>

theorem backoff_overflows:
  assumes "mget_or 0 (bk_count k) key = n" and "n = 30 \<or> 55 \<le> n" and "mget_or 0 (bk_time k) key \<le> now"
  shows "backoff n \<le> 0 \<and> \<not> backing_off key now k"
proof -
  have "raw_backoff 30 < 0" by (simp add: raw_backoff_alt wrap64_def)
  then have "raw_backoff n \<le> 0" using assms(2) raw_backoff_zero [of n] by auto
  then have "backoff n \<le> 0" by (simp add: backoff_def Let_def minute_def second_def)
  then show ?thesis using assms by (simp add: backing_off_def Let_def)
qed

theorem backoff_overflows_witness:
  "\<not> backing_off ''c1:8080'' 5 \<lparr>bk_count = [(''c1:8080'', 30)], bk_time = [(''c1:8080'', 5)]\<rparr> \<and>
   backing_off ''c1:8080'' 5 \<lparr>bk_count = [(''c1:8080'', 29)], bk_time = [(''c1:8080'', 5)]\<rparr>"
  using backoff_overflows [of "\<lparr>bk_count = [(''c1:8080'', 30)], bk_time = [(''c1:8080'', 5)]\<rparr>" "''c1:8080''" 30 5]
  by (simp add: mget_or_def backing_off_def backoff_def raw_backoff_exact second_def minute_def)

text \<open>Whatever wakes the loop and whatever the provider does, the engine keeps at most the last
  100 results, the last of them is the one \<open>GetLastResult\<close> reports, and after the loop has seen
  the stop no pass runs any more.\<close>

theorem reconcile_history_bounded:
  fixes P :: "'s ReconcileProvider"
  assumes "es = foldl (engine_step P view) (NewReconcileEngine, s) ws"
  shows "length (GetHistory (fst es)) \<le> 100 \<and>
     GetLastResult (fst es) = (if GetHistory (fst es) = [] then None else Some (last (GetHistory (fst es)))) \<and>
     (re_done (fst es) \<longrightarrow> snd (engine_step P view es (WTick clk clk' t0 t1)) = snd es \<and>
        snd (engine_step P view es (WTrigger clk clk' t0 t1)) = snd es)"
proof -
  have "engine_inv (fst es)"
    using engine.run_inv [of "(NewReconcileEngine, s)" ws P view] assms
    by (simp add: engine_inv_def NewReconcileEngine_def list_all_iff)
  then show ?thesis by (auto simp: engine_inv_def GetHistory_def GetLastResult_def engine_step_def split: prod.splits)
qed

theorem reconcile_history_bounded_witness:
  "length (GetHistory (fst (foldl (engine_step (EventBusReconcileProvider (Apply 0)) (\<lambda>s. s)) (NewReconcileEngine, NewStateStore '''')
     [WTick (\<lambda>_. 0) (\<lambda>_. 0) 0 1, CallStop, WStop]))) \<le> 100"
  by (rule conjunct1 [OF reconcile_history_bounded [OF refl]])

text \<open>A relay the engine recreates has lost its token: the session it builds from the desired
  state leaves \<open>Token\<close> out, and the ADDED event it publishes writes the empty token into the
  desired state too, so the next snapshot has lost it as well.\<close>

theorem reconcile_recreates_relay_without_token:
  assumes "GetDesiredRelays s = [d]" and "ListRelaySessions s = []" and "bk_count k = []"
    and "reconcileRelays (EventBusReconcileProvider (Apply now)) clk clk' (GetDesiredRelays s) (ListRelaySessions s) (k, s) = (cnt, k', s')"
  shows "\<exists>r. GetRelaySession s' (rd_ID d) = Some r \<and> desired_of_relay r = d\<lparr>rd_Token := []\<rparr> \<and> rs_Token r = [] \<and>
     mget (snd (Snapshot s')) (rd_ID d) = Some (d\<lparr>rd_Token := []\<rparr>)"
proof -
  have nb: "\<not> backing_off q t k" for q t using assms(3) by (simp add: backing_off_def mget_or_def)
  have s': "s' = Apply now (relay_event EventAdded (rd_ID d) (AnyRelay (relay_to_create d))) s"
    using assms nb by (simp add: reconcileRelays_def EventBusReconcileProvider_def relay_to_create_def)
  have "desired_of_relay (relay_to_create d) = d\<lparr>rd_Token := []\<rparr>" "rs_ID (relay_to_create d) = rd_ID d"
    "rs_Token (relay_to_create d) = []"
    by (simp_all add: desired_of_relay_def relay_to_create_def zero_RelaySession_def)
  then show ?thesis
    by (simp add: s' GetRelaySession_def Snapshot_def Apply_def applyRelayEvent_def relay_event_def NewGenericEvent_def)
qed

definition sample_relay :: RelayDesiredState where
  "sample_relay = \<lparr>rd_ID = ''r1'', rd_SourceClient = ''a'', rd_TargetClient = ''b'', rd_Protocol = ''tcp'', rd_SourcePort = 1,
     rd_TargetPort = 2, rd_TargetLocalIP = '''', rd_SourceLocalIP = '''', rd_Token = ''secret''\<rparr>"

theorem reconcile_recreates_relay_without_token_witness:
  "\<exists>s' r cnt k'. reconcileRelays (EventBusReconcileProvider (Apply 0)) (\<lambda>_. 0) (\<lambda>_. 0) [sample_relay] []
      (\<lparr>bk_count = [], bk_time = []\<rparr>, (NewStateStore '''')\<lparr>ss_desiredRelays := [(''r1'', sample_relay)]\<rparr>) = (cnt, k', s') \<and>
     GetRelaySession s' ''r1'' = Some r \<and> rs_Token r = []"
proof -
  let ?s = "(NewStateStore '''')\<lparr>ss_desiredRelays := [(''r1'', sample_relay)]\<rparr>" and ?k = "\<lparr>bk_count = [], bk_time = []\<rparr>"
  have d: "GetDesiredRelays ?s = [sample_relay]" "ListRelaySessions ?s = []" "bk_count ?k = []"
    by (simp_all add: GetDesiredRelays_def ListRelaySessions_def NewStateStore_def sample_relay_def)
  obtain cnt k' s' where r: "reconcileRelays (EventBusReconcileProvider (Apply 0)) (\<lambda>_. 0) (\<lambda>_. 0) (GetDesiredRelays ?s) (ListRelaySessions ?s)
      (?k, ?s) = (cnt, k', s')" by (rule prod_cases3)
  obtain x where "GetRelaySession s' (rd_ID sample_relay) = Some x" "rs_Token x = []"
    using reconcile_recreates_relay_without_token [OF d r] by blast
  moreover have "rd_ID sample_relay = ''r1''" by (simp add: sample_relay_def)
  ultimately show ?thesis using r unfolding d(1,2) by metis
qed

end
