(* ===== verification/Event_Store.thy ===== *)
theory Event_Store
  imports Proto "HOL-Library.List_Lexorder" "HOL-Library.Char_ord"
begin

text \<open>
  \<open>common/store/event.go\<close>: the append-only event log.

  \<^item> The disk is a map from file names to their bytes; \<open>filepath.Glob\<close> lists names in lexical order.
  \<^item> The text of a JSON value is not modelled. \<open>enc\<close> is \<open>json.Marshal\<close> of an event (\<open>None\<close> is
    its error) and \<open>dec\<close> is \<open>json.Unmarshal\<close> into one. What the code relies on is stated where it
    is used: the text has no newline and decodes to the event with its payload as JSON values.
  \<^item> A write may stop after some bytes and a sync may fail; the outcome is an argument.
\<close>

section \<open>Lines\<close>

definition newline :: byte where "newline = 10"

function split_loop :: "byte list \<Rightarrow> nat \<Rightarrow> nat \<Rightarrow> byte list list \<Rightarrow> byte list list" where
  "split_loop data i start lines =
     (if i < length data then
        (if data ! i = newline then split_loop data (Suc i) (Suc i) (lines @ [take (i - start) (drop start data)])
         else split_loop data (Suc i) start lines)
      else if start < length data then lines @ [drop start data] else lines)"
  by pat_completeness auto
termination
  by (relation "measure (\<lambda>(data, i, start, lines). length data - i)") auto

declare split_loop.simps [simp del]

definition splitLines :: "byte list \<Rightarrow> byte list list" where
  "splitLines data = split_loop data 0 0 []"

section \<open>The store\<close>

record EventStore =
  es_files :: "(string, byte list) gomap"
  es_file :: "string option"
  es_events :: "GenericEvent list"
  es_sequence :: int

datatype write_outcome = WriteOK | WriteFails nat | SyncFails

definition glob :: "(string, byte list) gomap \<Rightarrow> (string \<times> byte list) list" where
  "glob files = sort_key fst files"

definition load_line :: "(byte list \<Rightarrow> GenericEvent option) \<Rightarrow> byte list \<Rightarrow> GenericEvent list \<times> int \<Rightarrow> GenericEvent list \<times> int" where
  "load_line dec line st =
     (if line = [] then st
      else case dec line of
          None \<Rightarrow> st
        | Some e \<Rightarrow> (fst st @ [e], if snd st < ev_Sequence e then ev_Sequence e else snd st))"

text \<open>\<open>unreadable\<close> tells the files \<open>os.ReadFile\<close> fails on; they are skipped.\<close>

definition loadEvents ::
  "(byte list \<Rightarrow> GenericEvent option) \<Rightarrow> (string \<Rightarrow> bool) \<Rightarrow> (string, byte list) gomap \<Rightarrow> GenericEvent list \<times> int" where
  "loadEvents dec unreadable files =
     fold (\<lambda>(name, data) st. if unreadable name then st else fold (load_line dec) (splitLines data) st) (glob files) ([], 0)"

definition openFile :: "int \<Rightarrow> EventStore \<Rightarrow> EventStore" where
  "openFile nowUnix s =
     (let filename = fmt_int nowUnix @ ''.jsonl'' in
      s\<lparr>es_files := (case mget (es_files s) filename of None \<Rightarrow> mput (es_files s) filename [] | Some _ \<Rightarrow> es_files s),
        es_file := Some filename\<rparr>)"

definition NewEventStore ::
  "(byte list \<Rightarrow> GenericEvent option) \<Rightarrow> (string \<Rightarrow> bool) \<Rightarrow> bool \<Rightarrow> bool \<Rightarrow> int \<Rightarrow> (string, byte list) gomap \<Rightarrow> string + EventStore" where
  "NewEventStore dec unreadable mkdirErr openErr nowUnix files =
     (if mkdirErr then Inl ''create event store dir''
      else let (evs, sq) = loadEvents dec unreadable files in
        if openErr then Inl ''open event file''
        else Inr (openFile nowUnix \<lparr>es_files = files, es_file = None, es_events = evs, es_sequence = sq\<rparr>))"

definition stamp :: "int \<Rightarrow> int \<Rightarrow> GenericEvent \<Rightarrow> GenericEvent" where
  "stamp sq nowMilli event = event\<lparr>ev_Sequence := sq,
     ev_Timestamp := (if ev_Timestamp event = 0 then nowMilli else ev_Timestamp event)\<rparr>"

definition write_file :: "byte list \<Rightarrow> EventStore \<Rightarrow> EventStore" where
  "write_file data s = (case es_file s of None \<Rightarrow> s
     | Some f \<Rightarrow> s\<lparr>es_files := mput (es_files s) f (mget_or [] (es_files s) f @ data)\<rparr>)"

definition Append ::
  "(GenericEvent \<Rightarrow> byte list option) \<Rightarrow> write_outcome \<Rightarrow> int \<Rightarrow> GenericEvent \<Rightarrow> EventStore \<Rightarrow> string option \<times> EventStore" where
  "Append enc outcome nowMilli event s =
     (let sq = wrap64 (es_sequence s + 1); e = stamp sq nowMilli event; s1 = s\<lparr>es_sequence := sq\<rparr> in
      case enc e of
        None \<Rightarrow> (Some ''marshal event'', s1)
      | Some d \<Rightarrow>
          let data = d @ [newline] in
          if es_file s = None then (Some ''write event'', s1)
          else case outcome of
              WriteFails n \<Rightarrow> (Some ''write event'', write_file (take n data) s1)
            | SyncFails \<Rightarrow> (Some ''sync event'', write_file data s1)
            | WriteOK \<Rightarrow> (None, (write_file data s1)\<lparr>es_events := es_events s @ [e]\<rparr>))"

record EventFilter =
  ef_ResourceType :: string
  ef_Namespace :: string
  ef_EventType :: string
  ef_StartTime :: int
  ef_EndTime :: int

definition Matches :: "EventFilter \<Rightarrow> GenericEvent \<Rightarrow> bool" where
  "Matches f event =
     (if ef_ResourceType f \<noteq> '''' \<and> rk_Type (ev_Resource event) \<noteq> ef_ResourceType f then False
      else if ef_Namespace f \<noteq> '''' \<and> rk_Namespace (ev_Resource event) \<noteq> ef_Namespace f then False
      else if ef_EventType f \<noteq> '''' \<and> ev_EventType event \<noteq> ef_EventType f then False
      else if 0 < ef_StartTime f \<and> ev_Timestamp event < ef_StartTime f then False
      else if 0 < ef_EndTime f \<and> ef_EndTime f < ev_Timestamp event then False
      else True)"

definition Query :: "EventStore \<Rightarrow> EventFilter \<Rightarrow> GenericEvent list" where
  "Query s f = filter (Matches f) (es_events s)"

definition events_Count :: "EventStore \<Rightarrow> nat" where
  "events_Count s = length (es_events s)"

definition events_Close :: "EventStore \<Rightarrow> EventStore" where
  "events_Close s = s\<lparr>es_file := None\<rparr>"

section \<open>Lemmas on lines\<close>

text \<open>The reference splitter: cut at every newline, no empty piece after the last one.\<close>

fun lines_of :: "byte list \<Rightarrow> byte list \<Rightarrow> byte list list" where
  "lines_of acc [] = (if acc = [] then [] else [acc])"
| "lines_of acc (b # bs) = (if b = newline then acc # lines_of [] bs else lines_of (acc @ [b]) bs)"

lemma split_loop_lines_of:
  assumes "start \<le> i" "i \<le> length data"
  shows "split_loop data i start ls = ls @ lines_of (take (i - start) (drop start data)) (drop i data)"
  using assms
proof (induction data i start ls rule: split_loop.induct)
  case (1 data i start ls)
  show ?case
  proof (cases "i < length data")
    case True
    have d: "drop i data = data ! i # drop (Suc i) data" using True by (rule Cons_nth_drop_Suc [symmetric])
    have t: "take (Suc i - start) (drop start data) = take (i - start) (drop start data) @ [data ! i]"
      using True "1.prems" by (simp add: Suc_diff_le take_Suc_conv_app_nth)
    show ?thesis
      using "1.IH" True "1.prems" by (subst split_loop.simps) (simp add: d t)
  next
    case False
    then have "i = length data" using "1.prems" by simp
    then show ?thesis using "1.prems" by (subst split_loop.simps) auto
  qed
qed

lemma splitLines_lines_of: "splitLines data = lines_of [] data"
  using split_loop_lines_of [of 0 0 data "[]"] by (simp add: splitLines_def)

lemma lines_of_line: "newline \<notin> set l \<Longrightarrow> lines_of acc (l @ newline # rest) = (acc @ l) # lines_of [] rest"
  by (induction l arbitrary: acc) auto

lemma lines_of_no_newline: "newline \<notin> set l \<Longrightarrow> lines_of acc l = (if acc @ l = [] then [] else [acc @ l])"
  by (induction l arbitrary: acc) auto

text \<open>Cutting distributes over text that ends in a newline.\<close>

lemma lines_of_ends: "lines_of acc (a @ newline # b) = lines_of acc (a @ [newline]) @ lines_of [] b"
  by (induction a arbitrary: acc) auto

definition complete :: "byte list \<Rightarrow> bool" where
  "complete bs \<longleftrightarrow> bs = [] \<or> last bs = newline"

lemma splitLines_append: "complete a \<Longrightarrow> splitLines (a @ b) = splitLines a @ splitLines b"
proof (cases "a = []")
  case False
  moreover assume "complete a"
  ultimately obtain a' where "a = a' @ [newline]" by (metis append_butlast_last_id complete_def)
  then show ?thesis using lines_of_ends [of "[]" a' b] by (simp add: splitLines_lines_of)
qed (simp add: splitLines_lines_of)

lemma splitLines_line: "newline \<notin> set d \<Longrightarrow> splitLines (d @ [newline]) = [d]"
  using lines_of_line [of d "[]" "[]"] by (simp add: splitLines_lines_of)

section \<open>Files in lexical order\<close>

declare map_of_eq_Some_iff [simp del]

lemma glob_unique:
  assumes "wf_map files" "sorted (map fst ys)" "distinct (map fst ys)" "set ys = set files"
  shows "glob files = ys"
proof (rule map_sorted_distinct_set_unique)
  show "inj_on fst (set (glob files) \<union> set ys)"
    using assms by (simp add: glob_def distinct_map)
  show "distinct (map fst (glob files))"
    using assms(1) by (metis distinct_map distinct_sort glob_def set_sort)
qed (use assms in \<open>simp_all add: glob_def\<close>)

lemma glob_set [simp]: "set (glob files) = set files"
  by (simp add: glob_def)

lemma glob_wf:
  assumes "wf_map files"
  shows "sorted (map fst (glob files))" "distinct (map fst (glob files))"
proof -
  show "sorted (map fst (glob files))" by (simp add: glob_def)
  have "distinct (glob files)" using assms by (simp add: glob_def distinct_map)
  then show "distinct (map fst (glob files))" using assms by (simp add: glob_def distinct_map)
qed

lemma set_mdel: "set (AList.delete f files) = {kv \<in> set files. fst kv \<noteq> f}"
  by (auto simp: AList.delete_eq)

lemma glob_last:
  assumes "wf_map files" "mget files f = Some c" "\<forall>k \<in> mkeys files. k \<le> f"
  shows "glob files = glob (mdel files f) @ [(f, c)]"
proof (rule glob_unique [OF assms(1)])
  note wf = glob_wf [OF wf_mdel [OF assms(1), of f]]
  have le: "fst kv \<le> f" if "kv \<in> set files" for kv using that assms(3) by blast
  show "sorted (map fst (glob (mdel files f) @ [(f, c)]))"
    using wf(1) le by (simp add: sorted_append set_mdel)
  have "f \<notin> fst ` set (glob (mdel files f))" by (simp add: set_mdel) blast
  then show "distinct (map fst (glob (mdel files f) @ [(f, c)]))" using wf(2) by simp
  have mem: "(f, c) \<in> set files" using assms(2) by (rule map_of_SomeD)
  have un: "v = c" if "(f, v) \<in> set files" for v
    using map_of_is_SomeI [OF assms(1) that] assms(2) by simp
  show "set (glob (mdel files f) @ [(f, c)]) = set files"
  proof
    show "set files \<subseteq> set (glob (mdel files f) @ [(f, c)])" using un by (auto simp: set_mdel)
  qed (use mem in \<open>simp add: set_mdel\<close>)
qed

section \<open>The log invariant\<close>

text \<open>An event after a trip through its file: the payload comes back as plain JSON values.\<close>

definition reload_event :: "GenericEvent \<Rightarrow> GenericEvent" where
  "reload_event e = e\<lparr>ev_Payload := through_json (ev_Payload e)\<rparr>"

definition codec_ok :: "(GenericEvent \<Rightarrow> byte list option) \<Rightarrow> (byte list \<Rightarrow> GenericEvent option) \<Rightarrow> GenericEvent \<Rightarrow> bool" where
  "codec_ok enc dec e \<longleftrightarrow> (case enc e of None \<Rightarrow> True
     | Some d \<Rightarrow> d \<noteq> [] \<and> newline \<notin> set d \<and> dec d = Some (reload_event e))"

abbreviation readable :: "string \<Rightarrow> bool" where "readable \<equiv> \<lambda>_. False"

text \<open>
  The open file is the last one in lexical order and ends in a newline, reading all files back gives
  the events in memory, and the sequence numbers increase and stay below the counter.
\<close>

definition log_inv :: "(byte list \<Rightarrow> GenericEvent option) \<Rightarrow> EventStore \<Rightarrow> bool" where
  "log_inv dec s \<longleftrightarrow> wf_map (es_files s) \<and>
     (\<exists>f c. es_file s = Some f \<and> mget (es_files s) f = Some c \<and> complete c \<and> (\<forall>k \<in> mkeys (es_files s). k \<le> f)) \<and>
     fst (loadEvents dec readable (es_files s)) = map reload_event (es_events s) \<and>
     sorted_wrt (<) (map ev_Sequence (es_events s)) \<and> 0 \<le> es_sequence s \<and>
     (\<forall>e \<in> set (es_events s). ev_Sequence e \<le> es_sequence s)"

lemma reload_event_simps [simp]:
  "ev_Sequence (reload_event e) = ev_Sequence e" "reload_event (reload_event e) = reload_event e"
  by (simp_all add: reload_event_def) (metis through_json_def unmarshal_twice)

lemma fst_fold_load:
  "fst (fold (load_line dec) ls st) = fst st @ fst (fold (load_line dec) ls ([], 0))"
proof (induction ls arbitrary: st rule: rev_induct)
  case (snoc l ls)
  have "fst (load_line dec l st') = fst st' @ fst (load_line dec l ([], 0))" for st'
    by (simp add: load_line_def split: option.split)
  from this [of "fold (load_line dec) ls st"] this [of "fold (load_line dec) ls ([], 0)"] show ?case
    using snoc [of st] by simp
qed simp

lemma load_line_max:
  assumes "\<forall>e \<in> set (fst st). ev_Sequence e \<le> snd st"
  shows "\<forall>e \<in> set (fst (load_line dec l st)). ev_Sequence e \<le> snd (load_line dec l st)"
proof
  fix e assume "e \<in> set (fst (load_line dec l st))"
  then have "e \<in> set (fst st) \<or> l \<noteq> [] \<and> dec l = Some e"
    by (auto simp: load_line_def split: if_splits option.splits)
  then show "ev_Sequence e \<le> snd (load_line dec l st)"
  proof
    assume "e \<in> set (fst st)"
    then have "ev_Sequence e \<le> snd st" using assms by blast
    then show ?thesis by (simp add: load_line_def split: option.split)
  qed (simp add: load_line_def)
qed

lemma load_max:
  "\<forall>e \<in> set (fst st). ev_Sequence e \<le> snd st \<Longrightarrow>
   \<forall>e \<in> set (fst (fold (load_line dec) ls st)). ev_Sequence e \<le> snd (fold (load_line dec) ls st)"
  by (induction ls arbitrary: st) (simp_all add: load_line_max)

lemma loadEvents_split:
  assumes "wf_map files" "mget files f = Some c" "\<forall>k \<in> mkeys files. k \<le> f"
  shows "loadEvents dec readable files =
     fold (load_line dec) (splitLines c) (loadEvents dec readable (mdel files f))"
  by (simp add: loadEvents_def glob_last [OF assms])

lemma loadEvents_max:
  "\<forall>e \<in> set (fst (loadEvents dec readable files)). ev_Sequence e \<le> snd (loadEvents dec readable files)"
proof -
  have "\<forall>e \<in> set (fst st). ev_Sequence e \<le> snd st \<Longrightarrow>
      \<forall>e \<in> set (fst (fold (\<lambda>(name, data) st. fold (load_line dec) (splitLines data) st) fs st)).
        ev_Sequence e \<le> snd (fold (\<lambda>(name, data) st. fold (load_line dec) (splitLines data) st) fs st)"
    for fs :: "(string \<times> byte list) list" and st
    by (induction fs arbitrary: st) (simp_all add: case_prod_beta load_max)
  from this [of "([], 0)"] show ?thesis by (simp add: loadEvents_def)
qed

lemma snd_load_ge: "snd st \<le> snd (fold (load_line dec) ls st)"
proof (induction ls arbitrary: st)
  case (Cons l ls)
  have "snd st \<le> snd (load_line dec l st)" by (simp add: load_line_def split: option.split)
  also have "\<dots> \<le> snd (fold (load_line dec) ls (load_line dec l st))" by (rule Cons)
  finally show ?case by simp
qed simp

lemma loadEvents_nonneg: "0 \<le> snd (loadEvents dec readable files)"
proof -
  have "snd st \<le> snd (fold (\<lambda>(name, data) st. fold (load_line dec) (splitLines data) st) fs st)"
    for fs :: "(string \<times> byte list) list" and st
  proof (induction fs arbitrary: st)
    case (Cons x fs)
    show ?case using order_trans [OF snd_load_ge Cons] by (simp add: case_prod_beta)
  qed simp
  from this [of "([], 0)"] show ?thesis by (simp add: loadEvents_def)
qed

text \<open>Writing whole lines to the open file adds their events; writing nothing adds none.\<close>

lemma loadEvents_write:
  assumes "wf_map files" "mget files f = Some c" "complete c" "\<forall>k \<in> mkeys files. k \<le> f"
  shows "fst (loadEvents dec readable (mput files f (c @ data))) =
     fst (loadEvents dec readable files) @ fst (fold (load_line dec) (splitLines data) ([], 0))"
proof -
  have "\<forall>k \<in> mkeys (mput files f (c @ data)). k \<le> f" using assms(4) by simp
  from loadEvents_split [OF _ _ this, of "c @ data" dec]
  have "loadEvents dec readable (mput files f (c @ data)) =
      fold (load_line dec) (splitLines (c @ data)) (loadEvents dec readable (mdel files f))"
    using assms(1) by (simp add: delete_update_same)
  also have "\<dots> = fold (load_line dec) (splitLines data) (loadEvents dec readable files)"
    using loadEvents_split [OF assms(1,2,4), of dec] by (simp add: splitLines_append [OF assms(3)])
  finally show ?thesis using fst_fold_load [of dec "splitLines data" "loadEvents dec readable files"] by simp
qed

definition clean :: "write_outcome \<Rightarrow> bool" where
  "clean w \<longleftrightarrow> (case w of WriteOK \<Rightarrow> True | WriteFails n \<Rightarrow> n = 0 | SyncFails \<Rightarrow> False)"

lemma log_inv_seq:
  "log_inv dec s \<Longrightarrow> es_sequence s \<le> n \<Longrightarrow> log_inv dec (s\<lparr>es_sequence := n\<rparr>)"
  by (auto simp: log_inv_def intro: order_trans)

lemma log_inv_write_nothing: "log_inv dec s \<Longrightarrow> log_inv dec (write_file [] s)"
proof -
  assume inv: "log_inv dec s"
  then obtain f c where f: "es_file s = Some f" "mget (es_files s) f = Some c" "complete c"
    "\<forall>k \<in> mkeys (es_files s). k \<le> f" and wf: "wf_map (es_files s)"
    by (auto simp: log_inv_def)
  have "splitLines [] = []" by (simp add: splitLines_lines_of)
  with loadEvents_write [OF wf f(2,3,4), of dec "[]"] inv show ?thesis
    by (simp add: log_inv_def write_file_def f mget_or_def)
qed

lemma log_inv_store_event:
  assumes "log_inv dec s" "d \<noteq> []" "newline \<notin> set d" "dec d = Some (reload_event e)"
    "es_sequence s < ev_Sequence e"
  shows "log_inv dec ((write_file (d @ [newline]) (s\<lparr>es_sequence := ev_Sequence e\<rparr>))\<lparr>es_events := es_events s @ [e]\<rparr>)"
proof -
  obtain f c where f: "es_file s = Some f" "mget (es_files s) f = Some c" "complete c"
    "\<forall>k \<in> mkeys (es_files s). k \<le> f" and wf: "wf_map (es_files s)"
    using assms(1) by (auto simp: log_inv_def)
  have "fst (fold (load_line dec) (splitLines (d @ [newline])) ([], 0)) = [reload_event e]"
    using assms(2,4) by (simp add: splitLines_line [OF assms(3)] load_line_def)
  with loadEvents_write [OF wf f(2,3,4), of dec "d @ [newline]"]
  have "fst (loadEvents dec readable (mput (es_files s) f (c @ d @ [newline]))) = map reload_event (es_events s @ [e])"
    using assms(1) by (simp add: log_inv_def)
  moreover have "\<forall>x \<in> set (es_events s). ev_Sequence x < ev_Sequence e"
    using assms(1,5) by (auto simp: log_inv_def)
  ultimately show ?thesis
    using assms(1,5) wf f by (auto simp: log_inv_def write_file_def mget_or_def complete_def sorted_wrt_append)
qed

lemma Append_clean:
  assumes "log_inv dec s" "clean w" "codec_ok enc dec (stamp (es_sequence s + 1) now ev)" "es_sequence s < 2 ^ 63 - 1"
  shows "log_inv dec (snd (Append enc w now ev s))" "es_sequence (snd (Append enc w now ev s)) = es_sequence s + 1"
    "es_events (snd (Append enc w now ev s)) =
       es_events s @ (if fst (Append enc w now ev s) = None then [stamp (es_sequence s + 1) now ev] else [])"
proof -
  obtain f where f: "es_file s = Some f" using assms(1) by (auto simp: log_inv_def)
  have sq: "wrap64 (es_sequence s + 1) = es_sequence s + 1"
    using assms(1,4) by (intro wrap64_id) (simp_all add: log_inv_def)
  let ?e = "stamp (es_sequence s + 1) now ev" and ?s1 = "s\<lparr>es_sequence := es_sequence s + 1\<rparr>"
  have e: "ev_Sequence ?e = es_sequence s + 1" by (simp add: stamp_def)
  have s1: "log_inv dec ?s1" by (rule log_inv_seq [OF assms(1)]) simp
  have "log_inv dec (snd (Append enc w now ev s)) \<and> es_sequence (snd (Append enc w now ev s)) = es_sequence s + 1 \<and>
    es_events (snd (Append enc w now ev s)) = es_events s @ (if fst (Append enc w now ev s) = None then [?e] else [])"
  proof (cases "enc ?e")
    case None
    then show ?thesis using s1 by (simp add: Append_def sq Let_def)
  next
    case (Some d)
    then have d: "d \<noteq> []" "newline \<notin> set d" "dec d = Some (reload_event ?e)" using assms(3) by (simp_all add: codec_ok_def)
    show ?thesis
    proof (cases w)
      case WriteOK
      then show ?thesis
        using log_inv_store_event [OF assms(1) d] Some f e by (simp add: Append_def sq Let_def) (simp add: write_file_def f)
    next
      case (WriteFails n)
      then show ?thesis
        using log_inv_write_nothing [OF s1] Some f assms(2) by (simp add: Append_def sq Let_def clean_def) (simp add: write_file_def f)
    qed (use assms(2) in \<open>simp add: clean_def\<close>)
  qed
  then show "log_inv dec (snd (Append enc w now ev s))" "es_sequence (snd (Append enc w now ev s)) = es_sequence s + 1"
    "es_events (snd (Append enc w now ev s)) =
       es_events s @ (if fst (Append enc w now ev s) = None then [?e] else [])" by blast+
qed

definition append_run ::
  "(GenericEvent \<Rightarrow> byte list option) \<Rightarrow> (write_outcome \<times> int \<times> GenericEvent) list \<Rightarrow> EventStore \<Rightarrow> EventStore" where
  "append_run enc ops s = fold (\<lambda>(w, now, ev) s. snd (Append enc w now ev s)) ops s"

lemma append_run_inv:
  assumes "log_inv dec s" "list_all (\<lambda>(w, _). clean w) ops" "\<forall>e. codec_ok enc dec e"
    "es_sequence s + int (length ops) < 2 ^ 63"
  shows "log_inv dec (append_run enc ops s)"
  using assms(1,2,4) unfolding append_run_def
proof (induction ops arbitrary: s)
  case (Cons x ops)
  obtain w now ev where x: "x = (w, now, ev)" by (cases x)
  have b: "es_sequence s < 2 ^ 63 - 1" using Cons.prems(3) by simp
  have "clean w" using Cons.prems(2) x by simp
  note a = Append_clean [OF Cons.prems(1) this assms(3) [THEN spec] b, of now ev]
  show ?case using Cons.IH [OF a(1)] Cons.prems(2,3) a(2) x by simp
qed simp

lemma log_inv_New:
  assumes "NewEventStore dec readable False False t files = Inr s" "wf_map files"
    and f: "f = fmt_int t @ ''.jsonl''" and le: "\<forall>k \<in> mkeys files. k \<le> f"
    and whole: "\<forall>c. mget files f = Some c \<longrightarrow> complete c"
    and seqs: "sorted_wrt (<) (map ev_Sequence (fst (loadEvents dec readable files)))"
    and plain: "\<forall>e \<in> set (fst (loadEvents dec readable files)). reload_event e = e"
  shows "log_inv dec s" "es_events s = fst (loadEvents dec readable files)"
proof -
  define files' where "files' = (case mget files f of None \<Rightarrow> mput files f [] | Some _ \<Rightarrow> files)"
  have fs: "es_files s = files'" "es_file s = Some f" "es_events s = fst (loadEvents dec readable files)"
    "es_sequence s = snd (loadEvents dec readable files)"
    using assms(1) unfolding files'_def f
    by (auto simp: NewEventStore_def openFile_def Let_def case_prod_beta cong: option.case_cong)
  show "es_events s = fst (loadEvents dec readable files)" by (fact fs(3))
  have load: "loadEvents dec readable files' = loadEvents dec readable files"
  proof (cases "mget files f")
    case None
    then have "f \<notin> mkeys files" by (simp add: map_of_eq_None_iff)
    then have "mdel (mput files f []) f = files" by (simp add: delete_update_same delete_id)
    moreover have "\<forall>k \<in> mkeys (mput files f []). k \<le> f" unfolding mkeys_mput using le by simp
    ultimately show ?thesis
      using loadEvents_split [of "mput files f []" f "[]" dec] assms(2) None
      by (simp add: splitLines_lines_of files'_def)
  qed (simp add: files'_def)
  have "map reload_event (fst (loadEvents dec readable files)) = fst (loadEvents dec readable files)"
    using plain by (simp add: map_idI)
  moreover have "\<exists>c. mget files' f = Some c \<and> complete c"
    using whole by (cases "mget files f") (simp_all add: complete_def files'_def)
  moreover have "mkeys files' \<subseteq> insert f (mkeys files)"
    unfolding files'_def by (cases "mget files f") (simp_all add: subset_insertI)
  then have "\<forall>k \<in> mkeys files'. k \<le> f" using le by blast
  moreover have "wf_map files'" using assms(2) by (simp add: files'_def split: option.split)
  ultimately show "log_inv dec s"
    using seqs loadEvents_max [of dec files] loadEvents_nonneg [of dec files]
    unfolding log_inv_def fs load by metis
qed

text \<open>A new store on the files of an intact log.\<close>

lemma log_reload:
  assumes inv: "log_inv dec s1" and le: "\<forall>k \<in> mkeys (es_files s1). k \<le> fmt_int t' @ ''.jsonl''"
    and new: "NewEventStore dec readable False False t' (es_files s1) = Inr s2"
  shows "es_events s2 = map reload_event (es_events s1)" "log_inv dec s2"
proof -
  have load: "fst (loadEvents dec readable (es_files s1)) = map reload_event (es_events s1)"
    using inv by (simp add: log_inv_def)
  have seqs: "sorted_wrt (<) (map ev_Sequence (fst (loadEvents dec readable (es_files s1))))"
    using inv by (simp add: load log_inv_def comp_def)
  have whole: "complete c" if "mget (es_files s1) (fmt_int t' @ ''.jsonl'') = Some c" for c
  proof -
    obtain f c' where f: "mget (es_files s1) f = Some c'" "complete c'" "\<forall>k \<in> mkeys (es_files s1). k \<le> f"
      using inv by (auto simp: log_inv_def)
    have "fmt_int t' @ ''.jsonl'' \<in> mkeys (es_files s1)" "f \<in> mkeys (es_files s1)"
      using that f(1) by (simp_all add: mkeys_mget del: fmt_int_numeral)
    then have "f = fmt_int t' @ ''.jsonl''" using f(3) le by (meson order_antisym)
    then show ?thesis using f(1,2) that by simp
  qed
  have wf: "wf_map (es_files s1)" using inv by (simp add: log_inv_def)
  have re: "\<forall>e \<in> set (fst (loadEvents dec readable (es_files s1))). reload_event e = e" by (simp add: load)
  note fresh = log_inv_New [OF new wf refl le _ seqs re]
  show "es_events s2 = map reload_event (es_events s1)" "log_inv dec s2" using fresh whole load by simp_all
qed

lemma log_inv_fresh: "NewEventStore dec readable False False t [] = Inr s \<Longrightarrow> log_inv dec s"
proof -
  have empty: "loadEvents dec readable [] = ([], 0)" by (simp add: loadEvents_def glob_def)
  assume "NewEventStore dec readable False False t [] = Inr s"
  then show ?thesis by (rule log_inv_New(1) [OF _ _ refl]) (simp_all add: empty)
qed

section \<open>Properties\<close>


definition tiny_event :: GenericEvent where
  "tiny_event = NewGenericEvent '''' 1 \<lparr>rk_Type = ''proxy'', rk_Namespace = ''default'', rk_Name = ''x''\<rparr> ''ADDED'' AnyNil"

definition tiny_enc :: "GenericEvent \<Rightarrow> byte list option" where
  "tiny_enc e = (if e = tiny_event\<lparr>ev_Sequence := 1\<rparr> then Some [65] else if e = tiny_event\<lparr>ev_Sequence := 2\<rparr> then Some [66] else None)"

definition tiny_dec :: "byte list \<Rightarrow> GenericEvent option" where
  "tiny_dec d = (if d = [65] then Some (tiny_event\<lparr>ev_Sequence := 1\<rparr>)
     else if d = [66] then Some (tiny_event\<lparr>ev_Sequence := 2\<rparr>) else None)"

lemma tiny_codec: "codec_ok tiny_enc tiny_dec e"
  by (simp add: codec_ok_def tiny_enc_def tiny_dec_def reload_event_def tiny_event_def NewGenericEvent_def newline_def)

lemma tiny_new:
  "NewEventStore tiny_dec readable False False 100 [] =
     Inr \<lparr>es_files = [(''100.jsonl'', [])], es_file = Some ''100.jsonl'', es_events = [], es_sequence = 0\<rparr>"
  by (simp add: NewEventStore_def loadEvents_def glob_def openFile_def Let_def)


text \<open>A torn write loses the next event as well: when a write stops in the middle of a line the
  error is reported, but the next append writes on the same line and reports success; if the merged
  text is not a JSON value, a restart reads neither event back.\<close>

theorem event_log_torn_write:
  assumes "es_file s = Some f" and "es_files s = [(f, c)]" and "complete c"
    and "enc (stamp (wrap64 (es_sequence s + 1)) n1 ev1) = Some d1" and "0 < n" and "n \<le> length d1" and "newline \<notin> set d1"
    and "enc (stamp (wrap64 (wrap64 (es_sequence s + 1) + 1)) n2 ev2) = Some d2" and "newline \<notin> set d2"
    and "dec (take n d1 @ d2) = None"
    and "Append enc (WriteFails n) n1 ev1 s = (r1, s1)" and "Append enc WriteOK n2 ev2 s1 = (r2, s2)"
  shows "r1 \<noteq> None \<and> r2 = None \<and> es_events s2 = es_events s @ [stamp (wrap64 (wrap64 (es_sequence s + 1) + 1)) n2 ev2] \<and>
     fst (loadEvents dec readable (es_files s2)) = fst (loadEvents dec readable (es_files s))"
proof -
  have s1: "s1 = s\<lparr>es_sequence := wrap64 (es_sequence s + 1), es_files := [(f, c @ take n d1)]\<rparr>" "r1 = Some ''write event''"
    using assms(11,1,2,4,6) by (auto simp: Append_def Let_def write_file_def mget_or_def)
  have files: "es_files s2 = [(f, c @ (take n d1 @ d2) @ [newline])]" and r2: "r2 = None"
    "es_events s2 = es_events s @ [stamp (wrap64 (wrap64 (es_sequence s + 1) + 1)) n2 ev2]"
    using assms(12,1,8) s1(1) by (auto simp: Append_def Let_def write_file_def mget_or_def)
  have nl: "newline \<notin> set (take n d1 @ d2)" using assms(7,9) by (auto dest: in_set_takeD)
  have "fst (loadEvents dec readable (es_files s2)) =
      fst (fold (load_line dec) [take n d1 @ d2] (fold (load_line dec) (splitLines c) ([], 0)))"
    by (simp add: files loadEvents_def glob_def splitLines_append [OF assms(3)] splitLines_line [OF nl, unfolded append_assoc])
  also have "\<dots> = fst (loadEvents dec readable (es_files s))"
    using assms(10) by (simp add: assms(2) loadEvents_def glob_def load_line_def)
  finally show ?thesis using s1(2) r2 by simp
qed

definition long_enc :: "GenericEvent \<Rightarrow> byte list option" where
  "long_enc e = (if ev_Sequence e = 1 then Some [65, 65] else Some [66])"

theorem event_log_torn_write_witness:
  "\<exists>s s1 s2 r1. NewEventStore tiny_dec readable False False 100 [] = Inr s \<and>
     Append long_enc (WriteFails 1) 0 tiny_event s = (r1, s1) \<and> Append long_enc WriteOK 0 tiny_event s1 = (None, s2) \<and>
     fst (loadEvents tiny_dec readable (es_files s2)) = []"
proof -
  let ?s = "\<lparr>es_files = [(''100.jsonl'', [])], es_file = Some ''100.jsonl'', es_events = [], es_sequence = 0\<rparr>"
  obtain r1 s1 where 1: "Append long_enc (WriteFails 1) 0 tiny_event ?s = (r1, s1)" by (rule prod.exhaust)
  obtain r2 s2 where 2: "Append long_enc WriteOK 0 tiny_event s1 = (r2, s2)" by (rule prod.exhaust)
  have e: "long_enc (stamp (wrap64 (es_sequence ?s + 1)) 0 tiny_event) = Some [65, 65]"
    "long_enc (stamp (wrap64 (wrap64 (es_sequence ?s + 1) + 1)) 0 tiny_event) = Some [66]"
    by (simp_all add: long_enc_def stamp_def wrap64_def)
  have "r2 = None \<and> fst (loadEvents tiny_dec readable (es_files s2)) = fst (loadEvents tiny_dec readable (es_files ?s))"
    using event_log_torn_write [OF _ _ _ e(1) _ _ _ e(2) _ _ 1 2, of "''100.jsonl''" "[]" tiny_dec]
    by (simp add: complete_def newline_def tiny_dec_def)
  moreover have "fst (loadEvents tiny_dec readable (es_files ?s)) = []"
    by (simp add: loadEvents_def glob_def splitLines_lines_of)
  ultimately show ?thesis using 1 2 tiny_new by (intro exI conjI) (assumption | simp)+
qed

text \<open>A query returns exactly the events that satisfy every condition its filter sets, in log
  order; an empty string or a zero time sets no condition, so the empty filter returns the whole log.\<close>

theorem event_query_spec:
  "e \<in> set (Query s f) \<longleftrightarrow> e \<in> set (es_events s) \<and>
     (ef_ResourceType f = '''' \<or> rk_Type (ev_Resource e) = ef_ResourceType f) \<and>
     (ef_Namespace f = '''' \<or> rk_Namespace (ev_Resource e) = ef_Namespace f) \<and>
     (ef_EventType f = '''' \<or> ev_EventType e = ef_EventType f) \<and>
     (ef_StartTime f \<le> 0 \<or> ef_StartTime f \<le> ev_Timestamp e) \<and> (ef_EndTime f \<le> 0 \<or> ev_Timestamp e \<le> ef_EndTime f)"
  by (auto simp: Query_def Matches_def)

end
