(* ===== verification/Snapshot_Store.thy ===== *)
theory Snapshot_Store
  imports Event_Store "HOL-Library.Multiset"
begin

text \<open>
  \<open>common/store/snapshot.go\<close>: snapshot files and the one in memory.

  A file is represented by what decoding its bytes gives: \<open>None\<close> when they are not a snapshot. The
  state of a snapshot that went through a file holds plain JSON values. The clock, the identifier and
  a failure of the write, open or rename are arguments; none of these failures changes the files the
  pattern \<open>*.json\<close> matches.
\<close>

section \<open>Sorting file names\<close>

definition swap_if :: "nat \<Rightarrow> nat \<Rightarrow> ('a :: linorder) list \<Rightarrow> 'a list" where
  "swap_if i j files = (if files ! j < files ! i then files[i := files ! j, j := files ! i] else files)"

definition sort_inner :: "nat \<Rightarrow> ('a :: linorder) list \<Rightarrow> 'a list" where
  "sort_inner i files = fold (swap_if i) [Suc i..<length files] files"

definition sortFiles :: "('a :: linorder) list \<Rightarrow> 'a list" where
  "sortFiles files = fold sort_inner [0..<length files] files"

section \<open>The store\<close>

type_synonym state_map = "(string, (string, any) gomap) gomap"

record SnapshotRec =
  sn_ID :: string
  sn_Timestamp :: int
  sn_Sequence :: int
  sn_State :: state_map

record SnapshotStore =
  sp_files :: "(string, SnapshotRec option) gomap"
  sp_latest :: "SnapshotRec option"

definition state_through_json :: "state_map \<Rightarrow> state_map" where
  "state_through_json st = map (\<lambda>(t, m). (t, map (map_prod id through_json) m)) st"

definition snapshot_through_json :: "SnapshotRec \<Rightarrow> SnapshotRec" where
  "snapshot_through_json sn = sn\<lparr>sn_State := state_through_json (sn_State sn)\<rparr>"

definition is_digit :: "char \<Rightarrow> bool" where
  "is_digit c \<longleftrightarrow> c \<in> set ''0123456789''"

text \<open>\<open>fmt.Sscanf(name, "%d.json", &timestamp)\<close> with the zero it leaves when there is no number.\<close>

definition scan_timestamp :: "string \<Rightarrow> int" where
  "scan_timestamp name =
     (case name of
        CHR ''-'' # r \<Rightarrow> - int (undigits (takeWhile is_digit r))
      | CHR ''+'' # r \<Rightarrow> int (undigits (takeWhile is_digit r))
      | _ \<Rightarrow> int (undigits (takeWhile is_digit name)))"

definition pick_latest :: "string \<Rightarrow> string option \<times> int \<Rightarrow> string option \<times> int" where
  "pick_latest file acc =
     (let timestamp = scan_timestamp file in if snd acc < timestamp then (Some file, timestamp) else acc)"

definition loadLatest :: "(string \<Rightarrow> bool) \<Rightarrow> (string, SnapshotRec option) gomap \<Rightarrow> string + SnapshotRec option" where
  "loadLatest unreadable files =
     (case fst (fold pick_latest (sort (map fst files)) (None, 0)) of
        None \<Rightarrow> Inr None
      | Some file \<Rightarrow>
          if unreadable file then Inl ''read snapshot''
          else case mget_or None files file of
              None \<Rightarrow> Inl ''unmarshal snapshot''
            | Some sn \<Rightarrow> Inr (Some sn))"

definition NewSnapshotStore :: "(string \<Rightarrow> bool) \<Rightarrow> bool \<Rightarrow> (string, SnapshotRec option) gomap \<Rightarrow> string + SnapshotStore" where
  "NewSnapshotStore unreadable mkdirErr files =
     (if mkdirErr then Inl ''create snapshot store dir''
      else case loadLatest unreadable files of
          Inl e \<Rightarrow> Inl (''load latest snapshot: '' @ e)
        | Inr l \<Rightarrow> Inr \<lparr>sp_files = files, sp_latest = l\<rparr>)"

definition cleanupOldSnapshots :: "nat \<Rightarrow> (string, SnapshotRec option) gomap \<Rightarrow> (string, SnapshotRec option) gomap" where
  "cleanupOldSnapshots keep files =
     (let names = sort (map fst files) in
      if length names \<le> keep then files
      else fold (\<lambda>name fs. mdel fs name) (take (length names - keep) (sortFiles names)) files)"

definition Save :: "string option \<Rightarrow> string \<Rightarrow> int \<Rightarrow> state_map \<Rightarrow> int \<Rightarrow> SnapshotStore \<Rightarrow> string option \<times> SnapshotStore" where
  "Save ioErr newID nowMilli state sequence s =
     (let snapshot = \<lparr>sn_ID = newID, sn_Timestamp = nowMilli, sn_Sequence = sequence, sn_State = state\<rparr>;
          filename = fmt_int nowMilli @ ''.json'' in
      case ioErr of
        Some e \<Rightarrow> (Some e, s)
      | None \<Rightarrow> (None, s\<lparr>sp_files := cleanupOldSnapshots 5 (mput (sp_files s) filename (Some (snapshot_through_json snapshot))),
                       sp_latest := Some snapshot\<rparr>))"

definition snapshot_Load :: "SnapshotStore \<Rightarrow> string + SnapshotRec" where
  "snapshot_Load s = (case sp_latest s of None \<Rightarrow> Inl ''no snapshot available'' | Some sn \<Rightarrow> Inr sn)"

definition HasSnapshot :: "SnapshotStore \<Rightarrow> bool" where
  "HasSnapshot s \<longleftrightarrow> sp_latest s \<noteq> None"

definition GetSequence :: "SnapshotStore \<Rightarrow> int" where
  "GetSequence s = (case sp_latest s of None \<Rightarrow> 0 | Some sn \<Rightarrow> sn_Sequence sn)"

section \<open>The sort is a sort\<close>

lemma swap_if_basic:
  assumes "i < length xs" "j < length xs"
  shows "length (swap_if i j xs) = length xs" "mset (swap_if i j xs) = mset xs"
  using assms by (simp_all add: swap_if_def mset_swap)

lemma inner_prefix:
  assumes "i < length xs" "k \<le> length xs"
  defines "ys \<equiv> fold (swap_if i) [Suc i..<k] xs"
  shows "length ys = length xs \<and> mset ys = mset xs \<and> take i ys = take i xs \<and> (\<forall>j. i \<le> j \<longrightarrow> j < k \<longrightarrow> ys ! i \<le> ys ! j)"
  using assms(2) unfolding ys_def
proof (induction k)
  case (Suc k)
  let ?ys = "fold (swap_if i) [Suc i..<k] xs"
  have ih: "length ?ys = length xs" "mset ?ys = mset xs" "take i ?ys = take i xs"
    "\<forall>j. i \<le> j \<longrightarrow> j < k \<longrightarrow> ?ys ! i \<le> ?ys ! j"
    using Suc by simp_all
  show ?case
  proof (cases "Suc i \<le> k")
    case True
    have st: "fold (swap_if i) [Suc i..<Suc k] xs = swap_if i k ?ys" using True by simp
    have "swap_if i k ?ys ! i \<le> swap_if i k ?ys ! j" if "i \<le> j" "j < Suc k" for j
      using that ih assms(1) Suc.prems True
      by (auto simp: swap_if_def nth_list_update not_less less_Suc_eq intro: order_trans less_imp_le)
    moreover have "take i (swap_if i k ?ys) = take i xs"
      using ih(3) True by (simp add: swap_if_def)
    ultimately show ?thesis
      unfolding st using swap_if_basic [of i ?ys k] ih(1,2) assms(1) Suc.prems by simp
  next
    case False
    have "xs ! i \<le> xs ! j" if "i \<le> j" "j < Suc k" for j
    proof -
      have "j = i" using that False by linarith
      then show ?thesis by simp
    qed
    then show ?thesis using False by simp
  qed
qed auto

lemma outer_prefix:
  assumes "k \<le> length xs"
  defines "ys \<equiv> fold sort_inner [0..<k] xs"
  shows "length ys = length xs \<and> mset ys = mset xs \<and> sorted (take k ys) \<and>
     (\<forall>x \<in> set (take k ys). \<forall>y \<in> set (drop k ys). x \<le> y)"
  using assms(1) unfolding ys_def
proof (induction k)
  case (Suc k)
  let ?ys = "fold sort_inner [0..<k] xs" and ?zs = "sort_inner k (fold sort_inner [0..<k] xs)"
  have ih: "length ?ys = length xs" "mset ?ys = mset xs" "sorted (take k ?ys)"
    "\<forall>x \<in> set (take k ?ys). \<forall>y \<in> set (drop k ?ys). x \<le> y"
    using Suc by simp_all
  have k: "k < length ?ys" using ih(1) Suc.prems by simp
  have z: "length ?zs = length xs" "mset ?zs = mset xs" "take k ?zs = take k ?ys"
    "\<forall>j. k \<le> j \<longrightarrow> j < length xs \<longrightarrow> ?zs ! k \<le> ?zs ! j"
    using inner_prefix [OF k order_refl] ih(1,2) by (simp_all add: sort_inner_def)
  have "mset (drop k ?zs) = mset (drop k ?ys)"
    using z(2,3) ih(2) by (metis add_left_cancel append_take_drop_id mset_append)
  then have dset: "set (drop k ?zs) = set (drop k ?ys)" by (rule mset_eq_setD)
  have tk: "take (Suc k) ?zs = take k ?ys @ [?zs ! k]"
    using z(1,3) Suc.prems by (simp add: take_Suc_conv_app_nth)
  have dk: "drop k ?zs = ?zs ! k # drop (Suc k) ?zs"
    using z(1) Suc.prems by (simp add: Cons_nth_drop_Suc)
  have "?zs ! k \<le> y" if "y \<in> set (drop (Suc k) ?zs)" for y
    using that z(1,4) by (auto simp: in_set_conv_nth)
  moreover have "x \<le> y" if "x \<in> set (take k ?ys)" "y \<in> set (drop k ?zs)" for x y
    using that ih(4) dset by simp
  ultimately show ?case
    using ih(3) z(1,2) by (simp add: tk sorted_append) (auto simp: dk)
qed simp

lemma sortFiles_sort: "sortFiles xs = sort xs"
proof (rule properties_for_sort [symmetric])
  let ?ys = "fold sort_inner [0..<length xs] xs"
  have "length ?ys = length xs" "mset ?ys = mset xs" "sorted (take (length xs) ?ys)"
    using outer_prefix [OF order_refl, of xs] by blast+
  then show "mset (sortFiles xs) = mset xs" "sorted (sortFiles xs)" by (simp_all add: sortFiles_def)
qed

section \<open>Saving and loading\<close>

lemma takeWhile_digits: "takeWhile is_digit (nat_digits n @ ''.json'') = nat_digits n"
proof -
  have "\<forall>c \<in> set (nat_digits n). is_digit c" using nat_digits_chars by (auto simp: is_digit_def)
  then show ?thesis by (simp add: takeWhile_append is_digit_def)
qed

lemma scan_timestamp_name: "0 \<le> t \<Longrightarrow> scan_timestamp (fmt_int t @ ''.json'') = t"
proof -
  assume "0 \<le> t"
  then have f: "fmt_int t = nat_digits (nat t)" by (simp add: fmt_int_def)
  obtain c r where c: "nat_digits (nat t) = c # r" by (cases "nat_digits (nat t)") simp_all
  then have "c \<in> set ''0123456789''" using nat_digits_chars [of c "nat t"] by simp
  then have "c \<noteq> CHR ''-''" "c \<noteq> CHR ''+''" by auto
  then have "scan_timestamp (c # r @ ''.json'') = int (undigits (takeWhile is_digit (c # r @ ''.json'')))"
    by (auto simp: scan_timestamp_def split: char.split bool.split)
  then show ?thesis
    using takeWhile_digits [of "nat t"] c f \<open>0 \<le> t\<close> undigits_nat_digits [of "nat t"] by (simp del: undigits_nat_digits)
qed

lemma fold_mdel:
  "mget (fold (\<lambda>name fs. mdel fs name) ns files) k = (if k \<in> set ns then None else mget files k)"
  "wf_map files \<Longrightarrow> wf_map (fold (\<lambda>name fs. mdel fs name) ns files)"
  by (induction ns arbitrary: files) auto

lemma mkeys_fold_mdel: "mkeys (fold (\<lambda>name fs. mdel fs name) ns files) = mkeys files - set ns"
  by (induction ns arbitrary: files) (auto simp: set_mdel image_iff)

lemma sorted_le_last: "sorted xs \<Longrightarrow> x \<in> set xs \<Longrightarrow> x \<le> last xs"
  by (induction xs) auto

lemma cleanup_keeps_greatest:
  assumes "wf_map files" "f \<in> mkeys files" "\<forall>k \<in> mkeys files. k \<le> f" "0 < keep"
  shows "mget (cleanupOldSnapshots keep files) f = mget files f"
    "length (cleanupOldSnapshots keep files) \<le> keep" "mkeys (cleanupOldSnapshots keep files) \<subseteq> mkeys files"
    "wf_map (cleanupOldSnapshots keep files)"
proof -
  define names where "names = sort (map fst files)"
  define old where "old = take (length files - keep) names"
  define new where "new = drop (length files - keep) names"
  have d: "distinct names" "set names = mkeys files" "length names = length files" "sorted names" "names = old @ new"
    using assms(1) by (simp_all add: names_def old_def new_def)
  have disj: "set old \<inter> set new = {}" "set old \<union> set new = mkeys files" using d(1,2,5) by auto
  have cl: "cleanupOldSnapshots keep files = (if length files \<le> keep then files else fold (\<lambda>name fs. mdel fs name) old files)"
    by (simp add: cleanupOldSnapshots_def sortFiles_sort sorted_sort_id names_def old_def)
  have notin: "f \<notin> set old" if "\<not> length files \<le> keep"
  proof -
    have ne: "new \<noteq> []" using that assms(4) d(3) by (simp add: new_def)
    then have last: "last names \<in> set new" using d(5) by simp
    then have "last names \<le> f" using assms(3) disj(2) by blast
    moreover have "f \<le> last names" using sorted_le_last [OF d(4)] d(2) assms(2) by blast
    ultimately show ?thesis using last disj(1) by auto
  qed
  then show "mget (cleanupOldSnapshots keep files) f = mget files f" by (simp add: cl fold_mdel(1))
  show "mkeys (cleanupOldSnapshots keep files) \<subseteq> mkeys files" using mkeys_fold_mdel [of old files] by (auto simp: cl)
  show wf: "wf_map (cleanupOldSnapshots keep files)" using fold_mdel(2) [OF assms(1)] assms(1) by (simp add: cl)
  show "length (cleanupOldSnapshots keep files) \<le> keep"
  proof (cases "length files \<le> keep")
    case False
    have "mkeys (cleanupOldSnapshots keep files) = set new"
      using mkeys_fold_mdel [of old files] False disj by (auto simp: cl)
    moreover have "length (cleanupOldSnapshots keep files) = card (mkeys (cleanupOldSnapshots keep files))"
      using distinct_card [OF wf] by simp
    ultimately have "length (cleanupOldSnapshots keep files) \<le> length new" by (simp add: card_length)
    then show ?thesis using False d(3) by (simp add: new_def)
  qed (simp add: cl)
qed

lemma pick_latest_keeps:
  "\<forall>n \<in> set ns. scan_timestamp n \<le> snd acc \<Longrightarrow> fold pick_latest ns acc = acc"
  by (induction ns) (auto simp: pick_latest_def Let_def not_less)

lemma pick_latest_finds:
  assumes "f \<in> set ns" "\<forall>n \<in> set ns. n = f \<or> scan_timestamp n < scan_timestamp f" "snd acc < scan_timestamp f"
  shows "fold pick_latest ns acc = (Some f, scan_timestamp f)"
  using assms
proof (induction ns arbitrary: acc)
  case (Cons n ns)
  show ?case
  proof (cases "n = f")
    case True
    have "\<forall>m \<in> set ns. scan_timestamp m \<le> scan_timestamp f" using Cons.prems(2) by auto
    then have "fold pick_latest ns (Some f, scan_timestamp f) = (Some f, scan_timestamp f)"
      by (intro pick_latest_keeps) simp
    moreover have "pick_latest f acc = (Some f, scan_timestamp f)" using Cons.prems(3) by (simp add: pick_latest_def Let_def)
    ultimately show ?thesis using True by simp
  next
    case False
    then have "snd (pick_latest n acc) < scan_timestamp f"
      using Cons.prems by (auto simp: pick_latest_def Let_def)
    then show ?thesis using Cons.IH [of "pick_latest n acc"] Cons.prems False by simp
  qed
qed simp

section \<open>Properties\<close>

text \<open>\<open>sortFiles\<close> sorts: the result is a sorted permutation of its argument, for any file names.\<close>

theorem sortFiles_correct:
  fixes files :: "string list"
  shows "sorted (sortFiles files) \<and> mset (sortFiles files) = mset files"
  by (simp add: sortFiles_sort)

text \<open>A saved snapshot is the one a restart loads: if the clock has advanced past every snapshot on
  disk, then after \<open>Save\<close> at most five files are left, the new one is among them, and a new store
  on these files has it as its latest, with its state as JSON values.\<close>

theorem snapshot_save_then_restart:
  assumes "wf_map (sp_files s)" and "0 < now"
    and "\<forall>k \<in> mkeys (sp_files s). k \<le> fmt_int now @ ''.json'' \<and> scan_timestamp k < now"
    and "Save None sid now state sq s = (r, s1)"
  shows "r = None \<and> length (sp_files s1) \<le> 5 \<and> snapshot_Load s1 = Inr \<lparr>sn_ID = sid, sn_Timestamp = now, sn_Sequence = sq, sn_State = state\<rparr> \<and>
     (\<exists>s2. NewSnapshotStore (\<lambda>_. False) False (sp_files s1) = Inr s2 \<and>
        snapshot_Load s2 = Inr \<lparr>sn_ID = sid, sn_Timestamp = now, sn_Sequence = sq, sn_State = state_through_json state\<rparr>)"
proof -
  define f where "f = fmt_int now @ ''.json''"
  define sn where "sn = \<lparr>sn_ID = sid, sn_Timestamp = now, sn_Sequence = sq, sn_State = state\<rparr>"
  define files where "files = mput (sp_files s) f (Some (snapshot_through_json sn))"
  have s1: "s1 = s\<lparr>sp_files := cleanupOldSnapshots 5 files, sp_latest := Some sn\<rparr>" "r = None"
    using assms(4) by (simp_all add: Save_def Let_def f_def sn_def files_def)
  have keys: "mkeys files = insert f (mkeys (sp_files s))" by (simp add: files_def)
  have wf: "wf_map files" "f \<in> mkeys files" "\<forall>k \<in> mkeys files. k \<le> f"
    using assms(1,3) unfolding keys by (simp_all add: files_def f_def)
  have "0 < (5 :: nat)" by simp
  note cl = cleanup_keeps_greatest [OF wf this]
  have t: "scan_timestamp f = now" unfolding f_def using assms(2) by (intro scan_timestamp_name) simp
  let ?fs = "cleanupOldSnapshots 5 files"
  have "mget ?fs f = Some (Some (snapshot_through_json sn))" using cl(1) by (simp add: files_def)
  moreover from this have mem: "f \<in> set (sort (map fst ?fs))" by (simp add: mkeys_mget)
  have "n = f \<or> scan_timestamp n < scan_timestamp f" if "n \<in> set (sort (map fst ?fs))" for n
  proof -
    have "n \<in> insert f (mkeys (sp_files s))" using that cl(3) unfolding keys by auto
    then show ?thesis using assms(3) unfolding t by blast
  qed
  then have "fold pick_latest (sort (map fst ?fs)) (None, 0) = (Some f, now)"
    using pick_latest_finds [OF mem, of "(None, 0)"] assms(2) unfolding t by simp
  ultimately have "NewSnapshotStore (\<lambda>_. False) False ?fs = Inr \<lparr>sp_files = ?fs, sp_latest = Some (snapshot_through_json sn)\<rparr>"
    by (simp add: NewSnapshotStore_def loadLatest_def mget_or_def)
  then show ?thesis
    using s1 cl(2) by (simp add: snapshot_Load_def sn_def snapshot_through_json_def)
qed

theorem snapshot_save_then_restart_witness:
  "\<exists>s1 s2. Save None ''id'' 100 [] 3 \<lparr>sp_files = [], sp_latest = None\<rparr> = (None, s1) \<and>
     NewSnapshotStore (\<lambda>_. False) False (sp_files s1) = Inr s2 \<and> GetSequence s2 = 3"
proof -
  obtain r s1 where s: "Save None ''id'' 100 [] 3 \<lparr>sp_files = [], sp_latest = None\<rparr> = (r, s1)" by (rule prod.exhaust)
  show ?thesis using snapshot_save_then_restart [OF _ _ _ s] s
    by (auto simp: GetSequence_def snapshot_Load_def split: option.splits)
qed

end
