(* ===== verification/Meta_Store.thy ===== *)
theory Meta_Store
  imports Event_Store
begin

text \<open>
  \<open>common/store/meta.go\<close>: resources by type and key, with one JSON file per type.

  A file holds a JSON tree, or \<open>None\<close> when its bytes are no JSON. A failure of the marshalling,
  write, open or rename is an argument of the operations that save; a save that fails leaves the file
  it would have replaced as it was, because the new content goes to a temporary file first. A nil
  inner map behaves as an empty one in every operation but \<open>List\<close>, whose result both are empty.
\<close>

section \<open>State and operations\<close>

record MetaStore =
  ms_resources :: "(string, (string, any) gomap) gomap"
  ms_files :: "(string, json option) gomap"

definition json_name :: "string \<Rightarrow> string" where
  "json_name typeName = typeName @ ''.json''"

definition load_file :: "(string \<Rightarrow> bool) \<Rightarrow> string \<times> json option \<Rightarrow> (string, (string, any) gomap) gomap \<Rightarrow> (string, (string, any) gomap) gomap" where
  "load_file unreadable nf res =
     (let typeName = take (length (fst nf) - 5) (fst nf) in
      if unreadable (fst nf) then res
      else case snd nf of
          Some (JObj m) \<Rightarrow> mput res typeName (map (map_prod id unmarshal_any) m)
        | Some JNull \<Rightarrow> mput res typeName []
        | _ \<Rightarrow> res)"

definition loadAll :: "(string \<Rightarrow> bool) \<Rightarrow> (string, json option) gomap \<Rightarrow> (string, (string, any) gomap) gomap" where
  "loadAll unreadable files = fold (load_file unreadable) (sort_key fst files) []"

definition NewMetaStore :: "(string \<Rightarrow> bool) \<Rightarrow> bool \<Rightarrow> (string, json option) gomap \<Rightarrow> string + MetaStore" where
  "NewMetaStore unreadable mkdirErr files =
     (if mkdirErr then Inl ''create meta store dir''
      else Inr \<lparr>ms_resources = loadAll unreadable files, ms_files = files\<rparr>)"

definition saveType :: "string option \<Rightarrow> string \<Rightarrow> MetaStore \<Rightarrow> string option \<times> MetaStore" where
  "saveType ioErr typeName s =
     (case ioErr of
        Some e \<Rightarrow> (Some e, s)
      | None \<Rightarrow> (None, s\<lparr>ms_files := mput (ms_files s) (json_name typeName)
          (Some (case mget (ms_resources s) typeName of
             None \<Rightarrow> JNull | Some m \<Rightarrow> JObj (map (map_prod id marshal) m)))\<rparr>))"

definition meta_Put :: "string option \<Rightarrow> ResourceKey \<Rightarrow> any \<Rightarrow> MetaStore \<Rightarrow> string option \<times> MetaStore" where
  "meta_Put ioErr key resource s =
     (let m = mget_or [] (ms_resources s) (rk_Type key) in
      saveType ioErr (rk_Type key)
        (s\<lparr>ms_resources := mput (ms_resources s) (rk_Type key) (mput m (ResourceKey_String key) resource)\<rparr>))"

definition meta_Get :: "MetaStore \<Rightarrow> ResourceKey \<Rightarrow> any option" where
  "meta_Get s key =
     (case mget (ms_resources s) (rk_Type key) of
        None \<Rightarrow> None
      | Some m \<Rightarrow> mget m (ResourceKey_String key))"

definition meta_Delete :: "string option \<Rightarrow> ResourceKey \<Rightarrow> MetaStore \<Rightarrow> string option \<times> MetaStore" where
  "meta_Delete ioErr key s =
     (case mget (ms_resources s) (rk_Type key) of
        None \<Rightarrow> (None, s)
      | Some m \<Rightarrow>
          saveType ioErr (rk_Type key)
            (s\<lparr>ms_resources := mput (ms_resources s) (rk_Type key) (mdel m (ResourceKey_String key))\<rparr>))"

definition meta_List :: "MetaStore \<Rightarrow> string \<Rightarrow> (string, any) gomap" where
  "meta_List s resourceType = mget_or [] (ms_resources s) resourceType"

definition ListAll :: "MetaStore \<Rightarrow> (string, (string, any) gomap) gomap" where
  "ListAll s = ms_resources s"

definition meta_Count :: "MetaStore \<Rightarrow> string \<Rightarrow> nat" where
  "meta_Count s resourceType = length (mget_or [] (ms_resources s) resourceType)"

text \<open>\<open>ioErr\<close> gives the outcome of saving each type; the first error ends the loop.\<close>

fun close_types :: "(string \<Rightarrow> string option) \<Rightarrow> string list \<Rightarrow> MetaStore \<Rightarrow> string option \<times> MetaStore" where
  "close_types ioErr [] s = (None, s)"
| "close_types ioErr (t # ts) s =
     (case saveType (ioErr t) t s of (Some e, s') \<Rightarrow> (Some e, s') | (None, s') \<Rightarrow> close_types ioErr ts s')"

definition meta_Close :: "(string \<Rightarrow> string option) \<Rightarrow> MetaStore \<Rightarrow> string option \<times> MetaStore" where
  "meta_Close ioErr s = close_types ioErr (map fst (ms_resources s)) s"

section \<open>The store is a keyed container\<close>

definition meta_wf :: "MetaStore \<Rightarrow> bool" where
  "meta_wf s \<longleftrightarrow> wf_map (ms_resources s) \<and> wf_map (ms_files s) \<and> list_all (\<lambda>(t, m). wf_map m) (ms_resources s)"

lemma saveType_resources [simp]: "ms_resources (snd (saveType e t s)) = ms_resources s"
  by (simp add: saveType_def split: option.split)

lemma saveType_wf: "meta_wf s \<Longrightarrow> meta_wf (snd (saveType e t s))"
  by (simp add: saveType_def meta_wf_def split: option.split)

lemma wf_mget: "list_all (\<lambda>(t, m). wf_map m) r \<Longrightarrow> mget r t = Some m \<Longrightarrow> wf_map m"
  by (auto simp: list_all_iff dest: map_of_SomeD)

lemma list_all_mput: "list_all (\<lambda>(t, m). P m) r \<Longrightarrow> P v \<Longrightarrow> list_all (\<lambda>(t, m). P m) (mput r t v)"
  by (induction r) auto

lemma meta_wf_Put: "meta_wf s \<Longrightarrow> meta_wf (snd (meta_Put e k v s))"
  unfolding meta_Put_def Let_def
  by (intro saveType_wf) (auto simp: meta_wf_def mget_or_def intro!: list_all_mput dest: wf_mget split: option.split)

lemma meta_wf_Delete:
  assumes "meta_wf s"
  shows "meta_wf (snd (meta_Delete e k s))"
proof (cases "mget (ms_resources s) (rk_Type k)")
  case (Some m)
  then have "wf_map m" using assms by (auto simp: meta_wf_def dest: wf_mget)
  then have "meta_wf (s\<lparr>ms_resources := mput (ms_resources s) (rk_Type k) (mdel m (ResourceKey_String k))\<rparr>)"
    using assms by (simp add: meta_wf_def list_all_mput)
  then show ?thesis using Some by (simp add: meta_Delete_def saveType_wf)
qed (use assms in \<open>simp add: meta_Delete_def\<close>)

lemma key_string_inj: "wf_key k \<Longrightarrow> wf_key k' \<Longrightarrow> ResourceKey_String k = ResourceKey_String k' \<longleftrightarrow> k = k'"
  using ParseResourceKey_Inr by (metis sum.inject(2))

lemma meta_Get_Put:
  assumes "wf_key k" "wf_key k'"
  shows "meta_Get (snd (meta_Put e k v s)) k' = (if k' = k then Some v else meta_Get s k')"
  using assms by (auto simp: meta_Get_def meta_Put_def Let_def mget_or_def key_string_inj split: option.split)

lemma meta_Get_Delete:
  assumes "wf_key k" "wf_key k'"
  shows "meta_Get (snd (meta_Delete e k s)) k' = (if k' = k then None else meta_Get s k')"
  using assms by (auto simp: meta_Get_def meta_Delete_def key_string_inj split: option.split)

interpretation meta: keyed_store meta_Get "\<lambda>s k v. snd (meta_Put e k v s)" "\<lambda>s k. snd (meta_Delete e k s)" meta_wf wf_key for e
  by unfold_locales (simp_all add: meta_Get_Put meta_Get_Delete meta_wf_Put meta_wf_Delete)

section \<open>Memory and disk\<close>

text \<open>After operations whose saves succeeded, the files are exactly the resources in memory.\<close>

definition meta_synced :: "MetaStore \<Rightarrow> bool" where
  "meta_synced s \<longleftrightarrow>
     (\<forall>t m. mget (ms_resources s) t = Some m \<longrightarrow> mget (ms_files s) (json_name t) = Some (Some (JObj (map (map_prod id marshal) m)))) \<and>
     (\<forall>n \<in> mkeys (ms_files s). \<exists>t. n = json_name t \<and> mget (ms_resources s) t \<noteq> None)"

lemma json_name_inj [simp]: "json_name t = json_name t' \<longleftrightarrow> t = t'"
  by (simp add: json_name_def)

lemma json_name_strip [simp]: "take (length (json_name t) - 5) (json_name t) = t"
  by (simp add: json_name_def)

lemma saveType_synced:
  assumes "meta_synced s"
  shows "meta_synced (snd (saveType None t (s\<lparr>ms_resources := mput (ms_resources s) t m\<rparr>)))" (is "meta_synced ?s")
proof -
  have r: "ms_resources ?s = mput (ms_resources s) t m"
    and f: "ms_files ?s = mput (ms_files s) (json_name t) (Some (JObj (map (map_prod id marshal) m)))"
    by (simp_all add: saveType_def)
  have "\<exists>u. n = json_name u \<and> mget (ms_resources ?s) u \<noteq> None" if "n \<in> mkeys (ms_files ?s)" for n
  proof -
    from that have "n = json_name t \<or> n \<in> mkeys (ms_files s)" unfolding f by auto
    then obtain u where "n = json_name u" "u = t \<or> mget (ms_resources s) u \<noteq> None"
      using assms unfolding meta_synced_def by blast
    then show ?thesis unfolding r by auto
  qed
  moreover have "mget (ms_files ?s) (json_name u) = Some (Some (JObj (map (map_prod id marshal) v)))"
    if "mget (ms_resources ?s) u = Some v" for u v
    using that assms unfolding r f by (auto simp: meta_synced_def split: if_splits)
  ultimately show ?thesis unfolding meta_synced_def by blast
qed

lemma meta_synced_Put: "meta_synced s \<Longrightarrow> meta_synced (snd (meta_Put None k v s))"
  unfolding meta_Put_def Let_def by (rule saveType_synced)

lemma meta_synced_Delete: "meta_synced s \<Longrightarrow> meta_synced (snd (meta_Delete None k s))"
  unfolding meta_Delete_def by (cases "mget (ms_resources s) (rk_Type k)") (simp_all add: saveType_synced)

lemma fold_load_file:
  assumes "distinct (map fst fs)" "\<forall>n \<in> mkeys fs. \<exists>t. n = json_name t"
  shows "mget (fold (load_file (\<lambda>_. False)) fs res) t =
     (case map_of fs (json_name t) of
        Some (Some (JObj m)) \<Rightarrow> Some (map (map_prod id unmarshal_any) m)
      | Some (Some JNull) \<Rightarrow> Some []
      | _ \<Rightarrow> mget res t)"
  using assms
proof (induction fs arbitrary: res)
  case (Cons nf fs)
  obtain u where u: "fst nf = json_name u" using Cons.prems(2) by auto
  have IH: "mget (fold (load_file (\<lambda>_. False)) fs res') t =
     (case map_of fs (json_name t) of
        Some (Some (JObj m)) \<Rightarrow> Some (map (map_prod id unmarshal_any) m)
      | Some (Some JNull) \<Rightarrow> Some [] | _ \<Rightarrow> mget res' t)" for res'
    using Cons by simp
  have none: "map_of fs (json_name t) = None" if "t = u"
    using that Cons.prems(1) u by (simp add: map_of_eq_None_iff)
  have nf: "nf = (json_name u, snd nf)" using u by (metis prod.collapse)
  have step: "mget (load_file (\<lambda>_. False) nf res) t =
      (if t = u then (case snd nf of Some (JObj m) \<Rightarrow> Some (map (map_prod id unmarshal_any) m)
         | Some JNull \<Rightarrow> Some [] | _ \<Rightarrow> mget res t) else mget res t)"
    using u by (simp add: load_file_def split: option.split json.split)
  show ?case
  proof (cases "t = u")
    case True
    have "map_of (nf # fs) (json_name t) = Some (snd nf)" using True by (subst nf) simp
    then show ?thesis using IH [of "load_file (\<lambda>_. False) nf res"] step none [OF True] True by simp
  next
    case False
    then have "mget (load_file (\<lambda>_. False) nf res) t = mget res t" "fst nf \<noteq> json_name t"
      using step u by (simp_all only: if_False simp_thms json_name_inj)
    then show ?thesis by (simp only: fold_simps map_of.simps fun_upd_apply if_False IH refl eq_commute [of "json_name t"])
  qed
qed simp

lemma map_of_sort_key: "wf_map m \<Longrightarrow> map_of (sort_key fst m) = map_of m"
  using glob_wf(2) [unfolded glob_def] by (intro map_of_inject_set [THEN iffD2]) (auto simp: distinct_map)

lemma loadAll_synced:
  assumes "meta_wf s" "meta_synced s"
  shows "mget (loadAll (\<lambda>_. False) (ms_files s)) t = map_option (map (map_prod id through_json)) (mget (ms_resources s) t)"
proof -
  have wf: "wf_map (ms_files s)" using assms(1) by (simp add: meta_wf_def)
  have d: "distinct (map fst (sort_key fst (ms_files s)))" using wf by (simp add: distinct_map)
  have names: "\<forall>n \<in> mkeys (sort_key fst (ms_files s)). \<exists>t. n = json_name t"
    using assms(2) by (simp add: meta_synced_def) blast
  have none: "mget (ms_files s) (json_name t) = None" if "mget (ms_resources s) t = None"
  proof -
    have "json_name t \<notin> mkeys (ms_files s)" using assms(2) that unfolding meta_synced_def by (metis json_name_inj)
    then show ?thesis by (simp add: map_of_eq_None_iff)
  qed
  have "(\<lambda>x. unmarshal_any (marshal x)) = through_json" by (rule ext) (simp add: through_json_def)
  then show ?thesis
    using assms(2) none unfolding loadAll_def fold_load_file [OF d names] map_of_sort_key [OF wf]
    by (cases "mget (ms_resources s) t") (simp_all add: meta_synced_def prod.map_comp comp_def id_def)
qed

datatype meta_op = MPut ResourceKey any | MDelete ResourceKey

definition meta_step :: "MetaStore \<Rightarrow> meta_op \<Rightarrow> MetaStore" where
  "meta_step s x = (case x of MPut k v \<Rightarrow> snd (meta_Put None k v s) | MDelete k \<Rightarrow> snd (meta_Delete None k s))"

interpretation meta_ops: invariant_run meta_step "\<lambda>s. meta_wf s \<and> meta_synced s" "\<lambda>_. True"
  by unfold_locales
    (auto simp: meta_step_def meta_wf_Put meta_wf_Delete meta_synced_Put meta_synced_Delete split: meta_op.split)

text \<open>A new store on the files of a synchronised one.\<close>

lemma meta_reload_Get:
  assumes "meta_wf s" "meta_synced s" "NewMetaStore readable False (ms_files s) = Inr s'"
  shows "meta_Get s' k = map_option through_json (meta_Get s k)"
proof -
  have "map_prod id through_json = (\<lambda>(k :: string, v). (k, through_json v))" by (auto simp: fun_eq_iff)
  moreover have "ms_resources s' = loadAll readable (ms_files s)" using assms(3) by (auto simp: NewMetaStore_def)
  ultimately show ?thesis
    using loadAll_synced [OF assms(1,2)] by (simp add: meta_Get_def map_of_map split: option.split)
qed

lemma meta_fresh: "NewMetaStore readable False [] = Inr s \<Longrightarrow> meta_wf s \<and> meta_synced s"
  by (auto simp: NewMetaStore_def loadAll_def meta_wf_def meta_synced_def)

section \<open>Properties\<close>

text \<open>The metadata is durable: after any run of puts and deletes whose saves succeed, a new store on
  the same files answers every \<open>Get\<close> as the old one did, with the resource as JSON values.\<close>

theorem meta_reload:
  assumes "NewMetaStore (\<lambda>_. False) False [] = Inr s0" and "s = foldl meta_step s0 ops"
    and "NewMetaStore (\<lambda>_. False) False (ms_files s) = Inr s'"
  shows "meta_Get s' k = map_option through_json (meta_Get s k)"
proof -
  have "meta_wf s \<and> meta_synced s" using meta_ops.run_inv [OF meta_fresh [OF assms(1)], of ops] assms(2) by (simp add: list_all_iff)
  then show ?thesis using meta_reload_Get assms(3) by blast
qed

theorem meta_reload_witness:
  "\<exists>s0 s'. NewMetaStore (\<lambda>_. False) False [] = Inr s0 \<and>
     NewMetaStore (\<lambda>_. False) False (ms_files (meta_step s0 (MPut \<lparr>rk_Type = ''proxy'', rk_Namespace = ''default'', rk_Name = ''c:1''\<rparr> (AnyInt 5)))) = Inr s' \<and>
     meta_Get s' \<lparr>rk_Type = ''proxy'', rk_Namespace = ''default'', rk_Name = ''c:1''\<rparr> = Some (AnyFloat (f64_of_int 5))"
proof -
  let ?k = "\<lparr>rk_Type = ''proxy'', rk_Namespace = ''default'', rk_Name = ''c:1''\<rparr>"
  obtain s0 where s0: "NewMetaStore (\<lambda>_. False) False [] = Inr s0" by (simp add: NewMetaStore_def)
  have g: "meta_Get (meta_step s0 (MPut ?k (AnyInt 5))) ?k = Some (AnyInt 5)"
    by (simp add: meta_step_def meta_Get_Put wf_key_def)
  obtain s' where s': "NewMetaStore (\<lambda>_. False) False (ms_files (meta_step s0 (MPut ?k (AnyInt 5)))) = Inr s'"
    by (simp add: NewMetaStore_def)
  have "meta_Get s' ?k = map_option through_json (meta_Get (meta_step s0 (MPut ?k (AnyInt 5))) ?k)"
    by (rule meta_reload [OF s0 _ s', where ops = "[MPut ?k (AnyInt 5)]"]) simp
  then show ?thesis using s0 s' g by auto
qed

end
