(* ===== verification/Storage_Manager.thy ===== *)
theory Storage_Manager
  imports Snapshot_Store Meta_Store
begin

text \<open>
  \<open>common/store/manager.go\<close>: the event log, the snapshots and the metadata behind one lock.

  Each exported method holds the lock for its whole body, so each is one function on the state. What
  the outside world does during one call (the outcome of the event write, the clock, the generated
  identifiers, errors of the snapshot and metadata files) is a record \<open>store_env\<close>.
\<close>

section \<open>State and operations\<close>

record StorageManager =
  sm_events :: EventStore
  sm_snapshots :: SnapshotStore
  sm_meta :: MetaStore
  sm_snapshotInterval :: int
  sm_eventCount :: int

record StorageConfig =
  sc_SnapshotInterval :: int

record disk =
  dk_events :: "(string, byte list) gomap"
  dk_snapshots :: "(string, SnapshotRec option) gomap"
  dk_meta :: "(string, json option) gomap"

text \<open>The errors a start can meet: creating the three directories and opening the event file.\<close>

record start_env =
  st_eventDirErr :: bool
  st_openErr :: bool
  st_snapshotDirErr :: bool
  st_metaDirErr :: bool
  st_unreadable :: "string \<Rightarrow> bool"
  st_nowUnix :: int

definition NewStorageManager ::
  "(byte list \<Rightarrow> GenericEvent option) \<Rightarrow> start_env \<Rightarrow> StorageConfig \<Rightarrow> disk \<Rightarrow> string + StorageManager" where
  "NewStorageManager dec v config d =
     (let interval = (if sc_SnapshotInterval config \<le> 0 then 1000 else sc_SnapshotInterval config) in
      case NewEventStore dec (st_unreadable v) (st_eventDirErr v) (st_openErr v) (st_nowUnix v) (dk_events d) of
        Inl e \<Rightarrow> Inl e
      | Inr events \<Rightarrow>
          (case NewSnapshotStore (st_unreadable v) (st_snapshotDirErr v) (dk_snapshots d) of
             Inl e \<Rightarrow> Inl e
           | Inr snapshots \<Rightarrow>
               (case NewMetaStore (st_unreadable v) (st_metaDirErr v) (dk_meta d) of
                  Inl e \<Rightarrow> Inl e
                | Inr meta \<Rightarrow>
                    Inr \<lparr>sm_events = events, sm_snapshots = snapshots, sm_meta = meta,
                         sm_snapshotInterval = interval, sm_eventCount = 0\<rparr>)))"

text \<open>The outcomes one call meets.\<close>

record store_env =
  se_outcome :: write_outcome
  se_now :: int
  se_eventID :: string
  se_snapshotErr :: "string option"
  se_snapshotID :: string
  se_metaErr :: "string option"

definition normalize :: "(string, any) gomap \<Rightarrow> (string, any) gomap" where
  "normalize resources = fold (\<lambda>(metaKey, val) m.
     mput m (case ParseResourceKey metaKey of Inl _ \<Rightarrow> metaKey | Inr rk \<Rightarrow> rk_Name rk) val) resources []"

definition snapshot_type :: "string \<times> (string, any) gomap \<Rightarrow> state_map \<Rightarrow> state_map" where
  "snapshot_type tr state =
     (if fst tr = ''proxy'' then mput state ''desired_proxies'' (normalize (snd tr))
      else if fst tr = ''relay'' then mput state ''desired_relays'' (normalize (snd tr))
      else mput state (fst tr) (snd tr))"

definition snapshot_state :: "MetaStore \<Rightarrow> state_map" where
  "snapshot_state meta = fold snapshot_type (ListAll meta) []"

definition createSnapshot :: "store_env \<Rightarrow> StorageManager \<Rightarrow> StorageManager" where
  "createSnapshot v m =
     (let sequence = int (events_Count (sm_events m)) in
      m\<lparr>sm_snapshots := snd (Save (se_snapshotErr v) (se_snapshotID v) (se_now v)
          (snapshot_state (sm_meta m)) sequence (sm_snapshots m))\<rparr>)"

text \<open>The check after each append: one more event, and a snapshot at every full interval.\<close>

definition count_event :: "store_env \<Rightarrow> StorageManager \<Rightarrow> StorageManager" where
  "count_event v m =
     (let m1 = m\<lparr>sm_eventCount := wrap64 (sm_eventCount m + 1)\<rparr> in
      if sm_snapshotInterval m1 \<le> sm_eventCount m1 then (createSnapshot v m1)\<lparr>sm_eventCount := 0\<rparr> else m1)"

definition AppendEvent ::
  "(GenericEvent \<Rightarrow> byte list option) \<Rightarrow> store_env \<Rightarrow> GenericEvent \<Rightarrow> StorageManager \<Rightarrow> string option \<times> StorageManager" where
  "AppendEvent enc v event m =
     (case Append enc (se_outcome v) (se_now v) event (sm_events m) of
        (Some e, evs) \<Rightarrow> (Some e, m\<lparr>sm_events := evs\<rparr>)
      | (None, evs) \<Rightarrow> (None, count_event v (m\<lparr>sm_events := evs\<rparr>)))"

definition AppendEventAndSave ::
  "(GenericEvent \<Rightarrow> byte list option) \<Rightarrow> store_env \<Rightarrow> GenericEvent \<Rightarrow> any \<Rightarrow> StorageManager \<Rightarrow> string option \<times> StorageManager" where
  "AppendEventAndSave enc v event resource m =
     (case Append enc (se_outcome v) (se_now v) event (sm_events m) of
        (Some e, evs) \<Rightarrow> (Some e, m\<lparr>sm_events := evs\<rparr>)
      | (None, evs) \<Rightarrow>
          let m1 = count_event v (m\<lparr>sm_events := evs\<rparr>) in
          if resource \<noteq> AnyNil then
            (case meta_Put (se_metaErr v) (ev_Resource event) resource (sm_meta m1) of
               (r, meta) \<Rightarrow> (r, m1\<lparr>sm_meta := meta\<rparr>))
          else (None, m1))"

definition DeleteResource ::
  "(GenericEvent \<Rightarrow> byte list option) \<Rightarrow> store_env \<Rightarrow> ResourceKey \<Rightarrow> StorageManager \<Rightarrow> string option \<times> StorageManager" where
  "DeleteResource enc v key m =
     (case meta_Delete (se_metaErr v) key (sm_meta m) of
        (Some e, meta) \<Rightarrow> (Some e, m\<lparr>sm_meta := meta\<rparr>)
      | (None, meta) \<Rightarrow>
          let m1 = m\<lparr>sm_meta := meta\<rparr>;
              event = NewGenericEvent (se_eventID v) (se_now v) key EventDeleted AnyNil in
          (case Append enc (se_outcome v) (se_now v) event (sm_events m1) of
             (Some e, evs) \<Rightarrow> (Some e, m1\<lparr>sm_events := evs\<rparr>)
           | (None, evs) \<Rightarrow> (None, count_event v (m1\<lparr>sm_events := evs\<rparr>))))"

text \<open>
  \<open>Close\<close> takes a last snapshot and closes the three stores. \<open>closeErr\<close> is the result of closing
  the event file; closing the snapshots cannot fail. All three are closed, the first error is returned.
\<close>

definition storage_Close :: "store_env \<Rightarrow> string option \<Rightarrow> (string \<Rightarrow> string option) \<Rightarrow> StorageManager \<Rightarrow> string option \<times> StorageManager" where
  "storage_Close v closeErr metaErr m =
     (let m1 = createSnapshot v m;
          m2 = m1\<lparr>sm_events := events_Close (sm_events m1)\<rparr>;
          (merr, meta) = meta_Close metaErr (sm_meta m2) in
      (case closeErr of Some e \<Rightarrow> Some e | None \<Rightarrow> merr, m2\<lparr>sm_meta := meta\<rparr>))"

record StorageStats =
  stat_EventCount :: nat
  stat_SnapshotCount :: nat
  stat_ResourceCount :: nat

definition Stats :: "StorageManager \<Rightarrow> StorageStats" where
  "Stats m = \<lparr>stat_EventCount = events_Count (sm_events m), stat_SnapshotCount = 1,
     stat_ResourceCount = meta_Count (sm_meta m) ''''\<rparr>"

definition disk_of :: "StorageManager \<Rightarrow> disk" where
  "disk_of m = \<lparr>dk_events = es_files (sm_events m), dk_snapshots = sp_files (sm_snapshots m),
     dk_meta = ms_files (sm_meta m)\<rparr>"

section \<open>Runs\<close>

datatype storage_op = SAppend GenericEvent | SSave GenericEvent any | SDelete ResourceKey

definition storage_call ::
  "(GenericEvent \<Rightarrow> byte list option) \<Rightarrow> StorageManager \<Rightarrow> store_env \<times> storage_op \<Rightarrow> string option \<times> StorageManager" where
  "storage_call enc m c = (case snd c of
      SAppend ev \<Rightarrow> AppendEvent enc (fst c) ev m
    | SSave ev r \<Rightarrow> AppendEventAndSave enc (fst c) ev r m
    | SDelete k \<Rightarrow> DeleteResource enc (fst c) k m)"

abbreviation storage_step ::
  "(GenericEvent \<Rightarrow> byte list option) \<Rightarrow> StorageManager \<Rightarrow> store_env \<times> storage_op \<Rightarrow> StorageManager" where
  "storage_step enc m c \<equiv> snd (storage_call enc m c)"


section \<open>What one call does to each store\<close>

declare map_of_eq_Some_iff [simp del]

lemma Append_length:
  "length (es_events (snd (Append enc w now ev s))) = length (es_events s) + (if fst (Append enc w now ev s) = None then 1 else 0)"
  by (simp add: Append_def Let_def write_file_def split: option.split write_outcome.split)

lemma createSnapshot_simps [simp]:
  "sm_events (createSnapshot v m) = sm_events m" "sm_meta (createSnapshot v m) = sm_meta m"
  "sm_snapshotInterval (createSnapshot v m) = sm_snapshotInterval m" "sm_eventCount (createSnapshot v m) = sm_eventCount m"
  by (simp_all add: createSnapshot_def)

lemma count_event_simps [simp]:
  "sm_events (count_event v m) = sm_events m" "sm_meta (count_event v m) = sm_meta m"
  "sm_snapshotInterval (count_event v m) = sm_snapshotInterval m"
  by (simp_all add: count_event_def Let_def)

lemma GetSequence_Save:
  "GetSequence (snd (Save None sid now state sq s)) = sq"
  by (simp add: Save_def GetSequence_def Let_def)

text \<open>
  Every call is the append of at most one event followed by the check, with the metadata changed
  before or after it.
\<close>

definition appended :: "(GenericEvent \<Rightarrow> byte list option) \<Rightarrow> store_env \<times> storage_op \<Rightarrow> GenericEvent" where
  "appended enc c = (case snd c of SAppend ev \<Rightarrow> ev | SSave ev _ \<Rightarrow> ev
     | SDelete k \<Rightarrow> NewGenericEvent (se_eventID (fst c)) (se_now (fst c)) k EventDeleted AnyNil)"

lemma storage_step_events:
  "sm_events (storage_step enc m c) = sm_events m \<or>
   sm_events (storage_step enc m c) = snd (Append enc (se_outcome (fst c)) (se_now (fst c)) (appended enc c) (sm_events m))"
  by (cases "snd c")
    (auto simp: storage_call_def AppendEvent_def AppendEventAndSave_def DeleteResource_def appended_def Let_def
      split: prod.split option.split)

lemma storage_step_meta:
  "sm_meta (storage_step enc m c) = sm_meta m \<or>
   (\<exists>ev r. snd c = SSave ev r \<and> sm_meta (storage_step enc m c) = snd (meta_Put (se_metaErr (fst c)) (ev_Resource ev) r (sm_meta m))) \<or>
   (\<exists>k. snd c = SDelete k \<and> sm_meta (storage_step enc m c) = snd (meta_Delete (se_metaErr (fst c)) k (sm_meta m)))"
  by (cases "snd c")
    (auto simp: storage_call_def AppendEvent_def AppendEventAndSave_def DeleteResource_def Let_def split: prod.split option.split)

section \<open>Counting events and taking snapshots\<close>

text \<open>
  \<open>a\<close> events were acknowledged since a start with \<open>n0\<close> events on disk and a latest snapshot of
  sequence \<open>q0\<close>.
\<close>

definition cadence :: "int \<Rightarrow> int \<Rightarrow> StorageManager \<Rightarrow> bool" where
  "cadence n0 q0 m \<longleftrightarrow>
     (let i = sm_snapshotInterval m; a = int (events_Count (sm_events m)) - n0 in
      0 < i \<and> i < 2 ^ 63 \<and> 0 \<le> a \<and> sm_eventCount m = a mod i \<and>
      GetSequence (sm_snapshots m) = (if a < i then q0 else n0 + (a - a mod i)))"

lemma cadence_same:
  "cadence n0 q0 m \<Longrightarrow> events_Count (sm_events m') = events_Count (sm_events m) \<Longrightarrow> sm_snapshots m' = sm_snapshots m \<Longrightarrow>
   sm_eventCount m' = sm_eventCount m \<Longrightarrow> sm_snapshotInterval m' = sm_snapshotInterval m \<Longrightarrow> cadence n0 q0 m'"
  by (simp add: cadence_def)

lemma mod_succ_cases:
  fixes a i :: int
  assumes "0 < i"
  shows "(a + 1) mod i = (if a mod i + 1 = i then 0 else a mod i + 1)"
  using assms mod_add_left_eq [of a i 1]
  by (smt (verit) mod_self mod_pos_pos_trivial pos_mod_bound pos_mod_sign)

lemma cadence_count:
  assumes "cadence n0 q0 m" "se_snapshotErr v = None" "events_Count evs = Suc (events_Count (sm_events m))"
  shows "cadence n0 q0 (count_event v (m\<lparr>sm_events := evs\<rparr>))"
proof -
  define i a where "i = sm_snapshotInterval m" and "a = int (events_Count (sm_events m)) - n0"
  have c: "0 < i" "i < 2 ^ 63" "0 \<le> a" "sm_eventCount m = a mod i"
    "GetSequence (sm_snapshots m) = (if a < i then q0 else n0 + (a - a mod i))"
    using assms(1) by (simp_all add: cadence_def i_def a_def Let_def)
  have n: "int (events_Count evs) = n0 + (a + 1)" using assms(3) by (simp add: a_def)
  have bound: "0 \<le> a mod i" "a mod i < i" using c(1) by simp_all
  then have w: "wrap64 (a mod i + 1) = a mod i + 1" using c(2) by (intro wrap64_id) simp_all
  note ms = mod_succ_cases [OF c(1), of a]
  show ?thesis
  proof (cases "a mod i + 1 = i")
    case True
    have "\<not> a + 1 < i"
    proof
      assume "a + 1 < i"
      moreover from this have "a mod i = a" using c(3) by simp
      ultimately show False using True by simp
    qed
    then show ?thesis
      using True c(1-4) w ms n assms(2)
      by (simp add: cadence_def count_event_def Let_def createSnapshot_def GetSequence_Save flip: i_def)
  next
    case False
    then have lt: "a mod i + 1 < i" using bound by linarith
    have "a + 1 < i \<longleftrightarrow> a < i"
    proof
      assume "a < i"
      then have "a mod i = a" using c(3) by simp
      then show "a + 1 < i" using lt by simp
    qed simp
    then show ?thesis
      using lt c w ms n by (simp add: cadence_def count_event_def Let_def flip: i_def)
  qed
qed

lemma cadence_step:
  assumes "cadence n0 q0 m" "se_snapshotErr (fst c) = None"
  shows "cadence n0 q0 (storage_step enc m c)"
proof -
  have app: "cadence n0 q0 (snd (case Append enc w now ev (sm_events m') of
        (Some e, evs) \<Rightarrow> (Some e, m'\<lparr>sm_events := evs\<rparr>) | (None, evs) \<Rightarrow> (None, count_event (fst c) (m'\<lparr>sm_events := evs\<rparr>))))"
    if "cadence n0 q0 m'" for w now ev m'
    using Append_length [of enc w now ev "sm_events m'"] that
    by (auto simp: events_Count_def intro: cadence_same [OF that] cadence_count [OF that assms(2)] split: prod.split option.split)
  have same: "cadence n0 q0 m'" if "cadence n0 q0 m1" "sm_events m' = sm_events m1" "sm_snapshots m' = sm_snapshots m1"
    "sm_eventCount m' = sm_eventCount m1" "sm_snapshotInterval m' = sm_snapshotInterval m1" for m' m1
    using that by (intro cadence_same [OF that(1)]) simp_all
  show ?thesis
  proof (cases "snd c")
    case (SAppend ev)
    then show ?thesis using app [OF assms(1)] by (simp add: storage_call_def AppendEvent_def)
  next
    case (SSave ev r)
    then show ?thesis
      using app [OF assms(1), of "se_outcome (fst c)" "se_now (fst c)" ev]
      by (auto simp: storage_call_def AppendEventAndSave_def Let_def intro: same split: prod.split option.split)
  next
    case (SDelete k)
    obtain r meta where d: "meta_Delete (se_metaErr (fst c)) k (sm_meta m) = (r, meta)" by (rule prod.exhaust)
    have m1: "cadence n0 q0 (m\<lparr>sm_meta := meta\<rparr>)" by (rule same [OF assms(1)]) simp_all
    then show ?thesis using app [OF m1] SDelete d by (cases r) (simp_all add: storage_call_def DeleteResource_def Let_def)
  qed
qed

interpretation snapshots: invariant_run "storage_step enc" "cadence n0 q0" "\<lambda>c. se_snapshotErr (fst c) = None" for enc n0 q0
  by unfold_locales (rule cadence_step)

section \<open>Consistency of memory and disk\<close>

definition whole_files :: "(string, SnapshotRec option) gomap \<Rightarrow> bool" where
  "whole_files files \<longleftrightarrow> (\<forall>nf \<in> set files. snd nf \<noteq> None)"

definition storage_inv :: "(byte list \<Rightarrow> GenericEvent option) \<Rightarrow> StorageManager \<Rightarrow> bool" where
  "storage_inv dec m \<longleftrightarrow> log_inv dec (sm_events m) \<and> meta_wf (sm_meta m) \<and> meta_synced (sm_meta m) \<and>
     whole_files (sp_files (sm_snapshots m))"

text \<open>The calls the theorems allow: event writes that succeed or write nothing, metadata saves that succeed.\<close>

definition env_ok :: "store_env \<Rightarrow> bool" where
  "env_ok v \<longleftrightarrow> clean (se_outcome v) \<and> se_metaErr v = None"

lemma set_fold_mdel: "set (fold (\<lambda>n fs. mdel fs n) ns fs) \<subseteq> set fs"
proof (induction ns arbitrary: fs)
  case (Cons n ns)
  have "set (fold (\<lambda>n fs. mdel fs n) ns (mdel fs n)) \<subseteq> set (mdel fs n)" by (rule Cons)
  also have "\<dots> \<subseteq> set fs" by (auto simp: set_mdel)
  finally show ?case by simp
qed simp

lemma set_mput_subset: "set (mput m k v) \<subseteq> insert (k, v) (set m)"
  by (induction m) auto

lemma Save_readable:
  assumes "whole_files (sp_files s)"
  shows "whole_files (sp_files (snd (Save e sid now st sq s)))"
proof (cases e)
  case None
  define fs where "fs = mput (sp_files s) (fmt_int now @ ''.json'')
    (Some (snapshot_through_json \<lparr>sn_ID = sid, sn_Timestamp = now, sn_Sequence = sq, sn_State = st\<rparr>))"
  have "set fs \<subseteq> insert (fmt_int now @ ''.json'', Some (snapshot_through_json
    \<lparr>sn_ID = sid, sn_Timestamp = now, sn_Sequence = sq, sn_State = st\<rparr>)) (set (sp_files s))"
    unfolding fs_def by (rule set_mput_subset)
  then have "whole_files fs" using assms by (auto simp: whole_files_def)
  moreover have "set (cleanupOldSnapshots 5 fs) \<subseteq> set fs"
    unfolding cleanupOldSnapshots_def Let_def using set_fold_mdel by (simp only: split: if_split) blast
  moreover have "sp_files (snd (Save e sid now st sq s)) = cleanupOldSnapshots 5 fs"
    using None by (simp add: Save_def Let_def fs_def)
  ultimately show ?thesis by (auto simp: whole_files_def)
qed (use assms in \<open>simp add: Save_def Let_def\<close>)

lemma count_event_whole [simp]:
  "whole_files (sp_files (sm_snapshots m)) \<Longrightarrow> whole_files (sp_files (sm_snapshots (count_event v m)))"
  by (simp add: count_event_def Let_def createSnapshot_def Save_readable)

lemma storage_step_snapshots:
  "whole_files (sp_files (sm_snapshots m)) \<Longrightarrow> whole_files (sp_files (sm_snapshots (storage_step enc m c)))"
  by (cases "snd c")
    (auto simp: storage_call_def AppendEvent_def AppendEventAndSave_def DeleteResource_def Let_def split: prod.split option.split)

lemma storage_inv_step:
  assumes "storage_inv dec m" "env_ok (fst c)" "\<forall>e. codec_ok enc dec e" "es_sequence (sm_events m) < 2 ^ 63 - 1"
  shows "storage_inv dec (storage_step enc m c)"
    "es_sequence (sm_events (storage_step enc m c)) \<le> es_sequence (sm_events m) + 1"
proof -
  have inv: "log_inv dec (sm_events m)" "meta_wf (sm_meta m)" "meta_synced (sm_meta m)"
    "whole_files (sp_files (sm_snapshots m))"
    using assms(1) by (simp_all add: storage_inv_def)
  have ok: "clean (se_outcome (fst c))" "se_metaErr (fst c) = None" using assms(2) by (simp_all add: env_ok_def)
  note app = Append_clean(1,2) [OF inv(1) ok(1) assms(3) [THEN spec] assms(4), of "se_now (fst c)" "appended enc c"]
  have ev: "log_inv dec (sm_events (storage_step enc m c))"
    "es_sequence (sm_events (storage_step enc m c)) \<le> es_sequence (sm_events m) + 1"
    using storage_step_events [of enc m c] app inv(1) by auto
  have "meta_wf (sm_meta (storage_step enc m c)) \<and> meta_synced (sm_meta (storage_step enc m c))"
    using storage_step_meta [of enc m c] inv(2,3) ok(2)
    by (auto simp: meta_wf_Put meta_wf_Delete meta_synced_Put meta_synced_Delete)
  then show "storage_inv dec (storage_step enc m c)"
    using ev(1) storage_step_snapshots [OF inv(4)] by (simp add: storage_inv_def)
  show "es_sequence (sm_events (storage_step enc m c)) \<le> es_sequence (sm_events m) + 1" by (fact ev(2))
qed

lemma storage_inv_run:
  assumes "storage_inv dec m" "list_all (\<lambda>c. env_ok (fst c)) cs" "\<forall>e. codec_ok enc dec e"
    "es_sequence (sm_events m) + int (length cs) < 2 ^ 63"
  shows "storage_inv dec (foldl (storage_step enc) m cs)"
  using assms(1,2,4)
proof (induction cs arbitrary: m)
  case (Cons c cs)
  have "es_sequence (sm_events m) < 2 ^ 63 - 1" using Cons.prems(3) by simp
  note st = storage_inv_step [OF Cons.prems(1) _ assms(3) this, of c]
  show ?case using Cons.IH [OF st(1)] st(2) Cons.prems(2,3) by simp
qed simp

lemma pick_latest_member: "fst (fold pick_latest ns acc) = Some f \<Longrightarrow> fst acc = Some f \<or> f \<in> set ns"
  by (induction ns arbitrary: acc) (fastforce simp: pick_latest_def Let_def split: if_splits)+

lemma loadLatest_readable:
  assumes "whole_files files"
  shows "\<exists>l. loadLatest readable files = Inr l"
proof (cases "fst (fold pick_latest (sort (map fst files)) (None, 0))")
  case (Some f)
  then have "f \<in> mkeys files" using pick_latest_member [OF Some] by simp
  then obtain x where "mget files f = Some x" by (auto simp: mkeys_mget)
  moreover from this have "x \<noteq> None" using assms map_of_SomeD [of files f x] by (auto simp: whole_files_def)
  ultimately show ?thesis using Some by (auto simp: loadLatest_def mget_or_def)
qed (simp add: loadLatest_def)

definition clean_start :: "int \<Rightarrow> start_env" where
  "clean_start t = \<lparr>st_eventDirErr = False, st_openErr = False, st_snapshotDirErr = False, st_metaDirErr = False,
     st_unreadable = (\<lambda>_. False), st_nowUnix = t\<rparr>"

definition empty_disk :: disk where
  "empty_disk = \<lparr>dk_events = [], dk_snapshots = [], dk_meta = []\<rparr>"

lemma storage_inv_fresh: "NewStorageManager dec (clean_start t) config empty_disk = Inr m \<Longrightarrow> storage_inv dec m"
  by (auto simp: NewStorageManager_def clean_start_def empty_disk_def storage_inv_def NewSnapshotStore_def loadLatest_def
      whole_files_def meta_fresh log_inv_fresh split: sum.splits)

lemma storage_reload:
  assumes "storage_inv dec m" "\<forall>k \<in> mkeys (dk_events (disk_of m)). k \<le> fmt_int t' @ ''.jsonl''"
  shows "\<exists>m'. NewStorageManager dec (clean_start t') config' (disk_of m) = Inr m' \<and>
     es_events (sm_events m') = map reload_event (es_events (sm_events m)) \<and> log_inv dec (sm_events m') \<and>
     (\<forall>k. meta_Get (sm_meta m') k = map_option through_json (meta_Get (sm_meta m) k)) \<and>
     (\<forall>t. mget (ms_resources (sm_meta m')) t = map_option (map (map_prod id through_json)) (mget (ms_resources (sm_meta m)) t))"
proof -
  have inv: "log_inv dec (sm_events m)" "meta_wf (sm_meta m)" "meta_synced (sm_meta m)" "whole_files (sp_files (sm_snapshots m))"
    using assms(1) by (simp_all add: storage_inv_def)
  obtain l where l: "loadLatest readable (sp_files (sm_snapshots m)) = Inr l" using loadLatest_readable [OF inv(4)] by blast
  obtain evs where evs: "NewEventStore dec readable False False t' (es_files (sm_events m)) = Inr evs"
    by (simp add: NewEventStore_def Let_def case_prod_beta)
  obtain meta where meta: "NewMetaStore readable False (ms_files (sm_meta m)) = Inr meta" by (simp add: NewMetaStore_def)
  have le: "\<forall>k \<in> mkeys (es_files (sm_events m)). k \<le> fmt_int t' @ ''.jsonl''" using assms(2) by (simp add: disk_of_def)
  have "ms_resources meta = loadAll readable (ms_files (sm_meta m))" using meta by (auto simp: NewMetaStore_def)
  then have "mget (ms_resources meta) t = map_option (map (map_prod id through_json)) (mget (ms_resources (sm_meta m)) t)" for t
    using loadAll_synced [OF inv(2,3)] by simp
  then show ?thesis
    using evs meta l log_reload [OF inv(1) le evs] meta_reload_Get [OF inv(2,3) meta]
    by (simp add: NewStorageManager_def clean_start_def disk_of_def NewSnapshotStore_def Let_def)
qed

section \<open>Properties\<close>


definition sample_env :: store_env where
  "sample_env = \<lparr>se_outcome = WriteOK, se_now = 7, se_eventID = ''e'', se_snapshotErr = None, se_snapshotID = ''s'', se_metaErr = None\<rparr>"

definition sample_saves :: "(store_env \<times> storage_op) list" where
  "sample_saves = [(sample_env, SSave tiny_event (AnyStr ''v'')), (sample_env, SAppend tiny_event)]"

lemma sample_start:
  "\<exists>m0. NewStorageManager dec (clean_start 5) \<lparr>sc_SnapshotInterval = 2\<rparr> empty_disk = Inr m0 \<and>
     sm_events m0 = \<lparr>es_files = [(''5.jsonl'', [])], es_file = Some ''5.jsonl'', es_events = [], es_sequence = 0\<rparr> \<and>
     sm_snapshots m0 = \<lparr>sp_files = [], sp_latest = None\<rparr> \<and> sm_meta m0 = \<lparr>ms_resources = [], ms_files = []\<rparr> \<and>
     sm_snapshotInterval m0 = 2 \<and> sm_eventCount m0 = 0"
  by (simp add: NewStorageManager_def clean_start_def empty_disk_def NewEventStore_def loadEvents_def glob_def openFile_def
      NewSnapshotStore_def loadLatest_def NewMetaStore_def loadAll_def Let_def)

lemma tiny_append:
  assumes "es_sequence s = 0 \<or> es_sequence s = 1" "es_file s = Some f" "map fst (es_files s) = [f]"
  obtains s' where "Append tiny_enc WriteOK now tiny_event s = (None, s')" "es_sequence s' = es_sequence s + 1"
    "es_file s' = Some f" "map fst (es_files s') = [f]" "length (es_events s') = length (es_events s) + 1"
proof -
  have "\<exists>d. tiny_enc (stamp (es_sequence s + 1) now tiny_event) = Some d"
    using assms(1) by (auto simp: tiny_enc_def stamp_def tiny_event_def NewGenericEvent_def)
  moreover have "wrap64 (es_sequence s + 1) = es_sequence s + 1" using assms(1) by (auto simp: wrap64_def)
  moreover have "map fst (mput (es_files s) f v) = [f]" for v using assms(3) by (cases "es_files s") auto
  ultimately show ?thesis using assms(2) that by (auto simp: Append_def Let_def write_file_def)
qed

lemma sample_saves_events:
  assumes "sm_events m0 = \<lparr>es_files = [(''5.jsonl'', [])], es_file = Some ''5.jsonl'', es_events = [], es_sequence = 0\<rparr>"
    "sm_meta m0 = \<lparr>ms_resources = [], ms_files = []\<rparr>"
  shows "events_Count (sm_events (foldl (storage_step tiny_enc) m0 sample_saves)) = 2 \<and>
    map fst (es_files (sm_events (foldl (storage_step tiny_enc) m0 sample_saves))) = [''5.jsonl''] \<and>
    meta_Get (sm_meta (foldl (storage_step tiny_enc) m0 sample_saves)) (ev_Resource tiny_event) = Some (AnyStr ''v'')"
proof -
  obtain s1 where 1: "Append tiny_enc WriteOK 7 tiny_event (sm_events m0) = (None, s1)" "es_sequence s1 = 1"
    "es_file s1 = Some ''5.jsonl''" "map fst (es_files s1) = [''5.jsonl'']" "length (es_events s1) = 1"
    using tiny_append [of "sm_events m0" "''5.jsonl''" 7 thesis] assms(1) by auto
  obtain s2 where 2: "Append tiny_enc WriteOK 7 tiny_event s1 = (None, s2)"
    "map fst (es_files s2) = [''5.jsonl'']" "length (es_events s2) = 2"
    using tiny_append [of s1 "''5.jsonl''" 7 thesis] 1 by auto
  show ?thesis
    using 1(1) 2 assms(2)
    by (simp add: sample_saves_def sample_env_def storage_call_def AppendEvent_def AppendEventAndSave_def Let_def
        events_Count_def meta_Put_def saveType_def meta_Get_def)
qed


text \<open>Snapshots are taken at every full interval of acknowledged events: after any run in which
  the snapshot files can be written, whatever happens to the event and metadata files, the counter
  is the number of events acknowledged since the start modulo the interval, and the latest snapshot
  has the number of the last event that filled an interval (or is the one found at the start).\<close>

theorem snapshot_cadence:
  assumes "NewStorageManager dec v \<lparr>sc_SnapshotInterval = i\<rparr> d = Inr m0" and "0 < i" and "i < 2 ^ 63"
    and "list_all (\<lambda>c. se_snapshotErr (fst c) = None) cs" and "m = foldl (storage_step enc) m0 cs"
    and "n0 = int (events_Count (sm_events m0))" and "a = int (events_Count (sm_events m)) - n0"
  shows "0 \<le> a \<and> sm_eventCount m = a mod i \<and>
     GetSequence (sm_snapshots m) = (if a < i then GetSequence (sm_snapshots m0) else n0 + i * (a div i))"
proof -
  have start: "sm_snapshotInterval m0 = i" "sm_eventCount m0 = 0"
    using assms(1,2) by (auto simp: NewStorageManager_def split: sum.splits)
  have "cadence n0 (GetSequence (sm_snapshots m0)) m0"
    using start assms(2,3,6) by (simp add: cadence_def)
  then have c: "cadence n0 (GetSequence (sm_snapshots m0)) m" using snapshots.run_inv assms(4,5) by simp
  have "sm_snapshotInterval (foldl (storage_step enc) m0 cs) = i"
    using start(1)
  proof (induction cs arbitrary: m0)
    case (Cons c cs)
    have "sm_snapshotInterval (storage_step enc m0 c) = sm_snapshotInterval m0"
      by (cases "snd c") (auto simp: storage_call_def AppendEvent_def AppendEventAndSave_def DeleteResource_def Let_def
        split: prod.split option.split)
    then show ?case using Cons by simp
  qed simp
  then show ?thesis using c assms(5,7) by (simp add: cadence_def Let_def minus_mod_eq_mult_div)
qed

theorem snapshot_cadence_witness:
  "\<exists>m :: StorageManager. events_Count (sm_events m) = 2 \<and> sm_eventCount m = 0 \<and> GetSequence (sm_snapshots m) = 2"
proof -
  obtain m0 where m0: "NewStorageManager tiny_dec (clean_start 5) \<lparr>sc_SnapshotInterval = 2\<rparr> empty_disk = Inr m0"
    "sm_events m0 = \<lparr>es_files = [(''5.jsonl'', [])], es_file = Some ''5.jsonl'', es_events = [], es_sequence = 0\<rparr>"
    "sm_snapshotInterval m0 = 2" "sm_eventCount m0 = 0" "sm_meta m0 = \<lparr>ms_resources = [], ms_files = []\<rparr>"
    using sample_start by blast
  have ok: "list_all (\<lambda>c. se_snapshotErr (fst c) = None) sample_saves" by (simp add: sample_saves_def sample_env_def)
  define m where "m = foldl (storage_step tiny_enc) m0 sample_saves"
  note evs = sample_saves_events [OF m0(2,5), folded m_def]
  note ev = conjunct1 [OF evs] conjunct1 [OF conjunct2 [OF evs]] conjunct2 [OF conjunct2 [OF evs]]
  have "events_Count (sm_events m0) = 0" by (simp add: m0(2) events_Count_def)
  then show ?thesis
    using snapshot_cadence [OF m0(1) _ _ ok m_def refl refl] ev(1) by (auto intro!: exI [of _ m])
qed

text \<open>A resource saved by the event that fills an interval is missing from the snapshot that
  counts this event: the snapshot is taken before the resource reaches the metadata store.\<close>

theorem snapshot_misses_last_save:
  assumes "AppendEventAndSave enc v event resource m = (None, m')" and "resource \<noteq> AnyNil"
    and "rk_Type (ev_Resource event) = ''proxy''" and "mget (ms_resources (sm_meta m)) ''proxy'' = None"
    and "mget (ms_resources (sm_meta m)) ''desired_proxies'' = None"
    and "sm_eventCount m + 1 = sm_snapshotInterval m" and "0 \<le> sm_eventCount m" and "sm_snapshotInterval m < 2 ^ 63"
    and "se_snapshotErr v = None"
  shows "\<exists>sn. snapshot_Load (sm_snapshots m') = Inr sn \<and> sn_Sequence sn = int (events_Count (sm_events m')) \<and>
     meta_Get (sm_meta m') (ev_Resource event) = Some resource \<and> mget (sn_State sn) ''desired_proxies'' = None"
proof -
  obtain evs where evs: "Append enc (se_outcome v) (se_now v) event (sm_events m) = (None, evs)"
    using assms(1) by (auto simp: AppendEventAndSave_def split: prod.splits option.splits)
  define m1 where "m1 = count_event v (m\<lparr>sm_events := evs\<rparr>)"
  have m': "sm_snapshots m' = sm_snapshots m1" "sm_events m' = evs" "sm_meta m' = snd (meta_Put (se_metaErr v) (ev_Resource event) resource (sm_meta m))"
    using assms(1,2) evs by (auto simp: AppendEventAndSave_def m1_def Let_def split: prod.splits)
  have "wrap64 (sm_eventCount m + 1) = sm_snapshotInterval m" using assms(6-8) by (simp add: wrap64_id)
  then have sn: "sp_latest (sm_snapshots m1) = Some \<lparr>sn_ID = se_snapshotID v, sn_Timestamp = se_now v,
      sn_Sequence = int (events_Count evs), sn_State = snapshot_state (sm_meta m)\<rparr>"
    using assms(9) by (simp add: m1_def count_event_def createSnapshot_def Save_def Let_def)
  have "mget (fold snapshot_type rs st) ''desired_proxies'' = mget st ''desired_proxies''"
    if "\<forall>tr \<in> set rs. fst tr \<noteq> ''proxy'' \<and> fst tr \<noteq> ''desired_proxies''" for rs st
    using that by (induction rs arbitrary: st) (auto simp: snapshot_type_def)
  moreover have "\<forall>tr \<in> set (ms_resources (sm_meta m)). fst tr \<noteq> ''proxy'' \<and> fst tr \<noteq> ''desired_proxies''"
    using assms(4,5) by (auto simp: map_of_eq_None_iff rev_image_eqI)
  ultimately have "mget (snapshot_state (sm_meta m)) ''desired_proxies'' = None"
    by (simp add: snapshot_state_def ListAll_def)
  then show ?thesis using sn m' by (simp add: snapshot_Load_def meta_Put_def meta_Get_def Let_def)
qed

theorem snapshot_misses_last_save_witness:
  "\<exists>(m' :: StorageManager) sn. snapshot_Load (sm_snapshots m') = Inr sn \<and> sn_Sequence sn = 1 \<and>
     meta_Get (sm_meta m') (ev_Resource tiny_event) = Some (AnyStr ''v'') \<and> mget (sn_State sn) ''desired_proxies'' = None"
proof -
  let ?m = "\<lparr>sm_events = \<lparr>es_files = [(''5.jsonl'', [])], es_file = Some ''5.jsonl'', es_events = [], es_sequence = 0\<rparr>,
    sm_snapshots = \<lparr>sp_files = [], sp_latest = None\<rparr>, sm_meta = \<lparr>ms_resources = [], ms_files = []\<rparr>,
    sm_snapshotInterval = 1, sm_eventCount = 0\<rparr>"
  obtain s' where s': "Append tiny_enc WriteOK 7 tiny_event (sm_events ?m) = (None, s')" "length (es_events s') = 1"
    using tiny_append [of "sm_events ?m" "''5.jsonl''" 7 thesis] by auto
  then obtain m' where m': "AppendEventAndSave tiny_enc sample_env tiny_event (AnyStr ''v'') ?m = (None, m')" "sm_events m' = s'"
    by (auto simp: AppendEventAndSave_def sample_env_def Let_def meta_Put_def saveType_def)
  show ?thesis
    using snapshot_misses_last_save [OF m'(1)] m'(2) s'(2)
    by (auto simp: sample_env_def tiny_event_def NewGenericEvent_def events_Count_def)
qed

text \<open>\<open>Stats\<close> never reports a resource: it counts those of the empty type, which no resource with
  a valid key has.\<close>

theorem stats_count_no_resource:
  assumes "NewStorageManager dec (clean_start t) config empty_disk = Inr m0"
    and "\<forall>c \<in> set cs. case snd c of SSave ev _ \<Rightarrow> rk_Type (ev_Resource ev) \<noteq> '''' | _ \<Rightarrow> True"
    and "m = foldl (storage_step enc) m0 cs"
  shows "stat_ResourceCount (Stats m) = 0"
proof -
  have put: "mget (ms_resources (snd (meta_Put e k r s))) '''' = mget (ms_resources s) ''''" if "rk_Type k \<noteq> ''''" for e k r s
    using that by (simp add: meta_Put_def Let_def)
  have del: "mget (ms_resources (snd (meta_Delete e k s))) '''' = None" if "mget (ms_resources s) '''' = None" for e k s
    using that by (auto simp: meta_Delete_def split: option.split)
  have "mget (ms_resources (sm_meta m0)) '''' = None"
    using assms(1) by (auto simp: NewStorageManager_def clean_start_def empty_disk_def NewMetaStore_def loadAll_def split: sum.splits)
  with assms(2) have "mget (ms_resources (sm_meta (foldl (storage_step enc) m0 cs))) '''' = None"
  proof (induction cs arbitrary: m0)
    case (Cons c cs)
    have "mget (ms_resources (sm_meta (storage_step enc m0 c))) '''' = None"
      using storage_step_meta [of enc m0 c] Cons.prems put del by (auto split: storage_op.splits)
    then show ?case using Cons by simp
  qed simp
  then show ?thesis using assms(3) by (simp add: Stats_def meta_Count_def mget_or_def)
qed

theorem stats_count_no_resource_witness:
  "\<exists>m :: StorageManager. meta_Get (sm_meta m) (ev_Resource tiny_event) = Some (AnyStr ''v'') \<and> stat_ResourceCount (Stats m) = 0"
proof -
  obtain m0 where m0: "NewStorageManager tiny_dec (clean_start 5) \<lparr>sc_SnapshotInterval = 2\<rparr> empty_disk = Inr m0"
    "sm_events m0 = \<lparr>es_files = [(''5.jsonl'', [])], es_file = Some ''5.jsonl'', es_events = [], es_sequence = 0\<rparr>"
    "sm_meta m0 = \<lparr>ms_resources = [], ms_files = []\<rparr>"
    using sample_start by blast
  have "\<forall>c \<in> set sample_saves. case snd c of SSave ev _ \<Rightarrow> rk_Type (ev_Resource ev) \<noteq> '''' | _ \<Rightarrow> True"
    by (simp add: sample_saves_def tiny_event_def NewGenericEvent_def)
  from stats_count_no_resource [OF m0(1) this refl, where enc = tiny_enc] sample_saves_events [OF m0(2,3)] show ?thesis by blast
qed

end
