(* ===== verification/Runtime_Core.thy ===== *)
theory Runtime_Core
  imports Event_Bus Reconcile Storage_Manager
begin

text \<open>
  \<open>BBgrid_Server/runtime/core.go\<close>: the event bus, the state store, the reconcile engine and the
  storage, joined by three subscriptions.

  A handler on the bus is a code address; the three closures \<open>NewCore\<close> subscribes are the codes 1
  (client), 2 (proxy) and 3 (relay), and \<open>core_handler\<close> gives their bodies. Handlers with other codes
  belong to plugins and the session server and leave the core alone. One turn of a bus worker takes an
  event and calls the handlers in order; the clock and what the storage meets are arguments of the turn.
\<close>

section \<open>State and operations\<close>

record Core =
  co_eventBus :: EventBusImpl
  co_stateStore :: StateStoreImpl
  co_reconcile :: ReconcileEngine
  co_storage :: "StorageManager option"
  co_restoring :: bool

definition client_sub :: EventHandler where "client_sub = \<lparr>eh_code = 1, eh_env = 0\<rparr>"
definition proxy_sub :: EventHandler where "proxy_sub = \<lparr>eh_code = 2, eh_env = 0\<rparr>"
definition relay_sub :: EventHandler where "relay_sub = \<lparr>eh_code = 3, eh_env = 0\<rparr>"

definition NewCore :: "string \<Rightarrow> StorageManager option \<Rightarrow> Core" where
  "NewCore publicIP storage =
     \<lparr>co_eventBus = Subscribe ResourceTypeRelay relay_sub (Subscribe ResourceTypeProxy proxy_sub
        (Subscribe ResourceTypeClient client_sub NewEventBus)),
      co_stateStore = NewStateStore publicIP, co_reconcile = NewReconcileEngine, co_storage = storage, co_restoring = False\<rparr>"

definition core_Publish :: "GenericEvent \<Rightarrow> Core \<Rightarrow> Core" where
  "core_Publish event k = k\<lparr>co_eventBus := Publish event (co_eventBus k)\<rparr>"

definition SetRestoring :: "bool \<Rightarrow> Core \<Rightarrow> Core" where
  "SetRestoring v k = k\<lparr>co_restoring := v\<rparr>"

definition IsRestoring :: "Core \<Rightarrow> bool" where
  "IsRestoring k = co_restoring k"

text \<open>What the proxy and the relay subscriber persist: the errors are only logged.\<close>

definition persist_event :: "(GenericEvent \<Rightarrow> byte list option) \<Rightarrow> store_env \<Rightarrow> GenericEvent \<Rightarrow> Core \<Rightarrow> Core" where
  "persist_event enc v event k =
     (case co_storage k of
        None \<Rightarrow> k
      | Some st \<Rightarrow>
          if co_restoring k then k
          else if ev_EventType event = EventAdded then
            k\<lparr>co_storage := Some (snd (AppendEventAndSave enc v event (ev_Payload event) st))\<rparr>
          else if ev_EventType event = EventDeleted then
            k\<lparr>co_storage := Some (snd (DeleteResource enc v (ev_Resource event) st))\<rparr>
          else k)"

definition on_client :: "int \<Rightarrow> GenericEvent \<Rightarrow> Core \<Rightarrow> Core" where
  "on_client now event k = k\<lparr>co_stateStore := Apply now event (co_stateStore k)\<rparr>"

definition on_resource :: "(GenericEvent \<Rightarrow> byte list option) \<Rightarrow> int \<Rightarrow> store_env \<Rightarrow> GenericEvent \<Rightarrow> Core \<Rightarrow> Core" where
  "on_resource enc now v event k =
     (let k1 = k\<lparr>co_stateStore := Apply now event (co_stateStore k)\<rparr>;
          k2 = persist_event enc v event k1 in
      k2\<lparr>co_reconcile := Trigger (co_reconcile k2)\<rparr>)"

definition core_handler :: "(GenericEvent \<Rightarrow> byte list option) \<Rightarrow> int \<Rightarrow> store_env \<Rightarrow> GenericEvent \<Rightarrow> EventHandler \<Rightarrow> Core \<Rightarrow> Core" where
  "core_handler enc now v event h k =
     (if eh_code h = 1 then on_client now event k
      else if eh_code h = 2 \<or> eh_code h = 3 then on_resource enc now v event k
      else k)"

definition core_turn :: "(GenericEvent \<Rightarrow> byte list option) \<Rightarrow> int \<Rightarrow> store_env \<Rightarrow> nat \<Rightarrow> Core \<Rightarrow> Core" where
  "core_turn enc now v c k =
     (let b = co_eventBus k in
      case cn_buf (eb_chans b ! c) of
        [] \<Rightarrow> k
      | event # _ \<Rightarrow>
          fold (core_handler enc now v event) (mget_or [] (eb_typeSubs b) (cn_type (eb_chans b ! c)))
            (k\<lparr>co_eventBus := worker_turn c b\<rparr>))"

definition SetReconcileProvider :: "Core \<Rightarrow> Core" where
  "SetReconcileProvider k = k\<lparr>co_reconcile := NewReconcileEngine\<rparr>"

definition core_Stop :: "Core \<Rightarrow> Core" where
  "core_Stop k = k\<lparr>co_reconcile := engine_Stop (co_reconcile k),
     co_eventBus := close_queues (close_stop (close_begin (co_eventBus k)))\<rparr>"

section \<open>Publishing and handling\<close>

declare map_of_eq_Some_iff [simp del]

text \<open>A bus that takes events of type \<open>t\<close>: open, with a subscriber.\<close>

definition takes :: "string \<Rightarrow> EventBusImpl \<Rightarrow> bool" where
  "takes t b \<longleftrightarrow> bus_inv b \<and> \<not> eb_closed b \<and> \<not> eb_stopped b \<and> mget (eb_typeSubs b) t \<noteq> None"

lemma Publish_frame [simp]:
  "eb_typeSubs (Publish ev b) = eb_typeSubs b" "eb_closed (Publish ev b) = eb_closed b" "eb_stopped (Publish ev b) = eb_stopped b"
  "eb_delivered (Publish ev b) = eb_delivered b"
  by (auto simp: Publish_def publish_begin_def publish_queue_def publish_send_def Let_def split: option.split)

lemma takes_Publish: "takes t b \<Longrightarrow> takes t (Publish ev b)"
  by (simp add: takes_def bus_inv_Publish)

lemma Publish_accepts:
  assumes "takes (ev_type ev) b" "length (queued (ev_type ev) b) < queueCap"
  shows "eb_accepted (Publish ev b) = eb_accepted b @ [ev\<lparr>ev_Sequence := wrap64 (eb_seq b + 1)\<rparr>]"
proof -
  let ?e = "ev\<lparr>ev_Sequence := wrap64 (eb_seq b + 1)\<rparr>" and ?b1 = "b\<lparr>eb_seq := wrap64 (eb_seq b + 1)\<rparr>"
  have inv: "chans_ok b" "open_ok b" "\<not> eb_stopped b" using assms(1) by (simp_all add: takes_def bus_inv_def)
  have started: "publish_begin ev b = (Some ?e, ?b1)" using assms(1) by (simp add: takes_def publish_begin_def Let_def)
  show ?thesis
  proof (cases "mget (eb_queues b) (ev_type ev)")
    case None
    then show ?thesis
      using started inv(3) by (simp add: Publish_def publish_queue_def publish_send_def Let_def queueCap_def)
  next
    case (Some c)
    then have c: "c < length (eb_chans b)" "cn_type (eb_chans b ! c) = ev_type ev" using inv(1) by (auto simp: chans_ok_def)
    then have "\<not> cn_closed (eb_chans b ! c)" using inv(2,3) by (simp add: open_ok_def)
    moreover have "length (cn_buf (eb_chans b ! c)) < queueCap" using queued_own [OF inv(1) c(1)] c(2) assms(2) by simp
    ultimately show ?thesis using started Some by (simp add: Publish_def publish_queue_def publish_send_def Let_def)
  qed
qed

lemma queued_Publish:
  assumes "takes (ev_type ev) b" "length (queued (ev_type ev) b) < queueCap"
  shows "queued t (Publish ev b) = queued t b @ (if t = ev_type ev then [ev\<lparr>ev_Sequence := wrap64 (eb_seq b + 1)\<rparr>] else [])"
proof -
  have f: "fifo b" "fifo (Publish ev b)" using assms(1) bus_inv_Publish [of b ev] by (simp_all add: takes_def bus_inv_def)
  have "del t (Publish ev b) = del t b" by (simp add: del_def)
  moreover have "acc t (Publish ev b) = acc t b @ (if t = ev_type ev then [ev\<lparr>ev_Sequence := wrap64 (eb_seq b + 1)\<rparr>] else [])"
    using Publish_accepts [OF assms] by (simp add: acc_def)
  ultimately show ?thesis using f unfolding fifo_def by (metis append.assoc same_append_eq)
qed

text \<open>A whole batch of one type that fits in the queue.\<close>

definition unseq :: "GenericEvent \<Rightarrow> GenericEvent" where
  "unseq e = e\<lparr>ev_Sequence := 0\<rparr>"

lemma unseq_simps [simp]:
  "ev_Resource (unseq e) = ev_Resource e" "ev_EventType (unseq e) = ev_EventType e" "ev_Payload (unseq e) = ev_Payload e"
  "unseq (e\<lparr>ev_Sequence := n\<rparr>) = unseq e"
  by (simp_all add: unseq_def)

lemma queued_batch:
  assumes "takes t b" "\<forall>e \<in> set evs. ev_type e = t" "length (queued t b) + length evs \<le> queueCap"
  shows "takes t (fold Publish evs b) \<and> map unseq (queued t (fold Publish evs b)) = map unseq (queued t b) @ map unseq evs \<and>
     eb_typeSubs (fold Publish evs b) = eb_typeSubs b"
  using assms
proof (induction evs arbitrary: b)
  case (Cons e evs)
  have t: "ev_type e = t" using Cons.prems(2) by simp
  have q: "queued t (Publish e b) = queued t b @ [e\<lparr>ev_Sequence := wrap64 (eb_seq b + 1)\<rparr>]"
    using queued_Publish [of e b t] Cons.prems t by simp
  show ?case using Cons.IH [OF takes_Publish [OF Cons.prems(1)]] Cons.prems q by simp
qed simp

lemma queued_batch_other:
  assumes "\<forall>e \<in> set evs. ev_type e \<noteq> t" "bus_inv b"
  shows "queued t (fold Publish evs b) = queued t b"
  using assms
proof (induction evs arbitrary: b)
  case (Cons e evs)
  have f: "fifo b" "fifo (Publish e b)" using Cons.prems(2) bus_inv_Publish [of b e] by (simp_all add: bus_inv_def)
  have "acc t (Publish e b) = acc t b" using Publish_accepted [of e b] Cons.prems(1) by (auto simp: acc_def)
  moreover have "del t (Publish e b) = del t b" by (simp add: del_def)
  ultimately have "queued t (Publish e b) = queued t b" using f unfolding fifo_def by (metis same_append_eq)
  then show ?case using Cons bus_inv_Publish by simp
qed simp

section \<open>Turns\<close>

text \<open>The core's own subscribers of a type; the others do not touch the core.\<close>

definition core_subs :: "string \<Rightarrow> EventBusImpl \<Rightarrow> EventHandler list" where
  "core_subs t b = filter (\<lambda>h. eh_code h \<in> {1, 2, 3}) (mget_or [] (eb_typeSubs b) t)"

definition wired :: "EventBusImpl \<Rightarrow> bool" where
  "wired b \<longleftrightarrow> core_subs ''client'' b = [client_sub] \<and> core_subs ''proxy'' b = [proxy_sub] \<and> core_subs ''relay'' b = [relay_sub] \<and>
     (\<forall>t. t \<noteq> ''client'' \<longrightarrow> t \<noteq> ''proxy'' \<longrightarrow> t \<noteq> ''relay'' \<longrightarrow> core_subs t b = [])"

lemma wired_New: "wired (co_eventBus (NewCore ip st))"
  by (simp add: wired_def core_subs_def NewCore_def Subscribe_def NewEventBus_def mget_or_def client_sub_def proxy_sub_def relay_sub_def)

lemma wired_cong: "eb_typeSubs b' = eb_typeSubs b \<Longrightarrow> wired b' = wired b"
  by (simp add: wired_def core_subs_def)

lemma wired_Subscribe: "wired b \<Longrightarrow> eh_code h \<notin> {1, 2, 3} \<Longrightarrow> wired (Subscribe t h b)"
  by (auto simp: wired_def core_subs_def Subscribe_def mget_or_def)

lemma fold_core_handler:
  "fold (core_handler enc now v e) hs k = fold (core_handler enc now v e) (filter (\<lambda>h. eh_code h \<in> {1, 2, 3}) hs) k"
  by (induction hs arbitrary: k) (auto simp: core_handler_def)

text \<open>What a turn does: the first event of the channel goes to the one core subscriber of its type.\<close>

lemma core_turn_empty: "cn_buf (eb_chans (co_eventBus k) ! c) = [] \<Longrightarrow> core_turn enc now v c k = k"
  by (simp add: core_turn_def)

lemma core_turn_event:
  assumes "wired (co_eventBus k)" "cn_buf (eb_chans (co_eventBus k) ! c) = e # es" "cn_type (eb_chans (co_eventBus k) ! c) = t"
  shows "core_turn enc now v c k = (let k1 = k\<lparr>co_eventBus := worker_turn c (co_eventBus k)\<rparr> in
     if t = ''client'' then on_client now e k1 else if t = ''proxy'' \<or> t = ''relay'' then on_resource enc now v e k1 else k1)"
proof -
  have "core_turn enc now v c k = fold (core_handler enc now v e) (core_subs t (co_eventBus k)) (k\<lparr>co_eventBus := worker_turn c (co_eventBus k)\<rparr>)"
    using assms(2,3) by (simp add: core_turn_def core_subs_def Let_def fold_core_handler [of _ _ _ _ "mget_or _ _ _"])
  moreover have "core_subs t (co_eventBus k) = (if t = ''client'' then [client_sub] else if t = ''proxy'' then [proxy_sub]
      else if t = ''relay'' then [relay_sub] else [])"
    using assms(1) by (simp add: wired_def)
  ultimately show ?thesis by (auto simp: core_handler_def client_sub_def proxy_sub_def relay_sub_def Let_def)
qed

lemma on_resource_bus [simp]: "co_eventBus (on_resource enc now v e k) = co_eventBus k"
  by (simp add: on_resource_def persist_event_def Let_def split: option.split)

lemma on_client_parts [simp]:
  "co_eventBus (on_client now e k) = co_eventBus k" "co_storage (on_client now e k) = co_storage k"
  "co_restoring (on_client now e k) = co_restoring k"
  by (simp_all add: on_client_def)

lemma on_resource_store [simp]: "co_stateStore (on_resource enc now v e k) = Apply now e (co_stateStore k)"
  by (simp add: on_resource_def persist_event_def Let_def split: option.split)

lemma core_turn_bus:
  assumes "wired (co_eventBus k)"
  shows "co_eventBus (core_turn enc now v c k) = worker_turn c (co_eventBus k)"
proof (cases "cn_buf (eb_chans (co_eventBus k) ! c)")
  case Nil
  then show ?thesis by (simp add: core_turn_empty worker_turn_def)
next
  case (Cons e es)
  then show ?thesis using core_turn_event [OF assms Cons refl, of enc now v] by (simp add: Let_def)
qed

section \<open>Memory and metadata agree\<close>

abbreviation meta_proxies :: "MetaStore \<Rightarrow> (string, any) gomap" where
  "meta_proxies meta \<equiv> mget_or [] (ms_resources meta) ''proxy''"

text \<open>The metadata holds exactly the proxies of the state store, under the keys of the default namespace.\<close>

definition proxies_persisted :: "StateStoreImpl \<Rightarrow> MetaStore \<Rightarrow> bool" where
  "proxies_persisted s meta \<longleftrightarrow> (\<forall>key. mget (meta_proxies meta) key =
     (case ParseResourceKey key of
        Inl _ \<Rightarrow> None
      | Inr rk \<Rightarrow> if rk_Type rk = ''proxy'' \<and> rk_Namespace rk = ''default'' then map_option AnyProxy (mget (ss_proxies s) (rk_Name rk)) else None))"

text \<open>The events the server publishes for proxies and relays.\<close>

definition event_ok :: "GenericEvent \<Rightarrow> bool" where
  "event_ok e \<longleftrightarrow>
     (rk_Type (ev_Resource e) = ''proxy'' \<longrightarrow> rk_Namespace (ev_Resource e) = ''default'' \<and> rk_Name (ev_Resource e) \<noteq> '''' \<and>
       (ev_EventType e = ''ADDED'' \<and> (\<exists>p. ev_Payload e = AnyProxy p \<and> rk_Name (ev_Resource e) = proxyKey (ps_ClientID p) (ps_RemotePort p)) \<or>
        ev_EventType e = ''DELETED'')) \<and>
     (rk_Type (ev_Resource e) = ''relay'' \<longrightarrow> ev_EventType e = ''ADDED'' \<or> ev_EventType e = ''DELETED'')"

text \<open>The error the storage returns for the event of a turn.\<close>

definition persist_result :: "(GenericEvent \<Rightarrow> byte list option) \<Rightarrow> store_env \<Rightarrow> GenericEvent \<Rightarrow> StorageManager \<Rightarrow> string option" where
  "persist_result enc v e st = (if ev_EventType e = EventAdded then fst (AppendEventAndSave enc v e (ev_Payload e) st)
     else fst (DeleteResource enc v (ev_Resource e) st))"

definition turn_ok :: "(GenericEvent \<Rightarrow> byte list option) \<Rightarrow> store_env \<Rightarrow> nat \<Rightarrow> Core \<Rightarrow> bool" where
  "turn_ok enc v c k \<longleftrightarrow>
     (case cn_buf (eb_chans (co_eventBus k) ! c) of [] \<Rightarrow> True
      | e # _ \<Rightarrow> (case co_storage k of None \<Rightarrow> True
          | Some st \<Rightarrow> env_ok v \<and> es_sequence (sm_events st) < 2 ^ 63 - 1 \<and>
              (ev_type e = ''proxy'' \<or> ev_type e = ''relay'' \<longrightarrow> persist_result enc v e st = None)))"

text \<open>
  A run of the server: events are published, other components subscribe and record connections and
  tokens, and workers take turns. A publish is one step here; in which order overlapping publishes
  enter a queue is the subject of \<open>Event_Bus\<close>.
\<close>

inductive core_step :: "(GenericEvent \<Rightarrow> byte list option) \<Rightarrow> Core \<Rightarrow> Core \<Rightarrow> bool" for enc where
  cs_publish: "event_ok e \<Longrightarrow> core_step enc k (core_Publish e k)"
| cs_subscribe: "eh_code h \<notin> {1, 2, 3} \<Longrightarrow> core_step enc k (k\<lparr>co_eventBus := Subscribe t h (co_eventBus k)\<rparr>)"
| cs_connect: "core_step enc k (k\<lparr>co_stateStore := SetClientConn (co_stateStore k) now cl conn\<rparr>)"
| cs_token: "core_step enc k (k\<lparr>co_stateStore := StoreTunnelToken (co_stateStore k) tok key\<rparr>)"
| cs_untoken: "core_step enc k (k\<lparr>co_stateStore := RemoveTunnelToken (co_stateStore k) tok\<rparr>)"
| cs_turn: "c < length (eb_chans (co_eventBus k)) \<Longrightarrow> turn_ok enc v c k \<Longrightarrow> core_step enc k (core_turn enc now v c k)"

inductive core_reach :: "(GenericEvent \<Rightarrow> byte list option) \<Rightarrow> Core \<Rightarrow> Core \<Rightarrow> bool" for enc k0 where
  cr_init: "core_reach enc k0 k0"
| cr_step: "core_reach enc k0 k \<Longrightarrow> core_step enc k k' \<Longrightarrow> core_reach enc k0 k'"

definition core_inv :: "(byte list \<Rightarrow> GenericEvent option) \<Rightarrow> Core \<Rightarrow> bool" where
  "core_inv dec k \<longleftrightarrow> bus_inv (co_eventBus k) \<and> wired (co_eventBus k) \<and> (\<forall>e \<in> set (eb_accepted (co_eventBus k)). event_ok e) \<and>
     store_inv (co_stateStore k) \<and> \<not> co_restoring k \<and>
     (case co_storage k of None \<Rightarrow> True | Some st \<Rightarrow> storage_inv dec st \<and> proxies_persisted (co_stateStore k) (sm_meta st))"

lemma meta_proxies_Put:
  "meta_proxies (snd (meta_Put e k v m)) = (if rk_Type k = ''proxy'' then mput (meta_proxies m) (ResourceKey_String k) v else meta_proxies m)"
  by (auto simp: meta_Put_def Let_def mget_or_def)

lemma meta_proxies_Delete:
  "meta_proxies (snd (meta_Delete e k m)) = (if rk_Type k = ''proxy'' then mdel (meta_proxies m) (ResourceKey_String k) else meta_proxies m)"
  by (auto simp: meta_Delete_def mget_or_def split: option.split)

lemma proxies_persisted_put:
  assumes "proxies_persisted s m" "mget (ss_proxies s') = (mget (ss_proxies s))(name := p)" "name \<noteq> ''''"
    "mget (meta_proxies m') = (mget (meta_proxies m))(ResourceKey_String \<lparr>rk_Type = ''proxy'', rk_Namespace = ''default'', rk_Name = name\<rparr> := map_option AnyProxy p)"
  shows "proxies_persisted s' m'"
proof -
  let ?rk = "\<lparr>rk_Type = ''proxy'', rk_Namespace = ''default'', rk_Name = name\<rparr>"
  have wf: "wf_key ?rk" using assms(3) by (simp add: wf_key_def)
  have "mget (meta_proxies m') key = (case ParseResourceKey key of Inl _ \<Rightarrow> None
      | Inr rk \<Rightarrow> if rk_Type rk = ''proxy'' \<and> rk_Namespace rk = ''default'' then map_option AnyProxy (mget (ss_proxies s') (rk_Name rk)) else None)" for key
  proof (cases "ParseResourceKey key")
    case (Inl x)
    then have "key \<noteq> ResourceKey_String ?rk" using ParseResourceKey_String [OF wf] by auto
    then show ?thesis using assms(1) Inl by (simp add: assms(4) proxies_persisted_def)
  next
    case (Inr rk)
    then have "wf_key rk" "key = ResourceKey_String rk" using ParseResourceKey_Inr by blast+
    then have "key = ResourceKey_String ?rk \<longleftrightarrow> rk = ?rk" by (simp add: key_string_inj [OF _ wf])
    moreover have "rk = ?rk \<longleftrightarrow> rk_Type rk = ''proxy'' \<and> rk_Namespace rk = ''default'' \<and> rk_Name rk = name" by (cases rk) auto
    ultimately show ?thesis using assms(1) Inr by (auto simp: assms(2,4) proxies_persisted_def)
  qed
  then show ?thesis by (simp add: proxies_persisted_def)
qed

lemma AppendEventAndSave_meta:
  "AppendEventAndSave enc v e r st = (None, st') \<Longrightarrow> r \<noteq> AnyNil \<Longrightarrow> sm_meta st' = snd (meta_Put (se_metaErr v) (ev_Resource e) r (sm_meta st))"
  by (auto simp: AppendEventAndSave_def Let_def split: prod.splits option.splits)

lemma DeleteResource_meta:
  "DeleteResource enc v key st = (None, st') \<Longrightarrow> sm_meta st' = snd (meta_Delete (se_metaErr v) key (sm_meta st))"
  by (auto simp: DeleteResource_def Let_def split: prod.splits option.splits)

lemma AppendEventAndSave_meta_other:
  "rk_Type (ev_Resource e) \<noteq> ''proxy'' \<Longrightarrow> meta_proxies (sm_meta (snd (AppendEventAndSave enc v e r st))) = meta_proxies (sm_meta st)"
  using meta_proxies_Put [of "se_metaErr v" "ev_Resource e" r "sm_meta st"]
  by (auto simp: AppendEventAndSave_def Let_def split: prod.split option.split)

lemma DeleteResource_meta_other:
  "rk_Type key \<noteq> ''proxy'' \<Longrightarrow> meta_proxies (sm_meta (snd (DeleteResource enc v key st))) = meta_proxies (sm_meta st)"
  using meta_proxies_Delete [of "se_metaErr v" key "sm_meta st"]
  by (auto simp: DeleteResource_def Let_def split: prod.split option.split)

text \<open>One handled event keeps the agreement, when the storage acknowledged it.\<close>

lemma Apply_proxies_other: "rk_Type (ev_Resource e) \<noteq> ''proxy'' \<Longrightarrow> ss_proxies (Apply now e s) = ss_proxies s"
  by (simp add: Apply_def applyClientEvent_def applyRelayEvent_def Let_def split: any.split option.split)

lemma proxies_persisted_cong:
  "ss_proxies s' = ss_proxies s \<Longrightarrow> meta_proxies m' = meta_proxies m \<Longrightarrow> proxies_persisted s' m' = proxies_persisted s m"
  by (simp only: proxies_persisted_def cong: sum.case_cong)

definition persisted :: "(GenericEvent \<Rightarrow> byte list option) \<Rightarrow> store_env \<Rightarrow> GenericEvent \<Rightarrow> StorageManager \<Rightarrow> StorageManager" where
  "persisted enc v e st = (if ev_EventType e = EventAdded then snd (AppendEventAndSave enc v e (ev_Payload e) st)
     else if ev_EventType e = EventDeleted then snd (DeleteResource enc v (ev_Resource e) st) else st)"

lemma on_resource_storage:
  "co_storage (on_resource enc now v e k) = (if co_restoring k then co_storage k else map_option (persisted enc v e) (co_storage k))"
  "co_restoring (on_resource enc now v e k) = co_restoring k"
  by (auto simp: on_resource_def persist_event_def persisted_def Let_def split: option.split)

lemma persisted_keeps:
  assumes "proxies_persisted s (sm_meta st)" "event_ok e" "persist_result enc v e st = None"
  shows "proxies_persisted (Apply now e s) (sm_meta (persisted enc v e st))"
proof (cases "rk_Type (ev_Resource e) = ''proxy''")
  case True
  let ?name = "rk_Name (ev_Resource e)"
  have rk: "ev_Resource e = \<lparr>rk_Type = ''proxy'', rk_Namespace = ''default'', rk_Name = ?name\<rparr>" "?name \<noteq> ''''"
    using assms(2) True by (auto simp: event_ok_def)
  from assms(2) True consider (add) p where "ev_EventType e = ''ADDED''" "ev_Payload e = AnyProxy p" "?name = proxyKey (ps_ClientID p) (ps_RemotePort p)"
    | (remove) "ev_EventType e = ''DELETED''" by (auto simp: event_ok_def)
  then show ?thesis
  proof cases
    case add
    obtain st' where st': "AppendEventAndSave enc v e (AnyProxy p) st = (None, st')"
      using assms(3) add by (cases "AppendEventAndSave enc v e (AnyProxy p) st") (simp add: persist_result_def)
    have "mget (ss_proxies (Apply now e s)) = (mget (ss_proxies s))(?name \<mapsto> p)"
      using add True by (simp add: Apply_def applyProxyEvent_def parseProxyFromPayload_def Let_def fun_eq_iff)
    moreover have "mget (meta_proxies (sm_meta st')) = (mget (meta_proxies (sm_meta st)))(ResourceKey_String (ev_Resource e) \<mapsto> AnyProxy p)"
      using AppendEventAndSave_meta [OF st'] True by (simp add: meta_proxies_Put fun_eq_iff)
    ultimately show ?thesis
      using proxies_persisted_put [OF assms(1) _ rk(2), of _ "Some p"] rk(1) add st' by (simp add: persisted_def)
  next
    case remove
    obtain st' where st': "DeleteResource enc v (ev_Resource e) st = (None, st')"
      using assms(3) remove by (cases "DeleteResource enc v (ev_Resource e) st") (simp add: persist_result_def)
    have "mget (ss_proxies (Apply now e s)) = (mget (ss_proxies s))(?name := None)"
      using remove True by (simp add: Apply_def applyProxyEvent_def Let_def fun_eq_iff)
    moreover have "mget (meta_proxies (sm_meta st')) = (mget (meta_proxies (sm_meta st)))(ResourceKey_String (ev_Resource e) := None)"
      using DeleteResource_meta [OF st'] True by (simp add: meta_proxies_Delete fun_eq_iff)
    ultimately show ?thesis
      using proxies_persisted_put [OF assms(1) _ rk(2), of _ None] rk(1) remove st' by (simp add: persisted_def)
  qed
next
  case False
  then have "meta_proxies (sm_meta (persisted enc v e st)) = meta_proxies (sm_meta st)"
    by (simp add: persisted_def AppendEventAndSave_meta_other DeleteResource_meta_other)
  then show ?thesis using assms(1) proxies_persisted_cong [OF Apply_proxies_other [OF False]] by blast
qed

lemma storage_inv_persisted:
  assumes "storage_inv dec st" "env_ok v" "\<forall>e. codec_ok enc dec e" "es_sequence (sm_events st) < 2 ^ 63 - 1"
  shows "storage_inv dec (persisted enc v e st)"
  using storage_inv_step(1) [OF assms(1) _ assms(3,4), of "(v, SSave e (ev_Payload e))"]
    storage_inv_step(1) [OF assms(1) _ assms(3,4), of "(v, SDelete (ev_Resource e))"] assms(1,2)
  by (simp add: persisted_def storage_call_def)

section \<open>The invariant of the core\<close>

lemma core_inv_bus:
  "core_inv dec k \<Longrightarrow> bus_inv b \<Longrightarrow> wired b \<Longrightarrow> \<forall>e \<in> set (eb_accepted b). event_ok e \<Longrightarrow> core_inv dec (k\<lparr>co_eventBus := b\<rparr>)"
  by (auto simp: core_inv_def split: option.splits)

lemma event_ok_seq [simp]: "event_ok (e\<lparr>ev_Sequence := n\<rparr>) = event_ok e"
  by (simp add: event_ok_def)

lemma core_inv_publish: "core_inv dec k \<Longrightarrow> event_ok e \<Longrightarrow> core_inv dec (core_Publish e k)"
  unfolding core_Publish_def using Publish_accepted [of e "co_eventBus k"]
  by (intro core_inv_bus) (auto simp: core_inv_def bus_inv_Publish wired_cong [OF Publish_frame(1)])

lemma core_inv_store:
  "core_inv dec k \<Longrightarrow> store_inv s \<Longrightarrow> ss_proxies s = ss_proxies (co_stateStore k) \<Longrightarrow> core_inv dec (k\<lparr>co_stateStore := s\<rparr>)"
  by (auto simp: core_inv_def proxies_persisted_cong [of s "co_stateStore k"] split: option.split)

lemma head_accepted:
  assumes "bus_inv b" "c < length (eb_chans b)" "cn_buf (eb_chans b ! c) = e # es"
  shows "e \<in> set (eb_accepted b)" "ev_type e = cn_type (eb_chans b ! c)"
proof -
  have ok: "chans_ok b" "fifo b" using assms(1) by (simp_all add: bus_inv_def)
  have "queued (cn_type (eb_chans b ! c)) b = e # es" using queued_own [OF ok(1) assms(2)] assms(3) by simp
  then have "e \<in> set (acc (cn_type (eb_chans b ! c)) b)" using ok(2) by (simp add: fifo_def)
  then show "e \<in> set (eb_accepted b)" "ev_type e = cn_type (eb_chans b ! c)" by (simp_all add: acc_def)
qed

lemma worker_turn_accepted [simp]: "eb_accepted (worker_turn c b) = eb_accepted b" "eb_typeSubs (worker_turn c b) = eb_typeSubs b"
  by (simp_all add: worker_turn_def Let_def split: list.split)

lemma core_inv_turn:
  assumes "core_inv dec k" "c < length (eb_chans (co_eventBus k))" "turn_ok enc v c k" "\<forall>e. codec_ok enc dec e"
  shows "core_inv dec (core_turn enc now v c k)"
proof (cases "cn_buf (eb_chans (co_eventBus k) ! c)")
  case Nil
  then show ?thesis using assms(1) by (simp add: core_turn_empty)
next
  case (Cons e es)
  let ?b = "co_eventBus k" and ?k1 = "k\<lparr>co_eventBus := worker_turn c (co_eventBus k)\<rparr>"
  have inv: "bus_inv ?b" "wired ?b" "\<forall>e \<in> set (eb_accepted ?b). event_ok e" "store_inv (co_stateStore k)" "\<not> co_restoring k"
    using assms(1) by (simp_all add: core_inv_def)
  note hd = head_accepted [OF inv(1) assms(2) Cons]
  have k1: "core_inv dec ?k1"
    using inv by (intro core_inv_bus [OF assms(1)]) (simp_all add: bus_inv_worker_turn assms(2) wired_cong [OF worker_turn_accepted(2)])
  have client: "core_inv dec (on_client now e ?k1)" if "ev_type e = ''client''"
    unfolding on_client_def using k1 inv(4) that by (intro core_inv_store) (simp_all add: store_inv_Apply Apply_proxies_other)
  have resource: "core_inv dec (on_resource enc now v e ?k1)" if "ev_type e = ''proxy'' \<or> ev_type e = ''relay''"
  proof (cases "co_storage k")
    case None
    then show ?thesis
      using k1 inv(4) by (simp add: core_inv_def on_resource_storage store_inv_Apply)
  next
    case (Some st)
    then have st: "storage_inv dec st" "proxies_persisted (co_stateStore k) (sm_meta st)"
      "env_ok v" "es_sequence (sm_events st) < 2 ^ 63 - 1" "persist_result enc v e st = None"
      using assms(1,3) that Cons by (simp_all add: core_inv_def turn_ok_def)
    have "proxies_persisted (Apply now e (co_stateStore k)) (sm_meta (persisted enc v e st))"
      using persisted_keeps [OF st(2) _ st(5)] hd(1) inv(3) by blast
    moreover have "storage_inv dec (persisted enc v e st)" by (rule storage_inv_persisted [OF st(1,3) assms(4) st(4)])
    ultimately show ?thesis
      using k1 inv Some by (simp add: core_inv_def on_resource_storage store_inv_Apply)
  qed
  show ?thesis
    using core_turn_event [OF inv(2) Cons refl, of enc now v] hd(2) client resource k1 by (simp add: Let_def)
qed

lemma core_inv_step: "core_step enc k k' \<Longrightarrow> core_inv dec k \<Longrightarrow> \<forall>e. codec_ok enc dec e \<Longrightarrow> core_inv dec k'"
proof (induction rule: core_step.induct)
  case (cs_subscribe h k t)
  then show ?case
    using wired_Subscribe [OF _ cs_subscribe.hyps, of "co_eventBus k" t]
    by (intro core_inv_bus) (simp_all add: core_inv_def bus_inv_Subscribe)
next
  case (cs_connect k now cl conn)
  then show ?case by (intro core_inv_store) (simp_all add: core_inv_def store_inv_SetClientConn, simp add: SetClientConn_def Let_def)
next
  case (cs_token k tok key)
  then show ?case by (intro core_inv_store) (simp_all add: core_inv_def store_inv_StoreTunnelToken, simp add: StoreTunnelToken_def)
next
  case (cs_untoken k tok)
  then show ?case by (intro core_inv_store) (simp_all add: core_inv_def store_inv_RemoveTunnelToken, simp add: RemoveTunnelToken_def)
qed (simp_all add: core_inv_publish core_inv_turn)

section \<open>Draining a queue\<close>

text \<open>The worker of a type takes every event that waits.\<close>

definition drain :: "(GenericEvent \<Rightarrow> byte list option) \<Rightarrow> int \<Rightarrow> store_env \<Rightarrow> string \<Rightarrow> Core \<Rightarrow> Core" where
  "drain enc now v t k =
     (case mget (eb_queues (co_eventBus k)) t of
        None \<Rightarrow> k
      | Some c \<Rightarrow> (core_turn enc now v c ^^ length (cn_buf (eb_chans (co_eventBus k) ! c))) k)"

lemma Apply_unseq: "Apply now (unseq e) s = Apply now e s"
  by (simp add: Apply_def applyClientEvent_def applyProxyEvent_def applyRelayEvent_def Let_def cong: option.case_cong any.case_cong)

lemma fold_Apply_unseq: "fold (Apply now) (map unseq es) s = fold (Apply now) es s"
  by (induction es arbitrary: s) (simp_all add: Apply_unseq)

lemma core_turns_store:
  assumes "wired (co_eventBus k)" "c < length (eb_chans (co_eventBus k))" "cn_type (eb_chans (co_eventBus k) ! c) = t" "t \<in> {''client'', ''proxy'', ''relay''}"
    "cn_buf (eb_chans (co_eventBus k) ! c) = es"
  shows "co_stateStore ((core_turn enc now v c ^^ length es) k) = fold (Apply now) es (co_stateStore k)"
  using assms(1,2,3,5)
proof (induction es arbitrary: k)
  case (Cons e es)
  let ?k = "core_turn enc now v c k"
  have k: "co_eventBus ?k = worker_turn c (co_eventBus k)" "co_stateStore ?k = Apply now e (co_stateStore k)"
    using core_turn_event [OF Cons.prems(1,4,3), of enc now v] assms(4) by (auto simp: Let_def on_client_def)
  have b: "eb_chans (co_eventBus ?k) = (eb_chans (co_eventBus k))[c := (eb_chans (co_eventBus k) ! c)\<lparr>cn_buf := es\<rparr>]"
    using Cons.prems(4) by (simp add: k worker_turn_def Let_def)
  have "wired (co_eventBus ?k)" using Cons.prems(1) by (simp add: k wired_cong [OF worker_turn_accepted(2)])
  then have "co_stateStore ((core_turn enc now v c ^^ length es) ?k) = fold (Apply now) es (co_stateStore ?k)"
    using Cons.prems(2,3) by (intro Cons.IH) (simp_all add: b)
  then show ?case by (simp add: funpow_swap1 k)
qed simp

lemma drain_store:
  assumes "bus_inv (co_eventBus k)" "wired (co_eventBus k)" "\<not> eb_stopped (co_eventBus k)" "t \<in> {''client'', ''proxy'', ''relay''}"
  shows "co_stateStore (drain enc now v t k) = fold (Apply now) (queued t (co_eventBus k)) (co_stateStore k)"
proof (cases "mget (eb_queues (co_eventBus k)) t")
  case None
  have ok: "chans_ok (co_eventBus k)" "open_ok (co_eventBus k)" using assms(1) by (simp_all add: bus_inv_def)
  have "cn_type ch \<noteq> t" if ch: "ch \<in> set (eb_chans (co_eventBus k))" for ch
  proof
    assume t: "cn_type ch = t"
    obtain i where i: "i < length (eb_chans (co_eventBus k))" "ch = eb_chans (co_eventBus k) ! i" using ch by (metis in_set_conv_nth)
    then show False using ok(2) assms(3) None t ch unfolding open_ok_def by auto
  qed
  then have "queued t (co_eventBus k) = []" by (auto simp: queued_def filter_empty_conv)
  then show ?thesis using None by (simp add: drain_def)
next
  case (Some c)
  have ok: "chans_ok (co_eventBus k)" using assms(1) by (simp add: bus_inv_def)
  then have c: "c < length (eb_chans (co_eventBus k))" "cn_type (eb_chans (co_eventBus k) ! c) = t" using Some by (auto simp: chans_ok_def)
  show ?thesis
    using core_turns_store [OF assms(2) c assms(4) refl, of enc now v] queued_own [OF ok c(1)] c(2) Some by (simp add: drain_def)
qed

text \<open>Publishing one more event, with a store another component has changed meanwhile, and then draining.\<close>

lemma drain_published:
  assumes "takes t (co_eventBus k)" "wired (co_eventBus k)" "length (queued t (co_eventBus k)) < queueCap"
    "ev_type e = t" "k' = (core_Publish e k)\<lparr>co_stateStore := st\<rparr>" "t \<in> {''client'', ''proxy'', ''relay''}"
  shows "\<exists>n. co_stateStore (drain enc now v t k') = Apply now (e\<lparr>ev_Sequence := n\<rparr>) (fold (Apply now) (queued t (co_eventBus k)) st)"
proof -
  have b: "bus_inv (co_eventBus k')" "wired (co_eventBus k')" "\<not> eb_stopped (co_eventBus k')" "co_stateStore k' = st"
    using assms(1,2,5) bus_inv_Publish by (simp_all add: core_Publish_def takes_def wired_cong [OF Publish_frame(1)])
  have "queued t (co_eventBus k') = queued t (co_eventBus k) @ [e\<lparr>ev_Sequence := wrap64 (eb_seq (co_eventBus k) + 1)\<rparr>]"
    using queued_Publish [of e "co_eventBus k" t] assms by (simp add: core_Publish_def)
  then show ?thesis using drain_store [OF b(1-3) assms(6), of enc now v] b(4) by auto
qed

lemma core_Publish_same_store: "(core_Publish e k)\<lparr>co_stateStore := co_stateStore k\<rparr> = core_Publish e k"
  by (simp add: core_Publish_def)

end
