(* ===== verification/Capability.thy ===== *)
theory Capability
  imports Runtime_Types
begin

text \<open>
  \<open>BBgrid_Server/runtime/capability.go\<close>: the table of actions and providers. A handler reads and
  changes the state of the plugin it belongs to; here it is a function on a state of type \<open>'s\<close> that
  returns the result or an error, and \<open>Execute\<close> threads that state. Providers are objects the table
  only stores and hands out, of type \<open>'p\<close> and \<open>'r\<close>.
\<close>

section \<open>Data\<close>

record ParamSchema =
  pm_Name :: string
  pm_Type :: string
  pm_Required :: bool
  pm_Default :: string
  pm_Description :: string

record ActionSchema =
  as_Name :: string
  as_Description :: string
  as_Params :: "ParamSchema list"

definition SourceInternal :: string where "SourceInternal = ''internal''"
definition SourceExternal :: string where "SourceExternal = ''external''"

record CapabilityDecl =
  cap_Name :: string
  cap_Description :: string
  cap_Source :: string
  cap_Schema :: ActionSchema

record ActionContext =
  ac_Action :: string
  ac_Params :: "(string, any) gomap"

record ActionResult =
  ar_Code :: int
  ar_Msg :: string
  ar_Data :: any

type_synonym 's ActionHandler = "ActionContext \<Rightarrow> 's \<Rightarrow> (string + ActionResult) \<times> 's"

definition result :: "int \<Rightarrow> string \<Rightarrow> any \<Rightarrow> string + ActionResult" where
  "result code msg data = Inr \<lparr>ar_Code = code, ar_Msg = msg, ar_Data = data\<rparr>"

record ('s, 'p, 'r) CapabilityRegistryImpl =
  cr_entries :: "(string, CapabilityDecl \<times> 's ActionHandler) gomap"
  cr_proxyProviders :: "(string, 'p) gomap"
  cr_relayProviders :: "(string, 'r) gomap"

section \<open>Operations\<close>

definition NewCapabilityRegistry :: "('s, 'p, 'r) CapabilityRegistryImpl" where
  "NewCapabilityRegistry = \<lparr>cr_entries = [], cr_proxyProviders = [], cr_relayProviders = []\<rparr>"

definition cap_Register ::
  "CapabilityDecl \<Rightarrow> 's ActionHandler \<Rightarrow> ('s, 'p, 'r) CapabilityRegistryImpl \<Rightarrow> ('s, 'p, 'r) CapabilityRegistryImpl" where
  "cap_Register capability handler r = r\<lparr>cr_entries := mput (cr_entries r) (cap_Name capability) (capability, handler)\<rparr>"

definition cap_Unregister :: "string \<Rightarrow> ('s, 'p, 'r) CapabilityRegistryImpl \<Rightarrow> ('s, 'p, 'r) CapabilityRegistryImpl" where
  "cap_Unregister name r = r\<lparr>cr_entries := mdel (cr_entries r) name\<rparr>"

definition cap_Get :: "('s, 'p, 'r) CapabilityRegistryImpl \<Rightarrow> string \<Rightarrow> (CapabilityDecl \<times> 's ActionHandler) option" where
  "cap_Get r name = mget (cr_entries r) name"

definition cap_List :: "('s, 'p, 'r) CapabilityRegistryImpl \<Rightarrow> CapabilityDecl list" where
  "cap_List r = map (\<lambda>(_, entry). fst entry) (cr_entries r)"

definition cap_Has :: "('s, 'p, 'r) CapabilityRegistryImpl \<Rightarrow> string \<Rightarrow> bool" where
  "cap_Has r name \<longleftrightarrow> mget (cr_entries r) name \<noteq> None"

definition Execute :: "('s, 'p, 'r) CapabilityRegistryImpl \<Rightarrow> ActionContext \<Rightarrow> 's \<Rightarrow> (string + ActionResult) \<times> 's" where
  "Execute r ctx s =
     (case mget (cr_entries r) (ac_Action ctx) of
        None \<Rightarrow> (result 404 (''action not found: '' @ ac_Action ctx) AnyNil, s)
      | Some (_, handler) \<Rightarrow> handler ctx s)"

definition RegisterProxyProvider :: "string \<Rightarrow> 'p \<Rightarrow> ('s, 'p, 'r) CapabilityRegistryImpl \<Rightarrow> ('s, 'p, 'r) CapabilityRegistryImpl" where
  "RegisterProxyProvider name provider r = r\<lparr>cr_proxyProviders := mput (cr_proxyProviders r) name provider\<rparr>"

definition GetProxyProvider :: "('s, 'p, 'r) CapabilityRegistryImpl \<Rightarrow> string \<Rightarrow> 'p option" where
  "GetProxyProvider r name = mget (cr_proxyProviders r) name"

definition RegisterRelayProvider :: "string \<Rightarrow> 'r \<Rightarrow> ('s, 'p, 'r) CapabilityRegistryImpl \<Rightarrow> ('s, 'p, 'r) CapabilityRegistryImpl" where
  "RegisterRelayProvider name provider r = r\<lparr>cr_relayProviders := mput (cr_relayProviders r) name provider\<rparr>"

definition GetRelayProvider :: "('s, 'p, 'r) CapabilityRegistryImpl \<Rightarrow> string \<Rightarrow> 'r option" where
  "GetRelayProvider r name = mget (cr_relayProviders r) name"

section \<open>Lemmas\<close>

text \<open>The loop of a plugin's \<open>Init\<close>: one entry per action of its schema, all with one handler.\<close>

definition register_schema ::
  "ActionSchema list \<Rightarrow> 's ActionHandler \<Rightarrow> ('s, 'p, 'r) CapabilityRegistryImpl \<Rightarrow> ('s, 'p, 'r) CapabilityRegistryImpl" where
  "register_schema schema handler r =
     fold (\<lambda>a. cap_Register \<lparr>cap_Name = as_Name a, cap_Description = as_Description a, cap_Source = SourceInternal, cap_Schema = a\<rparr> handler)
       schema r"

definition cap_wf :: "('s, 'p, 'r) CapabilityRegistryImpl \<Rightarrow> bool" where
  "cap_wf r \<longleftrightarrow> wf_map (cr_entries r) \<and> (\<forall>n c h. mget (cr_entries r) n = Some (c, h) \<longrightarrow> cap_Name c = n)"

declare map_of_eq_Some_iff [simp del]

lemma cap_wf_New: "cap_wf NewCapabilityRegistry"
  by (simp add: cap_wf_def NewCapabilityRegistry_def)

lemma cap_wf_Register: "cap_wf r \<Longrightarrow> cap_wf (cap_Register c h r)"
  by (auto simp: cap_wf_def cap_Register_def)

lemma cap_wf_Unregister: "cap_wf r \<Longrightarrow> cap_wf (cap_Unregister n r)"
  by (auto simp: cap_wf_def cap_Unregister_def)

text \<open>Seen by name, the table is a keyed container of handlers.\<close>

definition handler_of :: "('s, 'p, 'r) CapabilityRegistryImpl \<Rightarrow> string \<Rightarrow> 's ActionHandler option" where
  "handler_of r name = map_option snd (cap_Get r name)"

definition register_handler :: "ActionSchema \<Rightarrow> ('s, 'p, 'r) CapabilityRegistryImpl \<Rightarrow> string \<Rightarrow> 's ActionHandler \<Rightarrow> ('s, 'p, 'r) CapabilityRegistryImpl" where
  "register_handler a r name h = cap_Register \<lparr>cap_Name = name, cap_Description = as_Description a, cap_Source = SourceInternal, cap_Schema = a\<rparr> h r"

interpretation capabilities: keyed_store handler_of "register_handler a" "\<lambda>r n. cap_Unregister n r" cap_wf "\<lambda>_. True" for a
proof
  show "handler_of (register_handler a r k h) k' = (if k' = k then Some h else handler_of r k')"
    "handler_of (cap_Unregister k r) k' = (if k' = k then None else handler_of r k')"
    for r :: "('a, 'b, 'c) CapabilityRegistryImpl" and k k' h
    by (simp_all add: handler_of_def register_handler_def cap_Get_def cap_Register_def cap_Unregister_def)
qed (simp_all add: register_handler_def cap_wf_Register cap_wf_Unregister)

lemma register_schema_Cons:
  "register_schema (a # schema) h r = register_schema schema h (register_handler a r (as_Name a) h)"
  by (simp add: register_schema_def register_handler_def)

lemma cap_wf_register_schema: "cap_wf r \<Longrightarrow> cap_wf (register_schema schema h r)"
  by (induction schema arbitrary: r) (simp_all add: register_schema_Cons register_handler_def cap_wf_Register, simp add: register_schema_def)

lemma handler_register_schema:
  assumes "cap_wf r"
  shows "handler_of (register_schema schema h r) n = (if n \<in> as_Name ` set schema then Some h else handler_of r n)"
  using assms
proof (induction schema arbitrary: r)
  case (Cons a schema)
  have "cap_wf (register_handler a r (as_Name a) h)" using Cons.prems by (simp add: register_handler_def cap_wf_Register)
  then show ?case using Cons capabilities.get_put [where s = r and k = "as_Name a" and k' = n and v = h and a = a]
    by (auto simp: register_schema_Cons)
qed (simp add: register_schema_def)

section \<open>Properties\<close>

text \<open>Executing an action runs the handler registered last under its name and no other, and an
  action no plugin has registered is answered with 404 and changes nothing. A plugin's \<open>Init\<close>
  takes over exactly the actions of its schema.\<close>

theorem execute_dispatch:
  assumes "cap_wf r"
  shows "Execute (register_schema schema h r) ctx s =
     (if ac_Action ctx \<in> as_Name ` set schema then h ctx s
      else case handler_of r (ac_Action ctx) of
          Some h' \<Rightarrow> h' ctx s
        | None \<Rightarrow> (result 404 (''action not found: '' @ ac_Action ctx) AnyNil, s)) \<and>
     (cap_Has (register_schema schema h r) n \<longleftrightarrow> n \<in> as_Name ` set schema \<or> cap_Has r n)"
proof -
  have "Execute q ctx s = (case handler_of q (ac_Action ctx) of Some h' \<Rightarrow> h' ctx s
        | None \<Rightarrow> (result 404 (''action not found: '' @ ac_Action ctx) AnyNil, s))" for q :: "('a, 'b, 'c) CapabilityRegistryImpl"
    by (auto simp: Execute_def handler_of_def cap_Get_def split: option.split)
  moreover have "cap_Has q n \<longleftrightarrow> handler_of q n \<noteq> None" for q :: "('a, 'b, 'c) CapabilityRegistryImpl"
    by (simp add: cap_Has_def handler_of_def cap_Get_def)
  ultimately show ?thesis using handler_register_schema [OF assms] by simp
qed

definition sample_schema :: "ActionSchema list" where
  "sample_schema = [\<lparr>as_Name = ''tag.set'', as_Description = [], as_Params = []\<rparr>]"

definition sample_registry :: "(nat, unit, unit) CapabilityRegistryImpl" where
  "sample_registry = NewCapabilityRegistry"

theorem execute_dispatch_witness:
  "fst (Execute (register_schema sample_schema (\<lambda>ctx s. (result 200 [] AnyNil, s + 1)) sample_registry)
     \<lparr>ac_Action = ''tag.del'', ac_Params = []\<rparr> 0) = result 404 ''action not found: tag.del'' AnyNil"
proof -
  have "cap_wf sample_registry" by (simp add: sample_registry_def cap_wf_New)
  from conjunct1 [OF execute_dispatch [OF this, where schema = sample_schema and h = "\<lambda>ctx s. (result 200 [] AnyNil, s + 1)"
      and ctx = "\<lparr>ac_Action = ''tag.del'', ac_Params = []\<rparr>" and s = 0]]
  show ?thesis
    by (simp add: sample_schema_def handler_of_def cap_Get_def sample_registry_def NewCapabilityRegistry_def)
qed

end
