(* ===== verification/Handoff.thy ===== *)
theory Handoff
  imports BB_Prelude "HOL-Library.Multiset"
begin

text \<open>
  The rendezvous that relays and tunnels share. One goroutine makes a channel of capacity one, registers it
  under a key and waits on it with its own connection; another takes the registration and sends its
  connection, or \<open>nil\<close>, into the channel. The registration tables are kept by the components; here is
  what happens around the channels, with the goroutines as lists of their local variables.

  \<open>hf_keys\<close> is the key each channel was made for, a local variable of its maker; \<open>hf_log\<close>, the key each
  connection came with, records history and is read by no operation.
\<close>

section \<open>State and operations\<close>

record handoff =
  hf_keys :: "string list"
  hf_chan :: "nat option option list"
  hf_wait :: "(nat \<times> nat) list"
  hf_left :: "(nat \<times> nat) list"
  hf_send :: "(nat \<times> nat) list"
  hf_pairs :: "(nat \<times> nat) list"
  hf_closed :: "nat list"
  hf_log :: "(nat \<times> string) list"

definition no_handoff :: handoff where
  "no_handoff = \<lparr>hf_keys = [], hf_chan = [], hf_wait = [], hf_left = [], hf_send = [], hf_pairs = [], hf_closed = [], hf_log = []\<rparr>"

definition drop_nth :: "nat \<Rightarrow> 'a list \<Rightarrow> 'a list" where
  "drop_nth i xs = take i xs @ drop (Suc i) xs"

text \<open>A new channel for key \<open>key\<close>, whose maker waits on it with connection \<open>conn\<close>.\<close>

definition hf_make :: "string \<Rightarrow> nat \<Rightarrow> handoff \<Rightarrow> handoff" where
  "hf_make key conn h = h\<lparr>hf_keys := hf_keys h @ [key], hf_chan := hf_chan h @ [None],
     hf_wait := hf_wait h @ [(length (hf_chan h), conn)], hf_log := hf_log h @ [(conn, key)]\<rparr>"

text \<open>A new channel nobody waits on.\<close>

definition hf_new :: "string \<Rightarrow> handoff \<Rightarrow> handoff" where
  "hf_new key h = h\<lparr>hf_keys := hf_keys h @ [key], hf_chan := hf_chan h @ [None]\<rparr>"

text \<open>A goroutine about to send \<open>conn\<close> into channel \<open>ch\<close>.\<close>

definition hf_offer :: "string \<Rightarrow> nat \<Rightarrow> nat \<Rightarrow> handoff \<Rightarrow> handoff" where
  "hf_offer key ch conn h = h\<lparr>hf_send := hf_send h @ [(ch, conn)], hf_log := hf_log h @ [(conn, key)]\<rparr>"

text \<open>A connection that is closed at once.\<close>

definition hf_refuse :: "string \<Rightarrow> nat \<Rightarrow> handoff \<Rightarrow> handoff" where
  "hf_refuse key conn h = h\<lparr>hf_closed := hf_closed h @ [conn], hf_log := hf_log h @ [(conn, key)]\<rparr>"

text \<open>The send: it goes through when the channel is empty and blocks otherwise.\<close>

definition hf_deliver :: "nat \<Rightarrow> handoff \<Rightarrow> handoff" where
  "hf_deliver i h =
     (if i < length (hf_send h) then
        (let (ch, conn) = hf_send h ! i in
         case hf_chan h ! ch of
           None \<Rightarrow> h\<lparr>hf_chan := (hf_chan h)[ch := Some (Some conn)], hf_send := drop_nth i (hf_send h)\<rparr>
         | Some _ \<Rightarrow> h)
      else h)"

text \<open>Sending \<open>nil\<close> into a channel, by the goroutine that holds the registrations: \<open>None\<close> when it blocks.\<close>

definition hf_send_nil :: "nat \<Rightarrow> handoff \<Rightarrow> handoff option" where
  "hf_send_nil ch h = (case hf_chan h ! ch of
      None \<Rightarrow> Some (h\<lparr>hf_chan := (hf_chan h)[ch := Some None]\<rparr>)
    | Some _ \<Rightarrow> None)"

text \<open>The receive of a waiting goroutine: a peer is joined, \<open>nil\<close> closes its connection.\<close>

definition hf_take :: "nat \<Rightarrow> handoff \<Rightarrow> handoff" where
  "hf_take i h =
     (if i < length (hf_wait h) then
        (let (ch, conn) = hf_wait h ! i; h1 = h\<lparr>hf_chan := (hf_chan h)[ch := None], hf_wait := drop_nth i (hf_wait h)\<rparr> in
         case hf_chan h ! ch of
           None \<Rightarrow> h
         | Some (Some peer) \<Rightarrow> h1\<lparr>hf_pairs := hf_pairs h @ [(conn, peer)]\<rparr>
         | Some None \<Rightarrow> h1\<lparr>hf_closed := hf_closed h @ [conn]\<rparr>)
      else h)"

text \<open>A waiting goroutine that gives up, and the close of its connection.\<close>

definition hf_leave :: "nat \<Rightarrow> handoff \<Rightarrow> handoff" where
  "hf_leave i h =
     (if i < length (hf_wait h) then
        h\<lparr>hf_wait := drop_nth i (hf_wait h), hf_left := hf_left h @ [hf_wait h ! i]\<rparr>
      else h)"

definition hf_quit :: "nat \<Rightarrow> handoff \<Rightarrow> handoff" where
  "hf_quit i h =
     (if i < length (hf_left h) then
        h\<lparr>hf_left := drop_nth i (hf_left h), hf_closed := hf_closed h @ [snd (hf_left h ! i)]\<rparr>
      else h)"

text \<open>The end of a joined pair.\<close>

definition hf_pipe_end :: "nat \<Rightarrow> handoff \<Rightarrow> handoff" where
  "hf_pipe_end i h =
     (if i < length (hf_pairs h) then
        h\<lparr>hf_pairs := drop_nth i (hf_pairs h), hf_closed := hf_closed h @ [fst (hf_pairs h ! i), snd (hf_pairs h ! i)]\<rparr>
      else h)"

section \<open>The invariant\<close>

text \<open>Where the connections are.\<close>

definition buffered :: "handoff \<Rightarrow> nat list" where
  "buffered h = concat (map (\<lambda>b. case b of Some (Some c) \<Rightarrow> [c] | _ \<Rightarrow> []) (hf_chan h))"

definition places :: "handoff \<Rightarrow> nat multiset" where
  "places h = mset (map snd (hf_wait h)) + mset (map snd (hf_left h)) + mset (map snd (hf_send h)) + mset (buffered h) +
     mset (map fst (hf_pairs h)) + mset (map snd (hf_pairs h)) + mset (hf_closed h)"

text \<open>\<open>P\<close> are the channels that are registered. Nothing has been sent into a registered channel, at most
  one goroutine sends into a channel, and then it is empty; so no send blocks. Every connection stands where
  its key allows.\<close>

definition hf_keyed :: "handoff \<Rightarrow> bool" where
  "hf_keyed h \<longleftrightarrow> length (hf_keys h) = length (hf_chan h) \<and>
     (\<forall>ch c. (ch, c) \<in> set (hf_send h) \<union> set (hf_wait h) \<union> set (hf_left h) \<longrightarrow> ch < length (hf_chan h) \<and> (c, hf_keys h ! ch) \<in> set (hf_log h)) \<and>
     (\<forall>ch c. ch < length (hf_chan h) \<and> hf_chan h ! ch = Some (Some c) \<longrightarrow> (c, hf_keys h ! ch) \<in> set (hf_log h)) \<and>
     (\<forall>a b. (a, b) \<in> set (hf_pairs h) \<longrightarrow> (\<exists>k. (a, k) \<in> set (hf_log h) \<and> (b, k) \<in> set (hf_log h)))"

definition hf_free :: "nat set \<Rightarrow> handoff \<Rightarrow> bool" where
  "hf_free P h \<longleftrightarrow> distinct (map fst (hf_send h)) \<and> distinct (map fst (hf_wait h @ hf_left h)) \<and>
     (\<forall>ch \<in> P \<union> fst ` set (hf_send h). ch < length (hf_chan h) \<and> hf_chan h ! ch = None) \<and> P \<inter> fst ` set (hf_send h) = {}"

definition hf_inv :: "nat set \<Rightarrow> handoff \<Rightarrow> bool" where
  "hf_inv P h \<longleftrightarrow> hf_keyed h \<and> hf_free P h \<and> places h = mset (map fst (hf_log h))"

section \<open>Lemmas\<close>

lemma mset_drop_nth: "i < length xs \<Longrightarrow> mset (drop_nth i xs) = mset xs - {# xs ! i #}"
  by (metis add_mset_remove_trivial drop_nth_def id_take_nth_drop mset.simps(2) mset_append union_mset_add_mset_right)

lemma mset_nth_drop: "i < length xs \<Longrightarrow> mset xs = add_mset (xs ! i) (mset (drop_nth i xs))"
  by (simp add: mset_drop_nth)

lemma set_drop_nth: "set (drop_nth i xs) \<subseteq> set xs"
  by (auto simp: drop_nth_def dest: in_set_takeD in_set_dropD)

lemma map_drop_nth: "map f (drop_nth i xs) = drop_nth i (map f xs)"
  by (simp add: drop_nth_def take_map drop_map)

lemma mset_map_drop: "i < length xs \<Longrightarrow> mset (map f xs) = add_mset (f (xs ! i)) (mset (map f (drop_nth i xs)))"
  using mset_nth_drop [of i "map f xs"] by (simp add: map_drop_nth)

lemma distinct_drop_nth:
  assumes "distinct xs" "i < length xs"
  shows "distinct (drop_nth i xs)" "xs ! i \<notin> set (drop_nth i xs)"
proof -
  have "distinct (take i xs @ xs ! i # drop (Suc i) xs)" using id_take_nth_drop [OF assms(2)] assms(1) by simp
  then show "distinct (drop_nth i xs)" "xs ! i \<notin> set (drop_nth i xs)" by (auto simp: drop_nth_def)
qed

lemma buffered_update:
  assumes "ch < length (hf_chan h)" "hf_chan h ! ch = None"
  shows "mset (buffered (h\<lparr>hf_chan := (hf_chan h)[ch := v]\<rparr>)) = mset (buffered h) + (case v of Some (Some c) \<Rightarrow> {# c #} | _ \<Rightarrow> {#})"
proof -
  obtain xs ys where xs: "hf_chan h = xs @ None # ys" "length xs = ch"
    using id_take_nth_drop [OF assms(1)] assms by (intro that [of "take ch (hf_chan h)" "drop (Suc ch) (hf_chan h)"]) simp_all
  have "(hf_chan h)[ch := v] = xs @ v # ys" by (simp add: xs list_update_append)
  then show ?thesis by (simp add: buffered_def xs(1) split: option.split)
qed

lemma buffered_empty:
  assumes "ch < length (hf_chan h)"
  shows "mset (buffered h) = mset (buffered (h\<lparr>hf_chan := (hf_chan h)[ch := None]\<rparr>)) + (case hf_chan h ! ch of Some (Some c) \<Rightarrow> {# c #} | _ \<Rightarrow> {#})"
  using buffered_update [of ch "h\<lparr>hf_chan := (hf_chan h)[ch := None]\<rparr>" "hf_chan h ! ch"] assms by (simp add: list_update_id)

lemma hf_inv_mono: "hf_inv P h \<Longrightarrow> Q \<subseteq> P \<Longrightarrow> hf_inv Q h"
  by (auto simp: hf_inv_def hf_free_def)

lemma hf_inv_start: "hf_inv {} no_handoff"
  by (simp add: hf_inv_def hf_keyed_def hf_free_def places_def buffered_def no_handoff_def)

text \<open>The four ways a keyed state can grow: a new channel, a longer log, moved goroutines, a new buffer.\<close>

lemma hf_keyedD:
  assumes "hf_keyed h"
  shows "length (hf_keys h) = length (hf_chan h)"
    and "\<And>ch c. (ch, c) \<in> set (hf_send h) \<or> (ch, c) \<in> set (hf_wait h) \<or> (ch, c) \<in> set (hf_left h) \<Longrightarrow> ch < length (hf_chan h) \<and> (c, hf_keys h ! ch) \<in> set (hf_log h)"
    and "\<And>ch c. ch < length (hf_chan h) \<Longrightarrow> hf_chan h ! ch = Some (Some c) \<Longrightarrow> (c, hf_keys h ! ch) \<in> set (hf_log h)"
    and "\<And>a b. (a, b) \<in> set (hf_pairs h) \<Longrightarrow> \<exists>k. (a, k) \<in> set (hf_log h) \<and> (b, k) \<in> set (hf_log h)"
  using assms unfolding hf_keyed_def by blast+

lemma hf_keyedI:
  assumes "length (hf_keys h) = length (hf_chan h)"
    "\<And>ch c. (ch, c) \<in> set (hf_send h) \<or> (ch, c) \<in> set (hf_wait h) \<or> (ch, c) \<in> set (hf_left h) \<Longrightarrow> ch < length (hf_chan h) \<and> (c, hf_keys h ! ch) \<in> set (hf_log h)"
    "\<And>ch c. ch < length (hf_chan h) \<Longrightarrow> hf_chan h ! ch = Some (Some c) \<Longrightarrow> (c, hf_keys h ! ch) \<in> set (hf_log h)"
    "\<And>a b. (a, b) \<in> set (hf_pairs h) \<Longrightarrow> \<exists>k. (a, k) \<in> set (hf_log h) \<and> (b, k) \<in> set (hf_log h)"
  shows "hf_keyed h"
  unfolding hf_keyed_def using assms by blast

lemma hf_keyed_make: "hf_keyed h \<Longrightarrow> hf_keyed (hf_make key conn h)"
  using hf_keyedD [of h]
  by (intro hf_keyedI) (auto simp: hf_make_def nth_append less_Suc_eq, blast+)

lemma hf_invD:
  assumes "hf_inv P h"
  shows "hf_keyed h" "hf_free P h" "places h = mset (map fst (hf_log h))"
  using assms by (simp_all add: hf_inv_def)

lemma hf_inv_make:
  assumes "hf_inv P h"
  shows "hf_inv (insert (length (hf_chan h)) P) (hf_make key conn h)"
proof -
  note k = hf_keyedD(2) [OF hf_invD(1) [OF assms]] and f = hf_invD(2) [OF assms]
  have "length (hf_chan h) \<notin> fst ` set (hf_wait h) \<union> fst ` set (hf_left h) \<union> fst ` set (hf_send h) \<union> P"
    using k f by (fastforce simp: hf_free_def)
  then have "hf_free (insert (length (hf_chan h)) P) (hf_make key conn h)"
    using f by (auto simp: hf_free_def hf_make_def nth_append intro!: less_SucI)
  moreover have "places (hf_make key conn h) = mset (map fst (hf_log (hf_make key conn h)))"
    using hf_invD(3) [OF assms] by (simp add: places_def hf_make_def buffered_def)
  ultimately show ?thesis using hf_keyed_make [OF hf_invD(1) [OF assms]] by (simp add: hf_inv_def)
qed

lemma hf_keyed_new: "hf_keyed h \<Longrightarrow> hf_keyed (hf_new key h)"
  using hf_keyedD [of h] by (intro hf_keyedI) (auto simp: hf_new_def nth_append less_Suc_eq)

lemma hf_inv_new:
  assumes "hf_inv P h"
  shows "hf_inv (insert (length (hf_chan h)) P) (hf_new key h)"
proof -
  note k = hf_keyedD [OF hf_invD(1) [OF assms]] and f = hf_invD(2) [OF assms]
  have "hf_keyed (hf_new key h)" by (rule hf_keyed_new [OF hf_invD(1) [OF assms]])
  moreover have "length (hf_chan h) \<notin> fst ` set (hf_send h) \<union> P" using k(2) f by (fastforce simp: hf_free_def)
  then have "hf_free (insert (length (hf_chan h)) P) (hf_new key h)" using f by (auto simp: hf_free_def hf_new_def nth_append intro!: less_SucI)
  ultimately show ?thesis using hf_invD(3) [OF assms] by (simp add: hf_inv_def places_def hf_new_def buffered_def)
qed

lemma hf_keyed_offer: "hf_keyed h \<Longrightarrow> ch < length (hf_chan h) \<Longrightarrow> hf_keys h ! ch = key \<Longrightarrow> hf_keyed (hf_offer key ch conn h)"
  using hf_keyedD [of h] by (intro hf_keyedI) (auto simp: hf_offer_def, blast+)

lemma hf_inv_offer:
  assumes "hf_inv P h" "ch \<in> P" "hf_keys h ! ch = key"
  shows "hf_inv (P - {ch}) (hf_offer key ch conn h)"
proof -
  note f = hf_invD(2) [OF assms(1)]
  have ch: "ch < length (hf_chan h)" "hf_chan h ! ch = None" "ch \<notin> fst ` set (hf_send h)" using f assms(2) by (auto simp: hf_free_def)
  then have "hf_free (P - {ch}) (hf_offer key ch conn h)" using f by (auto simp: hf_free_def hf_offer_def)
  moreover have "places (hf_offer key ch conn h) = mset (map fst (hf_log (hf_offer key ch conn h)))"
    using hf_invD(3) [OF assms(1)] by (simp add: places_def hf_offer_def buffered_def)
  ultimately show ?thesis using hf_keyed_offer [OF hf_invD(1) [OF assms(1)] ch(1) assms(3)] by (simp add: hf_inv_def)
qed

lemma hf_inv_refuse:
  assumes "hf_inv P h"
  shows "hf_inv P (hf_refuse key conn h)"
proof -
  have "hf_keyed (hf_refuse key conn h)"
    using hf_keyedD [OF hf_invD(1) [OF assms]] by (intro hf_keyedI) (auto simp: hf_refuse_def, blast+)
  then show ?thesis using hf_invD [OF assms] by (simp add: hf_inv_def hf_free_def places_def hf_refuse_def buffered_def)
qed

text \<open>Moves of a goroutine.\<close>

lemma nth_drop_set: "x \<in> set (drop_nth i xs) \<Longrightarrow> x \<in> set xs"
  using set_drop_nth by fast

lemma distinct_fst_drop:
  assumes "distinct (map fst xs)" "i < length xs"
  shows "distinct (map fst (drop_nth i xs))" "fst (xs ! i) \<notin> fst ` set (drop_nth i xs)"
  using distinct_drop_nth [of "map fst xs" i] assms by (simp_all add: map_drop_nth [symmetric])

lemma hf_keyed_move:
  assumes keyed: "hf_keyed h" and same: "hf_keys h' = hf_keys h" "length (hf_chan h') = length (hf_chan h)" "hf_log h' = hf_log h"
    and gor: "set (hf_send h') \<union> set (hf_wait h') \<union> set (hf_left h') \<subseteq> set (hf_send h) \<union> set (hf_wait h) \<union> set (hf_left h)"
    and buf: "\<And>ch c. ch < length (hf_chan h) \<Longrightarrow> hf_chan h' ! ch = Some (Some c) \<Longrightarrow> hf_chan h ! ch = Some (Some c) \<or> (ch, c) \<in> set (hf_send h)"
    and pr: "\<And>a b. (a, b) \<in> set (hf_pairs h') \<Longrightarrow> (a, b) \<in> set (hf_pairs h) \<or> (\<exists>ch. (ch, a) \<in> set (hf_wait h) \<and> hf_chan h ! ch = Some (Some b))"
  shows "hf_keyed h'"
proof (rule hf_keyedI)
  note k = hf_keyedD [OF keyed]
  show "length (hf_keys h') = length (hf_chan h')" by (simp add: same k(1))
  show "ch < length (hf_chan h') \<and> (c, hf_keys h' ! ch) \<in> set (hf_log h')"
    if "(ch, c) \<in> set (hf_send h') \<or> (ch, c) \<in> set (hf_wait h') \<or> (ch, c) \<in> set (hf_left h')" for ch c
    unfolding same using that gor by (intro k(2)) auto
  show "(c, hf_keys h' ! ch) \<in> set (hf_log h')" if "ch < length (hf_chan h')" "hf_chan h' ! ch = Some (Some c)" for ch c
    using that buf [of ch c] k(2) [of ch c] k(3) [of ch c] unfolding same by blast
  show "\<exists>k. (a, k) \<in> set (hf_log h') \<and> (b, k) \<in> set (hf_log h')" if "(a, b) \<in> set (hf_pairs h')" for a b
    unfolding same(3) using pr [OF that]
  proof
    assume "\<exists>ch. (ch, a) \<in> set (hf_wait h) \<and> hf_chan h ! ch = Some (Some b)"
    then obtain ch where ch: "(ch, a) \<in> set (hf_wait h)" "hf_chan h ! ch = Some (Some b)" by blast
    then show "\<exists>k. (a, k) \<in> set (hf_log h) \<and> (b, k) \<in> set (hf_log h)" using k(2) [of ch a] k(3) [of ch b] by blast
  qed (rule k(4))
qed

lemma hf_freeI:
  assumes "distinct (map fst (hf_send h))" "distinct (map fst (hf_wait h @ hf_left h))"
    "\<And>ch. ch \<in> P \<union> fst ` set (hf_send h) \<Longrightarrow> ch < length (hf_chan h) \<and> hf_chan h ! ch = None" "P \<inter> fst ` set (hf_send h) = {}"
  shows "hf_free P h"
  using assms by (simp add: hf_free_def)

lemma hf_freeD:
  assumes "hf_free P h"
  shows "distinct (map fst (hf_send h))" "distinct (map fst (hf_wait h @ hf_left h))"
    "\<And>ch. ch \<in> P \<union> fst ` set (hf_send h) \<Longrightarrow> ch < length (hf_chan h) \<and> hf_chan h ! ch = None" "P \<inter> fst ` set (hf_send h) = {}"
  using assms by (simp_all add: hf_free_def)

lemma hf_free_send:
  assumes "hf_free P h" "(ch, c) \<in> set (hf_send h)"
  shows "ch < length (hf_chan h)" "hf_chan h ! ch = None" "ch \<notin> P"
proof -
  have ch: "ch \<in> fst ` set (hf_send h)" using assms(2) image_eqI [of ch fst "(ch, c)"] by simp
  show "ch < length (hf_chan h)" "hf_chan h ! ch = None" using hf_freeD(3) [OF assms(1), of ch] ch by simp_all
  show "ch \<notin> P" using hf_freeD(4) [OF assms(1)] ch by blast
qed

lemma hf_inv_deliver:
  assumes "hf_inv P h"
  shows "hf_inv P (hf_deliver i h)"
proof (cases "i < length (hf_send h)")
  case i: True
  obtain ch c where c: "hf_send h ! i = (ch, c)" by (cases "hf_send h ! i")
  then have mem: "(ch, c) \<in> set (hf_send h)" using i by (metis nth_mem)
  note f = hf_invD(2) [OF assms]
  note ch = hf_free_send [OF f mem]
  let ?h = "h\<lparr>hf_chan := (hf_chan h)[ch := Some (Some c)], hf_send := drop_nth i (hf_send h)\<rparr>"
  have "hf_keyed ?h"
  proof (rule hf_keyed_move [OF hf_invD(1) [OF assms]])
    show "hf_chan h ! ch' = Some (Some c') \<or> (ch', c') \<in> set (hf_send h)" if "hf_chan ?h ! ch' = Some (Some c')" for ch' c'
      using that mem ch(1) by (cases "ch' = ch") (simp_all add: nth_list_update)
  qed (use set_drop_nth [of i "hf_send h"] in auto)
  moreover have "hf_free P ?h"
  proof -
    note d = distinct_fst_drop [OF hf_freeD(1) [OF f] i]
    have sub: "fst ` set (hf_send ?h) \<subseteq> fst ` set (hf_send h) - {ch}" using d(2) c set_drop_nth [of i "hf_send h"] by auto
    show ?thesis
    proof (rule hf_freeI)
      show "distinct (map fst (hf_send ?h))" using d(1) by simp
      show "distinct (map fst (hf_wait ?h @ hf_left ?h))" using hf_freeD(2) [OF f] by simp
      show "P \<inter> fst ` set (hf_send ?h) = {}" using hf_freeD(4) [OF f] sub by blast
      show "ch' < length (hf_chan ?h) \<and> hf_chan ?h ! ch' = None" if "ch' \<in> P \<union> fst ` set (hf_send ?h)" for ch'
      proof -
        have "ch' \<noteq> ch" "ch' \<in> P \<union> fst ` set (hf_send h)" using that sub ch(3) by blast+
        then show ?thesis using hf_freeD(3) [OF f, of ch'] by simp
      qed
    qed
  qed
  moreover have "places ?h = places h"
    using buffered_update [OF ch(1,2), of "Some (Some c)"] mset_map_drop [OF i, of snd] c by (simp add: places_def buffered_def)
  ultimately show ?thesis using hf_invD(3) [OF assms] i c ch by (simp add: hf_inv_def hf_deliver_def)
qed (use assms in \<open>simp add: hf_deliver_def\<close>)

lemma hf_free_emptier:
  assumes "hf_free P h" "hf_send h' = hf_send h" "length (hf_chan h') = length (hf_chan h)"
    "\<And>ch. hf_chan h ! ch = None \<Longrightarrow> hf_chan h' ! ch = None" "distinct (map fst (hf_wait h' @ hf_left h'))"
  shows "hf_free P h'"
proof (rule hf_freeI)
  show "ch < length (hf_chan h') \<and> hf_chan h' ! ch = None" if "ch \<in> P \<union> fst ` set (hf_send h')" for ch
    using hf_freeD(3) [OF assms(1), of ch] that assms(2-4) by simp
qed (use hf_freeD [OF assms(1)] assms(2,5) in simp_all)

lemma distinct_drop_append:
  assumes "distinct (map fst (xs @ ys))" "i < length xs"
  shows "distinct (map fst (drop_nth i xs @ ys))" "distinct (map fst (drop_nth i xs @ ys @ [xs ! i]))"
proof -
  have *: "drop_nth i xs @ ys = drop_nth i (xs @ ys)" using assms(2) by (simp add: drop_nth_def)
  note d = distinct_fst_drop [OF assms(1), of i]
  show "distinct (map fst (drop_nth i xs @ ys))" using d(1) assms(2) by (simp add: *)
  show "distinct (map fst (drop_nth i xs @ ys @ [xs ! i]))"
    unfolding append_assoc [symmetric] * using d assms(2) by (simp add: nth_append)
qed

lemma hf_inv_take:
  assumes "hf_inv P h"
  shows "hf_inv P (hf_take i h)"
proof (cases "i < length (hf_wait h) \<and> hf_chan h ! fst (hf_wait h ! i) \<noteq> None")
  case True
  then obtain ch c v where i: "i < length (hf_wait h)" and c: "hf_wait h ! i = (ch, c)" and v: "hf_chan h ! ch = Some v"
    by (cases "hf_wait h ! i") auto
  have mem: "(ch, c) \<in> set (hf_wait h)" using i c by (metis nth_mem)
  have ch: "ch < length (hf_chan h)" using hf_keyedD(2) [OF hf_invD(1) [OF assms]] mem by blast
  let ?h1 = "h\<lparr>hf_chan := (hf_chan h)[ch := None], hf_wait := drop_nth i (hf_wait h)\<rparr>"
  let ?h = "case v of Some peer \<Rightarrow> ?h1\<lparr>hf_pairs := hf_pairs h @ [(c, peer)]\<rparr> | None \<Rightarrow> ?h1\<lparr>hf_closed := hf_closed h @ [c]\<rparr>"
  have eq: "hf_take i h = ?h" using i c v by (simp add: hf_take_def split: option.split)
  have "hf_keyed ?h"
  proof (rule hf_keyed_move [OF hf_invD(1) [OF assms]])
    show "hf_chan h ! ch' = Some (Some c') \<or> (ch', c') \<in> set (hf_send h)" if "hf_chan ?h ! ch' = Some (Some c')" for ch' c'
      using that ch by (cases "ch' = ch") (simp_all split: option.splits)
    show "(a, b) \<in> set (hf_pairs h) \<or> (\<exists>ch. (ch, a) \<in> set (hf_wait h) \<and> hf_chan h ! ch = Some (Some b))" if "(a, b) \<in> set (hf_pairs ?h)" for a b
      using that mem v by (auto split: option.splits)
  qed (use set_drop_nth [of i "hf_wait h"] in \<open>auto split: option.split\<close>)
  moreover have "hf_free P ?h"
  proof (rule hf_free_emptier [OF hf_invD(2) [OF assms]])
    show "distinct (map fst (hf_wait ?h @ hf_left ?h))"
      using distinct_drop_append(1) [OF hf_freeD(2) [OF hf_invD(2) [OF assms]] i] by (simp split: option.split)
    show "hf_chan ?h ! ch' = None" if "hf_chan h ! ch' = None" for ch'
      using that ch v by (cases "ch' = ch") (simp_all split: option.split)
  qed (simp_all split: option.split)
  moreover have "places ?h = places h"
    using buffered_empty [OF ch] mset_map_drop [OF i, of snd] c v by (simp add: places_def buffered_def split: option.split)
  ultimately show ?thesis using hf_invD(3) [OF assms] unfolding eq by (simp add: hf_inv_def split: option.splits)
next
  case False
  then have "hf_take i h = h" by (cases "hf_wait h ! i") (auto simp: hf_take_def)
  then show ?thesis using assms by simp
qed

lemma hf_inv_leave:
  assumes "hf_inv P h"
  shows "hf_inv P (hf_leave i h)"
proof (cases "i < length (hf_wait h)")
  case True
  let ?h = "h\<lparr>hf_wait := drop_nth i (hf_wait h), hf_left := hf_left h @ [hf_wait h ! i]\<rparr>"
  have "hf_keyed ?h"
    by (rule hf_keyed_move [OF hf_invD(1) [OF assms]]) (use set_drop_nth [of i "hf_wait h"] nth_mem [OF True] in auto)
  moreover have "hf_free P ?h"
    by (rule hf_free_emptier [OF hf_invD(2) [OF assms]])
      (use distinct_drop_append(2) [OF hf_freeD(2) [OF hf_invD(2) [OF assms]] True] in simp_all)
  moreover have "places ?h = places h" using mset_map_drop [OF True, of snd] by (simp add: places_def buffered_def)
  ultimately show ?thesis using hf_invD(3) [OF assms] True by (simp add: hf_inv_def hf_leave_def)
qed (use assms in \<open>simp add: hf_leave_def\<close>)

lemma hf_inv_quit:
  assumes "hf_inv P h"
  shows "hf_inv P (hf_quit i h)"
proof (cases "i < length (hf_left h)")
  case True
  let ?h = "h\<lparr>hf_left := drop_nth i (hf_left h), hf_closed := hf_closed h @ [snd (hf_left h ! i)]\<rparr>"
  have "hf_keyed ?h"
    by (rule hf_keyed_move [OF hf_invD(1) [OF assms]]) (use set_drop_nth [of i "hf_left h"] in auto)
  moreover have "hf_free P ?h"
  proof (rule hf_free_emptier [OF hf_invD(2) [OF assms]])
    have "distinct (map fst (hf_wait h @ hf_left h))" by (rule hf_freeD(2) [OF hf_invD(2) [OF assms]])
    then show "distinct (map fst (hf_wait ?h @ hf_left ?h))"
      using distinct_fst_drop(1) [of "hf_left h" i] True set_drop_nth [of i "hf_left h"] by auto
  qed simp_all
  moreover have "places ?h = places h" using mset_map_drop [OF True, of snd] by (simp add: places_def buffered_def)
  ultimately show ?thesis using hf_invD(3) [OF assms] True by (simp add: hf_inv_def hf_quit_def)
qed (use assms in \<open>simp add: hf_quit_def\<close>)

lemma hf_inv_pipe_end:
  assumes "hf_inv P h"
  shows "hf_inv P (hf_pipe_end i h)"
proof (cases "i < length (hf_pairs h)")
  case True
  let ?h = "h\<lparr>hf_pairs := drop_nth i (hf_pairs h), hf_closed := hf_closed h @ [fst (hf_pairs h ! i), snd (hf_pairs h ! i)]\<rparr>"
  have "hf_keyed ?h"
    by (rule hf_keyed_move [OF hf_invD(1) [OF assms]]) (use set_drop_nth [of i "hf_pairs h"] in auto)
  moreover have "hf_free P ?h"
    by (rule hf_free_emptier [OF hf_invD(2) [OF assms]]) (use hf_freeD(2) [OF hf_invD(2) [OF assms]] in simp_all)
  moreover have "places ?h = places h"
    using mset_map_drop [OF True, of fst] mset_map_drop [OF True, of snd] by (simp add: places_def buffered_def)
  ultimately show ?thesis using hf_invD(3) [OF assms] True by (simp add: hf_inv_def hf_pipe_end_def)
qed (use assms in \<open>simp add: hf_pipe_end_def\<close>)

text \<open>A registered channel takes the \<open>nil\<close>; a send never blocks.\<close>

lemma hf_inv_send_nil:
  assumes "hf_inv P h" "ch \<in> P"
  shows "\<exists>h'. hf_send_nil ch h = Some h' \<and> hf_inv (P - {ch}) h' \<and> hf_keys h' = hf_keys h"
proof -
  note f = hf_invD(2) [OF assms(1)]
  have ch: "ch < length (hf_chan h)" "hf_chan h ! ch = None" "ch \<notin> fst ` set (hf_send h)"
    using hf_freeD(3) [OF f, of ch] hf_freeD(4) [OF f] assms(2) by auto
  let ?h = "h\<lparr>hf_chan := (hf_chan h)[ch := Some None]\<rparr>"
  have "hf_keyed ?h"
  proof (rule hf_keyed_move [OF hf_invD(1) [OF assms(1)]])
    show "hf_chan h ! ch' = Some (Some c') \<or> (ch', c') \<in> set (hf_send h)" if "hf_chan ?h ! ch' = Some (Some c')" for ch' c'
      using that ch(1) by (cases "ch' = ch") simp_all
  qed simp_all
  moreover have "hf_free (P - {ch}) ?h"
  proof (rule hf_freeI)
    show "ch' < length (hf_chan ?h) \<and> hf_chan ?h ! ch' = None" if "ch' \<in> (P - {ch}) \<union> fst ` set (hf_send ?h)" for ch'
    proof -
      have "ch' \<noteq> ch" "ch' \<in> P \<union> fst ` set (hf_send h)" using that ch(3) by auto
      then show ?thesis using hf_freeD(3) [OF f, of ch'] by simp
    qed
    show "(P - {ch}) \<inter> fst ` set (hf_send ?h) = {}" using hf_freeD(4) [OF f] by auto
  qed (use hf_freeD(1,2) [OF f] in simp_all)
  moreover have "places ?h = places h" using buffered_update [OF ch(1,2), of "Some None"] by (simp add: places_def buffered_def)
  ultimately show ?thesis using hf_invD(3) [OF assms(1)] ch by (simp add: hf_inv_def hf_send_nil_def)
qed

lemma hf_send_ready: "hf_inv P h \<Longrightarrow> (ch, c) \<in> set (hf_send h) \<Longrightarrow> hf_chan h ! ch = None"
  using hf_free_send(2) [OF hf_invD(2)] by blast

section \<open>Stranded connections\<close>

text \<open>A connection in a channel that nobody waits on and that is not registered: it is never joined and
  never closed.\<close>

definition stranded :: "nat \<Rightarrow> nat \<Rightarrow> handoff \<Rightarrow> bool" where
  "stranded ch c h \<longleftrightarrow> ch < length (hf_chan h) \<and> hf_chan h ! ch = Some (Some c) \<and> ch \<notin> fst ` set (hf_wait h)"

lemma update_other: "xs ! a = None \<Longrightarrow> xs ! ch = Some v \<Longrightarrow> xs[a := u] ! ch = Some v"
  by (cases "a = ch") simp_all

lemma stranded_make: "stranded ch c h \<Longrightarrow> stranded ch c (hf_make key conn h)"
  by (auto simp: stranded_def hf_make_def nth_append)

lemma stranded_new: "stranded ch c h \<Longrightarrow> stranded ch c (hf_new key h)"
  by (auto simp: stranded_def hf_new_def nth_append)

lemma stranded_offer: "stranded ch c h \<Longrightarrow> stranded ch c (hf_offer key ch' conn h)"
  by (simp add: stranded_def hf_offer_def)

lemma stranded_refuse: "stranded ch c h \<Longrightarrow> stranded ch c (hf_refuse key conn h)"
  by (simp add: stranded_def hf_refuse_def)

lemma stranded_deliver: "stranded ch c h \<Longrightarrow> stranded ch c (hf_deliver i h)"
  by (cases "hf_send h ! i") (auto simp: stranded_def hf_deliver_def update_other split: option.split)

lemma stranded_take: "stranded ch c h \<Longrightarrow> stranded ch c (hf_take i h)"
proof (cases "i < length (hf_wait h)")
  case True
  assume s: "stranded ch c h"
  obtain ch' c' where w: "hf_wait h ! i = (ch', c')" by (cases "hf_wait h ! i")
  then have "(ch', c') \<in> set (hf_wait h)" using True by (metis nth_mem)
  then have "ch' \<noteq> ch" using s image_eqI [of ch' fst "(ch', c')"] by (auto simp: stranded_def)
  moreover have "ch \<notin> fst ` set (drop_nth i (hf_wait h))" using s set_drop_nth [of i "hf_wait h"] by (auto simp: stranded_def)
  ultimately show ?thesis using s by (auto simp: stranded_def hf_take_def w Let_def split: option.split)
qed (simp add: hf_take_def)

lemma stranded_leave: "stranded ch c h \<Longrightarrow> stranded ch c (hf_leave i h)"
  using set_drop_nth [of i "hf_wait h"] by (auto simp: stranded_def hf_leave_def)

lemma stranded_quit: "stranded ch c h \<Longrightarrow> stranded ch c (hf_quit i h)"
  by (simp add: stranded_def hf_quit_def)

lemma stranded_pipe_end: "stranded ch c h \<Longrightarrow> stranded ch c (hf_pipe_end i h)"
  by (simp add: stranded_def hf_pipe_end_def)

lemma stranded_send_nil: "stranded ch c h \<Longrightarrow> hf_send_nil ch' h = Some h' \<Longrightarrow> stranded ch c h'"
  by (auto simp: stranded_def hf_send_nil_def update_other split: option.splits)

lemmas stranded_ops = stranded_make stranded_new stranded_offer stranded_refuse stranded_deliver stranded_take stranded_leave stranded_quit stranded_pipe_end

text \<open>A stranded connection that is nowhere else is neither in a pair nor closed.\<close>

lemma stranded_not_closed:
  assumes "hf_inv P h" "stranded ch c h" "distinct (map fst (hf_log h))"
  shows "c \<notin> set (hf_closed h)" "c \<notin> fst ` set (hf_pairs h)" "c \<notin> snd ` set (hf_pairs h)"
proof -
  have "c \<in> set (buffered h)"
    using assms(2) nth_mem [of ch "hf_chan h"] by (force simp: stranded_def buffered_def)
  then have "0 < count (mset (buffered h)) c" unfolding count_greater_zero_iff by simp
  moreover have "count (places h) c \<le> 1"
    unfolding hf_invD(3) [OF assms(1)] using assms(3) by (simp add: distinct_count_atmost_1 del: mset_map)
  ultimately have "count (mset (hf_closed h)) c = 0" "count (mset (map fst (hf_pairs h))) c = 0" "count (mset (map snd (hf_pairs h))) c = 0"
    unfolding places_def plus_multiset.rep_eq by linarith+
  then show "c \<notin> set (hf_closed h)" "c \<notin> fst ` set (hf_pairs h)" "c \<notin> snd ` set (hf_pairs h)"
    unfolding count_eq_zero_iff set_mset_mset by simp_all
qed

section \<open>What the operations leave alone\<close>

lemma hf_log_ops [simp]:
  "hf_log (hf_make key conn h) = hf_log h @ [(conn, key)]" "hf_log (hf_new key h) = hf_log h" "hf_log (hf_offer key ch conn h) = hf_log h @ [(conn, key)]"
  "hf_log (hf_refuse key conn h) = hf_log h @ [(conn, key)]" "hf_log (hf_deliver i h) = hf_log h" "hf_log (hf_take i h) = hf_log h"
  "hf_log (hf_leave i h) = hf_log h" "hf_log (hf_quit i h) = hf_log h" "hf_log (hf_pipe_end i h) = hf_log h"
  by (simp_all add: hf_make_def hf_new_def hf_offer_def hf_refuse_def hf_deliver_def hf_take_def hf_leave_def hf_quit_def hf_pipe_end_def Let_def
      split: option.split prod.split)

lemma hf_keys_ops [simp]:
  "hf_keys (hf_make key conn h) = hf_keys h @ [key]" "hf_keys (hf_new key h) = hf_keys h @ [key]" "hf_keys (hf_offer key ch conn h) = hf_keys h"
  "hf_keys (hf_refuse key conn h) = hf_keys h" "hf_keys (hf_deliver i h) = hf_keys h" "hf_keys (hf_take i h) = hf_keys h"
  "hf_keys (hf_leave i h) = hf_keys h" "hf_keys (hf_quit i h) = hf_keys h" "hf_keys (hf_pipe_end i h) = hf_keys h"
  by (simp_all add: hf_make_def hf_new_def hf_offer_def hf_refuse_def hf_deliver_def hf_take_def hf_leave_def hf_quit_def hf_pipe_end_def Let_def
      split: option.split prod.split)

lemma hf_send_nil_keeps: "hf_send_nil ch h = Some h' \<Longrightarrow> hf_log h' = hf_log h \<and> hf_keys h' = hf_keys h"
  by (auto simp: hf_send_nil_def split: option.splits)

lemmas hf_inv_moves = hf_inv_deliver hf_inv_take hf_inv_leave hf_inv_quit hf_inv_pipe_end

text \<open>What the invariant says of the joined pairs.\<close>

lemma hf_pairs_ok:
  assumes "hf_inv P h" "distinct (map fst (hf_log h))" "(a, b) \<in> set (hf_pairs h)"
  shows "a \<noteq> b" "\<exists>k. (a, k) \<in> set (hf_log h) \<and> (b, k) \<in> set (hf_log h)"
proof -
  have "a \<in> fst ` set (hf_pairs h)" "b \<in> snd ` set (hf_pairs h)" using assms(3) by force+
  then have "0 < count (mset (map fst (hf_pairs h))) a" "0 < count (mset (map snd (hf_pairs h))) b"
    unfolding count_greater_zero_iff by simp_all
  moreover have "count (places h) a \<le> 1"
    unfolding hf_invD(3) [OF assms(1)] using assms(2) by (simp add: distinct_count_atmost_1 del: mset_map)
  ultimately have "\<not> 0 < count (mset (map snd (hf_pairs h))) a" unfolding places_def plus_multiset.rep_eq by linarith
  then show "a \<noteq> b" using \<open>0 < count (mset (map snd (hf_pairs h))) b\<close> by blast
  show "\<exists>k. (a, k) \<in> set (hf_log h) \<and> (b, k) \<in> set (hf_log h)" by (rule hf_keyedD(4) [OF hf_invD(1) [OF assms(1)] assms(3)])
qed

section \<open>With a table of registrations\<close>

text \<open>\<open>m\<close> is the table of a component: the channel registered under a key.\<close>

definition reg_inv :: "(string \<rightharpoonup> nat) \<Rightarrow> handoff \<Rightarrow> bool" where
  "reg_inv m h \<longleftrightarrow> hf_inv (ran m) h \<and> distinct (map fst (hf_log h)) \<and> (\<forall>key ch. m key = Some ch \<longrightarrow> hf_keys h ! ch = key)"

lemma reg_invI:
  assumes "hf_inv P h" "ran m \<subseteq> P" "distinct (map fst (hf_log h))" "\<And>key ch. m key = Some ch \<Longrightarrow> hf_keys h ! ch = key"
  shows "reg_inv m h"
  using hf_inv_mono [OF assms(1,2)] assms(3,4) by (simp add: reg_inv_def)

lemma reg_invD:
  assumes "reg_inv m h"
  shows "hf_inv (ran m) h" "distinct (map fst (hf_log h))" "\<And>key ch. m key = Some ch \<Longrightarrow> hf_keys h ! ch = key"
  using assms by (simp_all add: reg_inv_def)

lemma reg_inv_start: "reg_inv Map.empty no_handoff"
  using hf_inv_start by (simp add: reg_inv_def) (simp add: no_handoff_def)

lemma reg_inv_channel:
  assumes "reg_inv m h" "hf_inv (insert (length (hf_chan h)) (ran m)) h'" "hf_keys h' = hf_keys h @ [key]" "distinct (map fst (hf_log h'))"
  shows "reg_inv (m(key \<mapsto> length (hf_chan h))) h'"
proof (rule reg_invI [OF assms(2)])
  note inv = reg_invD [OF assms(1)]
  have keys: "length (hf_keys h) = length (hf_chan h)" by (rule hf_keyedD(1) [OF hf_invD(1) [OF inv(1)]])
  have lt: "ch < length (hf_chan h)" if "m s = Some ch" for s ch
    using hf_freeD(3) [OF hf_invD(2) [OF inv(1)], of ch] that by (auto intro: ranI)
  show "ran (m(key \<mapsto> length (hf_chan h))) \<subseteq> insert (length (hf_chan h)) (ran m)" by (auto simp: ran_def)
  show "hf_keys h' ! ch = s" if "(m(key \<mapsto> length (hf_chan h))) s = Some ch" for s ch
    using that inv(3) [of s ch] lt [of s ch] keys by (auto simp: assms(3) nth_append split: if_splits)
qed (rule assms(4))

lemma reg_inv_make:
  assumes "reg_inv m h" "conn \<notin> fst ` set (hf_log h)"
  shows "reg_inv (m(key \<mapsto> length (hf_chan h))) (hf_make key conn h)"
  by (rule reg_inv_channel [OF assms(1) hf_inv_make [OF reg_invD(1) [OF assms(1)]]]) (use reg_invD(2) [OF assms(1)] assms(2) in simp_all)

lemma reg_inv_new:
  assumes "reg_inv m h"
  shows "reg_inv (m(key \<mapsto> length (hf_chan h))) (hf_new key h)"
  by (rule reg_inv_channel [OF assms hf_inv_new [OF reg_invD(1) [OF assms]]]) (use reg_invD(2) [OF assms] in simp_all)

lemma reg_inv_offer:
  assumes "reg_inv m h" "m key = Some ch" "conn \<notin> fst ` set (hf_log h)"
  shows "reg_inv (m(key := None)) (hf_offer key ch conn h)"
proof -
  note inv = reg_invD [OF assms(1)]
  show ?thesis
  proof (rule reg_invI [OF hf_inv_offer [OF inv(1) ranI [of m, OF assms(2)] inv(3) [OF assms(2)]]])
    show "ran (m(key := None)) \<subseteq> ran m - {ch}" using inv(3) assms(2) by (auto simp: ran_def split: if_splits)
    show "hf_keys (hf_offer key ch conn h) ! ch' = s" if "(m(key := None)) s = Some ch'" for s ch'
      using that inv(3) [of s ch'] by (simp split: if_splits)
  qed (use inv(2) assms(3) in simp)
qed

lemma reg_inv_move:
  assumes "reg_inv m h" "hf_inv (ran m) h'" "hf_log h' = hf_log h" "hf_keys h' = hf_keys h" "\<And>s ch. m' s = Some ch \<Longrightarrow> m s = Some ch"
  shows "reg_inv m' h'"
proof (rule reg_invI [OF assms(2)])
  show "ran m' \<subseteq> ran m" using assms(5) by (auto simp: ran_def)
  show "hf_keys h' ! ch = s" if "m' s = Some ch" for s ch using reg_invD(3) [OF assms(1) assms(5) [OF that]] assms(4) by simp
qed (use reg_invD(2) [OF assms(1)] assms(3) in simp)

lemma reg_inv_moves:
  assumes "reg_inv m h"
  shows "reg_inv m (hf_deliver i h)" "reg_inv m (hf_take i h)" "reg_inv m (hf_leave i h)" "reg_inv m (hf_quit i h)" "reg_inv m (hf_pipe_end i h)"
  by (rule reg_inv_move [OF assms], rule hf_inv_moves, rule reg_invD(1) [OF assms], simp, simp, simp)+

lemma reg_inv_refuse: "reg_inv m h \<Longrightarrow> conn \<notin> fst ` set (hf_log h) \<Longrightarrow> reg_inv m (hf_refuse key conn h)"
  using hf_inv_refuse by (simp add: reg_inv_def)

lemma reg_inv_less:
  assumes "reg_inv m h" "\<And>s ch. m' s = Some ch \<Longrightarrow> m s = Some ch"
  shows "reg_inv m' h"
  by (rule reg_inv_move [OF assms(1) reg_invD(1) [OF assms(1)]]) (simp_all add: assms(2))

lemma reg_inv_send_nil:
  assumes "reg_inv m h" "m key = Some ch"
  shows "\<exists>h'. hf_send_nil ch h = Some h' \<and> reg_inv (m(key := None)) h'"
proof -
  note inv = reg_invD [OF assms(1)]
  from hf_inv_send_nil [OF inv(1) ranI [of m, OF assms(2)]]
  obtain h' where h': "hf_send_nil ch h = Some h'" "hf_inv (ran m - {ch}) h'" by blast
  have "reg_inv (m(key := None)) h'"
  proof (rule reg_invI [OF h'(2)])
    show "ran (m(key := None)) \<subseteq> ran m - {ch}" using inv(3) assms(2) by (auto simp: ran_def split: if_splits)
  qed (use inv(2,3) hf_send_nil_keeps [OF h'(1)] in \<open>auto split: if_splits\<close>)
  then show ?thesis using h'(1) by blast
qed

text \<open>What a consistent table promises.\<close>

definition handoff_safe :: "handoff \<Rightarrow> bool" where
  "handoff_safe h \<longleftrightarrow>
     (\<forall>a b. (a, b) \<in> set (hf_pairs h) \<longrightarrow> a \<noteq> b \<and> (\<exists>key. (a, key) \<in> set (hf_log h) \<and> (b, key) \<in> set (hf_log h))) \<and>
     places h = mset (map fst (hf_log h)) \<and> distinct (map fst (hf_log h)) \<and>
     (\<forall>ch c. (ch, c) \<in> set (hf_send h) \<longrightarrow> hf_chan h ! ch = None)"

lemma reg_inv_safe: "reg_inv m h \<Longrightarrow> handoff_safe h"
  using hf_pairs_ok [OF reg_invD(1,2)] hf_invD(3) [OF reg_invD(1)] reg_invD(2) hf_send_ready [OF reg_invD(1)] unfolding handoff_safe_def by blast

lemma reg_inv_stranded:
  assumes "reg_inv m h" "stranded ch c h"
  shows "c \<in> fst ` set (hf_log h) \<and> c \<notin> set (hf_closed h) \<and> (\<forall>d. (c, d) \<notin> set (hf_pairs h) \<and> (d, c) \<notin> set (hf_pairs h))"
proof -
  note inv = reg_invD [OF assms(1)]
  have "(c, hf_keys h ! ch) \<in> set (hf_log h)" using hf_keyedD(3) [OF hf_invD(1) [OF inv(1)]] assms(2) by (simp add: stranded_def)
  then have "c \<in> fst ` set (hf_log h)" by force
  then show ?thesis using stranded_not_closed [OF inv(1) assms(2) inv(2)] by force
qed

end
