(* ===== verification/Relay_Plugin.thy ===== *)
theory Relay_Plugin
  imports Runtime_Core Capability Handoff
begin

text \<open>
  \<open>plugins/relay/relay.go\<close> and the relay handler of \<open>BBgrid_Server/session/server.go\<close>: relay sessions
  are created and deleted by events, their clients are told, and the two websocket connections of a session
  are joined.

  A message to a client is a pair of the client and the message; whether the write succeeds is only logged
  by the code. \<open>AcceptRelay\<close> of the plugin and the second half of \<open>HandleRelay\<close> are the same code on two
  tables; both are the definition \<open>AcceptRelay\<close>. A joined pair is copied until one side ends; the copying
  itself is not modelled.
\<close>

section \<open>Messages\<close>

record WSMessage =
  ws_Type :: string
  ws_Data :: any

definition relay_data :: "string \<Rightarrow> string \<Rightarrow> string \<Rightarrow> RelaySession \<Rightarrow> any" where
  "relay_data role peer serverHost session = AnyMap [(''session_id'', AnyStr (rs_ID session)), (''protocol'', AnyStr (rs_Protocol session)),
     (''role'', AnyStr role), (''peer_client_id'', AnyStr peer), (''source_port'', AnyInt (rs_SourcePort session)),
     (''target_port'', AnyInt (rs_TargetPort session)), (''target_local_ip'', AnyStr (rs_TargetLocalIP session)),
     (''source_local_ip'', AnyStr (rs_SourceLocalIP session)), (''server_host'', AnyStr serverHost), (''token'', AnyStr (rs_Token session))]"

definition notifyRelayClients :: "bool \<Rightarrow> string \<Rightarrow> RelaySession \<Rightarrow> string \<Rightarrow> (string \<times> WSMessage) list" where
  "notifyRelayClients notifyFn publicIP session msgType =
     (if notifyFn then
        [(rs_SourceClient session, \<lparr>ws_Type = msgType, ws_Data = relay_data ''source'' (rs_TargetClient session) publicIP session\<rparr>),
         (rs_TargetClient session, \<lparr>ws_Type = msgType, ws_Data = relay_data ''target'' (rs_SourceClient session) publicIP session\<rparr>)]
      else [])"

section \<open>The plugin\<close>

definition handleRelayAdded :: "bool \<Rightarrow> GenericEvent \<Rightarrow> Core \<Rightarrow> (string \<times> WSMessage) list" where
  "handleRelayAdded notifyFn event k =
     (case ev_Payload event of
        AnyRelay session \<Rightarrow>
          if \<not> IsRestoring k then notifyRelayClients notifyFn (ss_publicIP (co_stateStore k)) session ''relay_signal'' else []
      | _ \<Rightarrow> [])"

definition handleRelayDeleted :: "bool \<Rightarrow> GenericEvent \<Rightarrow> Core \<Rightarrow> (string \<times> WSMessage) list" where
  "handleRelayDeleted notifyFn event k =
     (case GetRelaySession (co_stateStore k) (rk_Name (ev_Resource event)) of
        None \<Rightarrow> []
      | Some sess \<Rightarrow> notifyRelayClients notifyFn (ss_publicIP (co_stateStore k)) sess ''relay_closed'')"

definition handleRelayEvent :: "bool \<Rightarrow> GenericEvent \<Rightarrow> Core \<Rightarrow> (string \<times> WSMessage) list" where
  "handleRelayEvent notifyFn event k =
     (if ev_EventType event = EventAdded then handleRelayAdded notifyFn event k
      else if ev_EventType event = EventDeleted then handleRelayDeleted notifyFn event k
      else [])"

text \<open>\<open>Init\<close>: the provider registered by its address, and the subscription (code address 6).\<close>

definition relay_listener_sub :: EventHandler where "relay_listener_sub = \<lparr>eh_code = 6, eh_env = 0\<rparr>"

definition relay_Init :: "nat \<Rightarrow> Core \<times> ('s, 'p, nat) CapabilityRegistryImpl \<Rightarrow> Core \<times> ('s, 'p, nat) CapabilityRegistryImpl" where
  "relay_Init self kc =
     ((fst kc)\<lparr>co_eventBus := Subscribe ResourceTypeRelay relay_listener_sub (co_eventBus (fst kc))\<rparr>,
      RegisterRelayProvider ''default'' self (snd kc))"

section \<open>The provider\<close>

record RelayCreateRequest =
  rc_SourceClient :: string
  rc_TargetClient :: string
  rc_Protocol :: string
  rc_SourcePort :: int
  rc_TargetPort :: int
  rc_TargetLocalIP :: string
  rc_SourceLocalIP :: string

definition relay_session :: "string \<Rightarrow> string \<Rightarrow> RelayCreateRequest \<Rightarrow> RelaySession" where
  "relay_session sessionID token req = zero_RelaySession\<lparr>rs_ID := sessionID, rs_SourceClient := rc_SourceClient req,
     rs_TargetClient := rc_TargetClient req, rs_Protocol := rc_Protocol req, rs_SourcePort := rc_SourcePort req,
     rs_TargetPort := rc_TargetPort req, rs_TargetLocalIP := rc_TargetLocalIP req, rs_SourceLocalIP := rc_SourceLocalIP req,
     rs_Token := token\<rparr>"

text \<open>The two generated identifiers, the identifier of the event and its time are arguments.\<close>

definition relay_Create :: "string \<Rightarrow> string \<Rightarrow> string \<Rightarrow> int \<Rightarrow> RelayCreateRequest \<Rightarrow> Core \<Rightarrow> (string \<times> string) \<times> Core" where
  "relay_Create sessionID token gid t req k =
     ((sessionID, token),
      core_Publish (NewGenericEvent gid t \<lparr>rk_Type = ResourceTypeRelay, rk_Namespace = NamespaceDefault, rk_Name = sessionID\<rparr> EventAdded
        (AnyRelay (relay_session sessionID token req))) k)"

definition relay_Delete :: "string \<Rightarrow> int \<Rightarrow> string \<Rightarrow> Core \<Rightarrow> string option \<times> Core" where
  "relay_Delete gid t sessionID k =
     (case GetRelaySession (co_stateStore k) sessionID of
        None \<Rightarrow> (Some (''relay session not found: '' @ sessionID), k)
      | Some _ \<Rightarrow> (None,
          core_Publish (NewGenericEvent gid t \<lparr>rk_Type = ResourceTypeRelay, rk_Namespace = NamespaceDefault, rk_Name = sessionID\<rparr> EventDeleted AnyNil) k))"

definition relay_List :: "Core \<Rightarrow> RelaySession list" where
  "relay_List k = ListRelaySessions (co_stateStore k)"

section \<open>Joining the two connections\<close>

record RelayPairing =
  rp_pending :: "(string, nat) gomap"
  rp_hf :: handoff

definition no_pairing :: RelayPairing where
  "no_pairing = \<lparr>rp_pending = [], rp_hf = no_handoff\<rparr>"

text \<open>Up to the point where the goroutine waits on the new channel or sends into the one it found.\<close>

definition AcceptRelay :: "string \<Rightarrow> nat \<Rightarrow> RelayPairing \<Rightarrow> RelayPairing" where
  "AcceptRelay sessionID conn p =
     (case mget (rp_pending p) sessionID of
        None \<Rightarrow> p\<lparr>rp_pending := mput (rp_pending p) sessionID (length (hf_chan (rp_hf p))), rp_hf := hf_make sessionID conn (rp_hf p)\<rparr>
      | Some ch \<Rightarrow> p\<lparr>rp_pending := mdel (rp_pending p) sessionID, rp_hf := hf_offer sessionID ch conn (rp_hf p)\<rparr>)"

text \<open>The rest of a wait that timed out: the entry of the session is deleted and the connection closed.\<close>

definition relay_timed_out :: "nat \<Rightarrow> RelayPairing \<Rightarrow> RelayPairing" where
  "relay_timed_out i p =
     (if i < length (hf_left (rp_hf p)) then
        p\<lparr>rp_pending := mdel (rp_pending p) (hf_keys (rp_hf p) ! fst (hf_left (rp_hf p) ! i)), rp_hf := hf_quit i (rp_hf p)\<rparr>
      else p)"

record relay_request =
  rq_session :: string
  rq_token :: string
  rq_role :: string
  rq_client :: string

text \<open>The handler: an HTTP status, or the connection of the upgrade enters the pairing. \<open>upgrade\<close> is what
  the websocket upgrade returns.\<close>

definition HandleRelay :: "StateStoreImpl \<Rightarrow> relay_request \<Rightarrow> nat option \<Rightarrow> RelayPairing \<Rightarrow> int option \<times> RelayPairing" where
  "HandleRelay s r upgrade p =
     (if rq_session r = '''' \<or> rq_token r = '''' \<or> rq_role r = '''' \<or> rq_client r = '''' then (Some 400, p)
      else case GetRelaySession s (rq_session r) of
          None \<Rightarrow> (Some 404, p)
        | Some relaySession \<Rightarrow>
            if rs_Token relaySession \<noteq> rq_token r then (Some 401, p)
            else case upgrade of
                None \<Rightarrow> (None, p)
              | Some conn \<Rightarrow> (None, AcceptRelay (rq_session r) conn p))"

text \<open>The interleavings: requests on any state of the store, sends, receives, timeouts and ends of pairs. A
  timeout can win against a connection that already waits in the channel, and other requests can come between
  the timeout and the deletion of the entry.\<close>

inductive relay_step :: "RelayPairing \<Rightarrow> RelayPairing \<Rightarrow> bool" where
  rl_request: "conn \<notin> fst ` set (hf_log (rp_hf p)) \<Longrightarrow> relay_step p (snd (HandleRelay s r (Some conn) p))"
| rl_send: "relay_step p (p\<lparr>rp_hf := hf_deliver i (rp_hf p)\<rparr>)"
| rl_receive: "relay_step p (p\<lparr>rp_hf := hf_take i (rp_hf p)\<rparr>)"
| rl_timeout: "relay_step p (p\<lparr>rp_hf := hf_leave i (rp_hf p)\<rparr>)"
| rl_timed_out: "relay_step p (relay_timed_out i p)"
| rl_pipe_end: "relay_step p (p\<lparr>rp_hf := hf_pipe_end i (rp_hf p)\<rparr>)"

inductive relay_reach :: "RelayPairing \<Rightarrow> RelayPairing \<Rightarrow> bool" for p0 where
  rr_init: "relay_reach p0 p0"
| rr_step: "relay_reach p0 p \<Longrightarrow> relay_step p p' \<Longrightarrow> relay_reach p0 p'"

section \<open>Lemmas\<close>

declare map_of_eq_Some_iff [simp del]

definition relay_inv :: "RelayPairing \<Rightarrow> bool" where
  "relay_inv p \<longleftrightarrow> reg_inv (mget (rp_pending p)) (rp_hf p)"

lemma relay_inv_AcceptRelay:
  assumes "relay_inv p" "conn \<notin> fst ` set (hf_log (rp_hf p))"
  shows "relay_inv (AcceptRelay sid conn p)"
proof (cases "mget (rp_pending p) sid")
  case None
  have "reg_inv (mget (mput (rp_pending p) sid (length (hf_chan (rp_hf p))))) (hf_make sid conn (rp_hf p))"
    unfolding mget_mput by (rule reg_inv_make [OF assms [unfolded relay_inv_def]])
  then show ?thesis using None by (simp add: relay_inv_def AcceptRelay_def del: mget_mput)
next
  case (Some ch)
  have "reg_inv (mget (mdel (rp_pending p) sid)) (hf_offer sid ch conn (rp_hf p))"
    unfolding mget_mdel by (rule reg_inv_offer [OF assms(1) [unfolded relay_inv_def] Some assms(2)])
  then show ?thesis using Some by (simp add: relay_inv_def AcceptRelay_def del: mget_mdel)
qed

lemma relay_inv_timed_out: "relay_inv p \<Longrightarrow> relay_inv (relay_timed_out i p)"
  unfolding relay_inv_def relay_timed_out_def
  by (auto intro: reg_inv_moves reg_inv_less [where m = "mget (rp_pending p)"] split: if_splits)

lemma relay_inv_step: "relay_step p p' \<Longrightarrow> relay_inv p \<Longrightarrow> relay_inv p'"
proof (induction rule: relay_step.induct)
  case (rl_request conn p s r)
  then show ?case using relay_inv_AcceptRelay [of p conn] by (auto simp: HandleRelay_def split: option.split)
qed (simp_all add: relay_inv_timed_out, simp_all add: relay_inv_def reg_inv_moves)

lemma relay_inv_reach: "relay_reach p0 p \<Longrightarrow> relay_inv p0 \<Longrightarrow> relay_inv p"
  by (induction rule: relay_reach.induct) (auto dest: relay_inv_step)

lemma relay_inv_start: "relay_inv no_pairing"
  using reg_inv_start by (simp add: relay_inv_def no_pairing_def)

section \<open>Properties\<close>

text \<open>C20. Relays are joined correctly: whatever the interleaving of requests, sends, receives and timeouts, the
  two ends of a joined pair are different connections that asked for the same session, every accepted
  connection is in exactly one place (waiting, giving up, being sent, in a channel, joined or closed), and no
  goroutine blocks on a send.\<close>

theorem relay_pairing_safe:
  assumes "relay_reach no_pairing p"
  shows "handoff_safe (rp_hf p)"
  using relay_inv_reach [OF assms relay_inv_start] unfolding relay_inv_def by (rule reg_inv_safe)

definition sample_request :: relay_request where
  "sample_request = \<lparr>rq_session = ''s'', rq_token = ''t'', rq_role = ''source'', rq_client = ''c''\<rparr>"

definition sample_relay_store :: StateStoreImpl where
  "sample_relay_store = (NewStateStore ''ip'')\<lparr>ss_relays := [(''s'', zero_RelaySession\<lparr>rs_ID := ''s'', rs_Token := ''t''\<rparr>)]\<rparr>"

lemma sample_admitted: "snd (HandleRelay sample_relay_store sample_request (Some conn) p) = AcceptRelay ''s'' conn p"
  by (simp add: HandleRelay_def sample_relay_store_def sample_request_def GetRelaySession_def)

lemma sample_accept:
  "conn \<notin> fst ` set (hf_log (rp_hf p)) \<Longrightarrow> relay_step p (AcceptRelay ''s'' conn p)"
  using rl_request [of conn p sample_relay_store sample_request] by (simp add: sample_admitted)

lemmas hf_exec = hf_make_def hf_offer_def hf_deliver_def hf_take_def hf_leave_def hf_quit_def no_handoff_def drop_nth_def

definition sample_joined :: RelayPairing where
  "sample_joined = (let p2 = AcceptRelay ''s'' 8 (AcceptRelay ''s'' 7 no_pairing); p3 = p2\<lparr>rp_hf := hf_deliver 0 (rp_hf p2)\<rparr> in
     p3\<lparr>rp_hf := hf_take 0 (rp_hf p3)\<rparr>)"

lemma sample_joined_reach: "relay_reach no_pairing sample_joined"
proof -
  let ?p1 = "AcceptRelay ''s'' 7 no_pairing"
  let ?p2 = "AcceptRelay ''s'' 8 ?p1"
  let ?p3 = "?p2\<lparr>rp_hf := hf_deliver 0 (rp_hf ?p2)\<rparr>"
  have 1: "relay_step no_pairing ?p1" by (rule sample_accept) (simp add: no_pairing_def no_handoff_def)
  have 2: "relay_step ?p1 ?p2" by (rule sample_accept) (simp add: no_pairing_def no_handoff_def AcceptRelay_def)
  have "relay_reach no_pairing (?p3\<lparr>rp_hf := hf_take 0 (rp_hf ?p3)\<rparr>)"
    by (rule rr_step [OF rr_step [OF rr_step [OF rr_step [OF rr_init 1] 2] rl_send] rl_receive])
  then show ?thesis by (simp add: sample_joined_def Let_def)
qed

theorem relay_pairing_safe_witness:
  "\<exists>p. relay_reach no_pairing p \<and> (7, 8) \<in> set (hf_pairs (rp_hf p)) \<and> handoff_safe (rp_hf p)"
proof -
  have "(7, 8) \<in> set (hf_pairs (rp_hf sample_joined))"
    by (simp add: sample_joined_def AcceptRelay_def no_pairing_def hf_exec)
  then show ?thesis using relay_pairing_safe [OF sample_joined_reach] sample_joined_reach by blast
qed

text \<open>Two connections that ask for a session nobody waits on are joined, unless the first gives up: after the
  second request the send goes through and the receive joins them.\<close>

theorem relay_pair_joined:
  assumes "relay_inv p" and "mget (rp_pending p) sid = None" and "a \<notin> fst ` set (hf_log (rp_hf p))" and "b \<notin> fst ` set (hf_log (rp_hf p))" and "a \<noteq> b"
    and "p2 = AcceptRelay sid b (AcceptRelay sid a p)" and "h3 = hf_deliver (length (hf_send (rp_hf p))) (rp_hf p2)"
  shows "relay_inv p2 \<and> (a, b) \<in> set (hf_pairs (hf_take (length (hf_wait (rp_hf p))) h3))"
proof -
  have "relay_inv (AcceptRelay sid a p)" using relay_inv_AcceptRelay [OF assms(1,3)] .
  moreover have "b \<notin> fst ` set (hf_log (rp_hf (AcceptRelay sid a p)))" using assms(2,4,5) by (simp add: AcceptRelay_def)
  ultimately have "relay_inv p2" using relay_inv_AcceptRelay assms(6) by blast
  moreover have "rp_hf p2 = hf_offer sid (length (hf_chan (rp_hf p))) b (hf_make sid a (rp_hf p))"
    using assms(2,6) by (simp add: AcceptRelay_def)
  then have "(a, b) \<in> set (hf_pairs (hf_take (length (hf_wait (rp_hf p))) h3))"
    unfolding assms(7) by (simp add: hf_offer_def hf_make_def hf_deliver_def hf_take_def nth_append)
  ultimately show ?thesis ..
qed

theorem relay_pair_joined_witness:
  "(7, 8) \<in> set (hf_pairs (hf_take 0 (hf_deliver 0 (rp_hf (AcceptRelay ''s'' 8 (AcceptRelay ''s'' 7 no_pairing))))))"
  using relay_pair_joined [OF relay_inv_start, of "''s''" 7 8, OF _ _ _ _ refl refl] by (simp add: no_pairing_def no_handoff_def)

text \<open>A timeout that wins against a peer that already sent its connection strands the peer: the connection
  stays in a channel nobody reads, and no later step ever joins or closes it.\<close>

theorem relay_timeout_strands_peer:
  assumes "p2 = AcceptRelay sid b (AcceptRelay sid a no_pairing)" and "a \<noteq> b"
    and "relay_reach (p2\<lparr>rp_hf := hf_leave 0 (hf_deliver 0 (rp_hf p2))\<rparr>) p"
  shows "b \<in> fst ` set (hf_log (rp_hf p)) \<and> b \<notin> set (hf_closed (rp_hf p)) \<and> (\<forall>c. (b, c) \<notin> set (hf_pairs (rp_hf p)) \<and> (c, b) \<notin> set (hf_pairs (rp_hf p)))"
proof -
  let ?p = "p2\<lparr>rp_hf := hf_leave 0 (hf_deliver 0 (rp_hf p2))\<rparr>"
  have "relay_inv (AcceptRelay sid a no_pairing)" by (rule relay_inv_AcceptRelay [OF relay_inv_start]) (simp add: no_pairing_def no_handoff_def)
  then have "relay_inv p2" unfolding assms(1)
    by (rule relay_inv_AcceptRelay) (use assms(2) in \<open>simp add: AcceptRelay_def no_pairing_def no_handoff_def\<close>)
  then have inv0: "relay_inv ?p" by (simp add: relay_inv_def reg_inv_moves)
  have st0: "stranded 0 b (rp_hf ?p)"
    unfolding assms(1) by (simp add: AcceptRelay_def no_pairing_def hf_exec stranded_def)
  have step: "stranded 0 b (rp_hf q) \<Longrightarrow> relay_step q q' \<Longrightarrow> stranded 0 b (rp_hf q')" for q q'
    by (erule relay_step.cases) (auto simp: HandleRelay_def AcceptRelay_def relay_timed_out_def intro: stranded_ops split: option.split)
  from assms(3) have st: "stranded 0 b (rp_hf p)"
  proof (induction rule: relay_reach.induct)
    case rr_init
    show ?case by (rule st0)
  qed (rule step)
  then show ?thesis using reg_inv_stranded [OF relay_inv_reach [OF assms(3) inv0, unfolded relay_inv_def]] by blast
qed

theorem relay_timeout_strands_peer_witness:
  "let p2 = AcceptRelay ''s'' 8 (AcceptRelay ''s'' 7 no_pairing); p = p2\<lparr>rp_hf := hf_leave 0 (hf_deliver 0 (rp_hf p2))\<rparr> in
   8 \<notin> set (hf_closed (rp_hf p)) \<and> 8 \<in> fst ` set (hf_log (rp_hf p))"
  using relay_timeout_strands_peer [OF refl _ rr_init, of 7 8 "''s''"] by (simp add: Let_def)

text \<open>C21. A created relay can be joined: once the worker of the bus has handled the event \<open>Create\<close> published, the
  session is in the store, a request with the returned identifier and token enters the pairing, and a request
  with another token is refused. Before that, and for a session that is not there, the answer is 404.\<close>

theorem relay_created_can_join:
  assumes "takes ''relay'' (co_eventBus k)" and "wired (co_eventBus k)" and "queued ''relay'' (co_eventBus k) = []"
    and "relay_Create sid tok gid t req k = ((sid', tok'), k1)" and "k2 = drain enc now v ''relay'' k1"
    and "sid \<noteq> ''''" and "tok \<noteq> ''''" and "role \<noteq> ''''" and "client \<noteq> ''''" and "tk \<noteq> ''''"
  shows "GetRelaySession (co_stateStore k2) sid' = Some (relay_session sid tok req) \<and>
     HandleRelay (co_stateStore k2) \<lparr>rq_session = sid', rq_token = tk, rq_role = role, rq_client = client\<rparr> (Some conn) p =
       (if tk = tok' then (None, AcceptRelay sid' conn p) else (Some 401, p)) \<and>
     (GetRelaySession (co_stateStore k) sid' = None \<longrightarrow>
       HandleRelay (co_stateStore k1) \<lparr>rq_session = sid', rq_token = tk, rq_role = role, rq_client = client\<rparr> (Some conn) p = (Some 404, p))"
proof -
  let ?e = "NewGenericEvent gid t \<lparr>rk_Type = ''relay'', rk_Namespace = ''default'', rk_Name = sid\<rparr> ''ADDED'' (AnyRelay (relay_session sid tok req))"
  have k1: "k1 = core_Publish ?e k" "sid' = sid" "tok' = tok" using assms(4) by (auto simp: relay_Create_def)
  have typ': "ev_type ?e = ''relay''" by (simp add: NewGenericEvent_def)
  have bus: "bus_inv (co_eventBus k1)" "wired (co_eventBus k1)" "\<not> eb_stopped (co_eventBus k1)"
    using assms(1,2) bus_inv_Publish by (simp_all add: k1 core_Publish_def takes_def wired_cong [OF Publish_frame(1)])
  have q: "queued ''relay'' (co_eventBus k1) = [?e\<lparr>ev_Sequence := wrap64 (eb_seq (co_eventBus k) + 1)\<rparr>]"
    using queued_Publish [of ?e "co_eventBus k" "''relay''"] assms(1,3) typ' by (simp add: k1 core_Publish_def queueCap_def)
  have "co_stateStore k2 = Apply now (?e\<lparr>ev_Sequence := wrap64 (eb_seq (co_eventBus k) + 1)\<rparr>) (co_stateStore k)"
    unfolding assms(5) using drain_store [OF bus, of "''relay''" enc now v] q by (simp add: k1 core_Publish_def)
  then have g: "GetRelaySession (co_stateStore k2) sid = Some (relay_session sid tok req)"
    by (simp add: GetRelaySession_def Apply_def applyRelayEvent_def NewGenericEvent_def relay_session_def)
  moreover have "rs_Token (relay_session sid tok req) = tok" by (simp add: relay_session_def)
  moreover have "co_stateStore k1 = co_stateStore k" by (simp add: k1 core_Publish_def)
  ultimately show ?thesis using assms(6-10) by (simp add: HandleRelay_def k1)
qed

lemma new_core_takes: "t \<in> {''client'', ''proxy'', ''relay''} \<Longrightarrow> takes t (co_eventBus (NewCore ip st)) \<and> queued t (co_eventBus (NewCore ip st)) = []"
  by (auto simp: takes_def NewCore_def bus_inv_Subscribe bus_inv_New) (auto simp: Subscribe_def NewEventBus_def queued_def mget_or_def)

definition sample_relay :: RelayCreateRequest where
  "sample_relay = \<lparr>rc_SourceClient = ''a'', rc_TargetClient = ''b'', rc_Protocol = ''tcp'', rc_SourcePort = 1, rc_TargetPort = 2,
     rc_TargetLocalIP = '''', rc_SourceLocalIP = ''''\<rparr>"

theorem relay_created_can_join_witness:
  "\<exists>k1. relay_Create ''s'' ''t'' ''e'' 0 sample_relay (NewCore ''ip'' None) = ((''s'', ''t''), k1) \<and>
     HandleRelay (co_stateStore (drain (\<lambda>_. None) 0 sample_env ''relay'' k1)) sample_request (Some 7) no_pairing = (None, AcceptRelay ''s'' 7 no_pairing) \<and>
     HandleRelay (co_stateStore k1) sample_request (Some 7) no_pairing = (Some 404, no_pairing)"
proof -
  obtain k1 where c: "relay_Create ''s'' ''t'' ''e'' 0 sample_relay (NewCore ''ip'' None) = ((''s'', ''t''), k1)" by (simp add: relay_Create_def)
  have "GetRelaySession (co_stateStore (NewCore ''ip'' None)) ''s'' = None" by (simp add: GetRelaySession_def NewCore_def NewStateStore_def)
  then show ?thesis
    using relay_created_can_join [OF _ wired_New _ c refl, where enc = "\<lambda>_. None" and now = 0 and v = sample_env and role = "''source''"
        and client = "''c''" and tk = "''t''" and conn = 7 and p = no_pairing] new_core_takes [of "''relay''" "''ip''" None] c
    by (auto simp: sample_request_def)
qed

text \<open>Deleting a relay tells nobody: the core's subscriber runs first and has removed the session when the
  plugin looks it up to find the clients to notify.\<close>

theorem relay_deletion_tells_nobody:
  assumes "rk_Type (ev_Resource e) = ''relay''" and "ev_EventType e = ''DELETED''"
  shows "handleRelayEvent notifyFn e (on_resource enc now v e k) = []"
  using assms by (simp add: handleRelayEvent_def handleRelayDeleted_def GetRelaySession_def Apply_def applyRelayEvent_def Let_def)

theorem relay_deletion_tells_nobody_witness:
  "handleRelayEvent True (NewGenericEvent ''e'' 0 \<lparr>rk_Type = ''relay'', rk_Namespace = ''default'', rk_Name = ''s''\<rparr> ''DELETED'' AnyNil)
     (on_resource (\<lambda>_. None) 0 sample_env (NewGenericEvent ''e'' 0 \<lparr>rk_Type = ''relay'', rk_Namespace = ''default'', rk_Name = ''s''\<rparr> ''DELETED'' AnyNil)
       ((NewCore ''ip'' None)\<lparr>co_stateStore := sample_relay_store\<rparr>)) = []"
  by (rule relay_deletion_tells_nobody) (simp_all add: NewGenericEvent_def)

end
