(* ===== verification/Proxy_Plugin.thy ===== *)
theory Proxy_Plugin
  imports Runtime_Core Capability
begin

text \<open>
  \<open>plugins/proxy/proxy.go\<close>: the listeners behind the proxies, opened and closed by proxy events.

  The operating system is the list of the sockets the provider ever opened, each with its address text
  and whether it is still open; a listener is an index into that list. A \<open>Listen\<close> on an address that
  is open already fails; for any other reason it can be refused too, which is an argument. The client
  notification \<open>notifyFn\<close> is only stored by this plugin.
\<close>

section \<open>State\<close>

type_synonym sockets = "(string \<times> bool) list"

definition net_Listen :: "bool \<Rightarrow> string \<Rightarrow> sockets \<Rightarrow> nat option \<times> sockets" where
  "net_Listen refused addr sk =
     (if refused \<or> (addr, True) \<in> set sk then (None, sk) else (Some (length sk), sk @ [(addr, True)]))"

definition listener_Close :: "nat \<Rightarrow> sockets \<Rightarrow> sockets" where
  "listener_Close i sk = (if i < length sk then sk[i := (fst (sk ! i), False)] else sk)"

record ProxyCreateRequest =
  pq_ClientID :: string
  pq_RemotePort :: int
  pq_LocalPort :: int
  pq_LocalIP :: string
  pq_Protocol :: string
  pq_BindAddr :: string

record TCPProvider =
  tv_notifyFn :: bool
  tv_listeners :: "(string, nat) gomap"

definition NewTCPProvider :: "bool \<Rightarrow> TCPProvider" where
  "NewTCPProvider notifyFn = \<lparr>tv_notifyFn = notifyFn, tv_listeners = []\<rparr>"

definition proxy_SetNotifyFn :: "TCPProvider \<Rightarrow> TCPProvider" where
  "proxy_SetNotifyFn p = p\<lparr>tv_notifyFn := True\<rparr>"

section \<open>The provider\<close>

definition listen_addr :: "string \<Rightarrow> int \<Rightarrow> string" where
  "listen_addr bindAddr port = (if bindAddr = '''' then ''0.0.0.0'' else bindAddr) @ '':'' @ fmt_int port"

definition proxy_Create :: "bool \<Rightarrow> ProxyCreateRequest \<Rightarrow> TCPProvider \<times> sockets \<Rightarrow> string option \<times> TCPProvider \<times> sockets" where
  "proxy_Create refused req st =
     (let addr = listen_addr (pq_BindAddr req) (pq_RemotePort req) in
      case net_Listen refused addr (snd st) of
        (None, sk) \<Rightarrow> (Some (''listen '' @ addr), fst st, sk)
      | (Some ln, sk) \<Rightarrow>
          (None, (fst st)\<lparr>tv_listeners := mput (tv_listeners (fst st)) (proxyKey (pq_ClientID req) (pq_RemotePort req)) ln\<rparr>, sk))"

definition proxy_Delete :: "string \<Rightarrow> int \<Rightarrow> TCPProvider \<times> sockets \<Rightarrow> TCPProvider \<times> sockets" where
  "proxy_Delete clientID port st =
     (let key = proxyKey clientID port in
      case mget (tv_listeners (fst st)) key of
        None \<Rightarrow> st
      | Some ln \<Rightarrow> ((fst st)\<lparr>tv_listeners := mdel (tv_listeners (fst st)) key\<rparr>, listener_Close ln (snd st)))"

definition proxy_List :: "Core \<Rightarrow> ProxyInfo list" where
  "proxy_List k = ListProxies (co_stateStore k)"

definition GetListener :: "TCPProvider \<Rightarrow> string \<Rightarrow> int \<Rightarrow> nat option" where
  "GetListener p clientID port = mget (tv_listeners p) (proxyKey clientID port)"

section \<open>The resource key\<close>

text \<open>What \<open>fmt.Sscanf(s, "%d", &port)\<close> leaves in \<open>port\<close>, which starts as 0: blanks are skipped, a line
  end is an error, then an optional sign and the longest run of digits; an empty run or a value beyond 64
  bits leaves the 0. Blanks are the ASCII ones.\<close>

fun skip_space :: "string \<Rightarrow> string option" where
  "skip_space [] = Some []"
| "skip_space (c # cs) =
     (if c = CHR 0x0A then None
      else if c \<in> set [CHR 0x09, CHR 0x0B, CHR 0x0C, CHR 0x0D, CHR '' ''] then skip_space cs
      else Some (c # cs))"

definition scan_sign :: "string \<Rightarrow> bool \<times> string" where
  "scan_sign s = (case s of
      c # cs \<Rightarrow> if c = CHR ''-'' then (True, cs) else if c = CHR ''+'' then (False, cs) else (False, s)
    | [] \<Rightarrow> (False, []))"

definition sscanf_d :: "string \<Rightarrow> int" where
  "sscanf_d s = (case skip_space s of
      None \<Rightarrow> 0
    | Some r \<Rightarrow>
        let (neg, ds) = scan_sign r;
            tok = takeWhile (\<lambda>c. c \<in> set ''0123456789'') ds;
            v = (if neg then - int (undigits tok) else int (undigits tok)) in
        if tok = [] \<or> v < - (2 ^ 63) \<or> 2 ^ 63 \<le> v then 0 else v)"

definition parseProxyResourceKey :: "string \<Rightarrow> (string \<times> int) option" where
  "parseProxyResourceKey key =
     (case cut_at CHR '':'' key of
        None \<Rightarrow> None
      | Some (clientID, portText) \<Rightarrow>
          if clientID = '''' \<or> portText = '''' then None
          else let port = sscanf_d portText in if port = 0 then None else Some (clientID, port))"

section \<open>The event handlers\<close>

definition handleProxyAdded :: "bool \<Rightarrow> GenericEvent \<Rightarrow> TCPProvider \<times> sockets \<Rightarrow> TCPProvider \<times> sockets" where
  "handleProxyAdded refused event st =
     (case (case ev_Payload event of AnyProxy proxy \<Rightarrow> Some proxy | AnyMap m \<Rightarrow> Some (parseProxyFromMap m) | _ \<Rightarrow> None) of
        None \<Rightarrow> st
      | Some proxy \<Rightarrow>
          if ps_ClientID proxy = '''' \<or> ps_RemotePort proxy = 0 then st
          else snd (proxy_Create refused \<lparr>pq_ClientID = ps_ClientID proxy, pq_RemotePort = ps_RemotePort proxy,
                 pq_LocalPort = ps_LocalPort proxy, pq_LocalIP = ps_LocalIP proxy, pq_Protocol = ps_Protocol proxy,
                 pq_BindAddr = ps_BindAddr proxy\<rparr> st))"

definition handleProxyDeleted :: "GenericEvent \<Rightarrow> TCPProvider \<times> sockets \<Rightarrow> TCPProvider \<times> sockets" where
  "handleProxyDeleted event st =
     (case parseProxyResourceKey (rk_Name (ev_Resource event)) of
        None \<Rightarrow> st
      | Some (clientID, port) \<Rightarrow> proxy_Delete clientID port st)"

definition handleProxyEvent :: "bool \<Rightarrow> GenericEvent \<Rightarrow> TCPProvider \<times> sockets \<Rightarrow> TCPProvider \<times> sockets" where
  "handleProxyEvent refused event st =
     (if ev_EventType event = EventAdded then handleProxyAdded refused event st
      else if ev_EventType event = EventDeleted then handleProxyDeleted event st
      else st)"

text \<open>\<open>Init\<close>: the tunnel port of the configuration, the provider registered as \<open>tcp\<close> (by its
  address, since it is shared), and the subscription (code address 5).\<close>

definition listener_sub :: EventHandler where "listener_sub = \<lparr>eh_code = 5, eh_env = 0\<rparr>"

definition proxy_Init ::
  "(string, any) gomap \<Rightarrow> nat \<Rightarrow> Core \<times> ('s, nat, 'r) CapabilityRegistryImpl \<Rightarrow> int \<times> TCPProvider \<times> Core \<times> ('s, nat, 'r) CapabilityRegistryImpl" where
  "proxy_Init config self kc =
     (int_or 0 config ''tunnel_port'', NewTCPProvider False,
      (fst kc)\<lparr>co_eventBus := Subscribe ResourceTypeProxy listener_sub (co_eventBus (fst kc))\<rparr>,
      RegisterProxyProvider ''tcp'' self (snd kc))"

section \<open>Lemmas\<close>

declare map_of_eq_Some_iff [simp del]

lemma skip_space_digits:
  assumes "c \<in> set ''-0123456789''"
  shows "skip_space (c # cs) = Some (c # cs)"
proof -
  have "c \<noteq> CHR 0x0A" "c \<notin> set [CHR 0x09, CHR 0x0B, CHR 0x0C, CHR 0x0D, CHR '' '']" using assms by force+
  then show ?thesis by (simp only: skip_space.simps if_False simp_thms)
qed

lemma scan_sign_digit: "c \<in> set ''0123456789'' \<Longrightarrow> scan_sign (c # cs) = (False, c # cs)"
  by (auto simp: scan_sign_def)

text \<open>\<open>Sscanf\<close> reads back what \<open>Sprintf\<close> wrote, up to the first character that is no digit.\<close>

lemma sscanf_d_fmt_int:
  assumes "- (2 ^ 63) \<le> i" "i < 2 ^ 63" "rest = [] \<or> hd rest \<notin> set ''0123456789''"
  shows "sscanf_d (fmt_int i @ rest) = i"
proof -
  obtain c cs where c: "fmt_int i = c # cs" by (cases "fmt_int i") auto
  then have sp: "skip_space (fmt_int i @ rest) = Some (fmt_int i @ rest)"
    using fmt_int_chars [of c i] skip_space_digits [of c "cs @ rest"] by simp
  have sg: "scan_sign (fmt_int i @ rest) = (i < 0, nat_digits (nat \<bar>i\<bar>) @ rest)"
  proof (cases "i < 0")
    case False
    then have "c \<in> set ''0123456789''" using fmt_int_nonneg_chars [of i c] c by simp
    from scan_sign_digit [OF this, of "cs @ rest"] show ?thesis using False c by (simp add: fmt_int_def)
  qed (simp add: fmt_int_def scan_sign_def)
  have "takeWhile (\<lambda>c. c \<in> set ''0123456789'') rest = []" using assms(3) by (cases rest) auto
  moreover have "\<forall>c \<in> set (nat_digits n). c \<in> set ''0123456789''" for n using set_nat_digits by blast
  ultimately have "takeWhile (\<lambda>c. c \<in> set ''0123456789'') (nat_digits n @ rest) = nat_digits n" for n
    by (simp only: takeWhile_append2 append_Nil2)
  then show ?thesis using assms(1,2) unfolding sscanf_d_def sp by (simp only: option.case sg Let_def prod.case) auto
qed

lemma parseProxyResourceKey_proxyKey:
  assumes "CHR '':'' \<notin> set c" "c \<noteq> ''''" "q \<noteq> 0" "- (2 ^ 63) \<le> q" "q < 2 ^ 63"
  shows "parseProxyResourceKey (proxyKey c q) = Some (c, q)"
  using assms sscanf_d_fmt_int [of q "[]"] by (simp add: parseProxyResourceKey_def proxyKey_def)

text \<open>One event, seen by the subscriber of the core and then by the plugin.\<close>

definition listener_step :: "StateStoreImpl \<times> TCPProvider \<times> sockets \<Rightarrow> bool \<times> GenericEvent \<Rightarrow> StateStoreImpl \<times> TCPProvider \<times> sockets" where
  "listener_step st x = (Apply 0 (snd x) (fst st), handleProxyEvent (fst x) (snd x) (snd st))"

text \<open>The events of a run: proxies keep their bind address, and a deletion names a proxy key whose client
  identifier holds no colon.\<close>

definition proxy_event_ok :: "(string \<Rightarrow> string) \<Rightarrow> GenericEvent \<Rightarrow> bool" where
  "proxy_event_ok bind e \<longleftrightarrow> rk_Type (ev_Resource e) = ResourceTypeProxy \<and>
     (ev_EventType e = EventAdded \<longrightarrow> (\<forall>p. parseProxyFromPayload (ev_Payload e) = Some p \<longrightarrow>
        ps_BindAddr p = bind (proxyKey (ps_ClientID p) (ps_RemotePort p)))) \<and>
     (ev_EventType e = EventDeleted \<longrightarrow> (\<exists>c q. rk_Name (ev_Resource e) = proxyKey c q \<and>
        CHR '':'' \<notin> set c \<and> c \<noteq> '''' \<and> q \<noteq> 0 \<and> - (2 ^ 63) \<le> q \<and> q < 2 ^ 63))"

text \<open>Nothing refuses the listener, and no other proxy uses its address.\<close>

definition exclusive :: "(string \<Rightarrow> string) \<Rightarrow> GenericEvent \<Rightarrow> bool" where
  "exclusive owner e \<longleftrightarrow> (ev_EventType e = EventAdded \<longrightarrow> (\<forall>p. parseProxyFromPayload (ev_Payload e) = Some p \<longrightarrow>
     owner (listen_addr (ps_BindAddr p) (ps_RemotePort p)) = proxyKey (ps_ClientID p) (ps_RemotePort p)))"

definition keyed :: "StateStoreImpl \<Rightarrow> bool" where
  "keyed s \<longleftrightarrow> (\<forall>k p. mget (ss_proxies s) k = Some p \<longrightarrow> k = proxyKey (ps_ClientID p) (ps_RemotePort p))"

definition held :: "(string \<Rightarrow> string) \<Rightarrow> StateStoreImpl \<Rightarrow> (string, nat) gomap \<Rightarrow> sockets \<Rightarrow> bool" where
  "held bind s L sk \<longleftrightarrow> (\<forall>k i. mget L k = Some i \<longrightarrow> i < length sk \<and>
     (\<exists>p. mget (ss_proxies s) k = Some p \<and> sk ! i = (listen_addr (bind k) (ps_RemotePort p), True)))"

definition listener_inv :: "(string \<Rightarrow> string) \<Rightarrow> StateStoreImpl \<times> TCPProvider \<times> sockets \<Rightarrow> bool" where
  "listener_inv bind st \<longleftrightarrow> (case st of (s, tv, sk) \<Rightarrow>
     keyed s \<and> held bind s (tv_listeners tv) sk \<and>
     (\<forall>k k' i. mget (tv_listeners tv) k = Some i \<and> mget (tv_listeners tv) k' = Some i \<longrightarrow> k = k') \<and>
     (\<forall>i. i < length sk \<and> snd (sk ! i) \<longrightarrow> (\<exists>k. mget (tv_listeners tv) k = Some i)))"

lemma listener_invD:
  assumes "listener_inv bind (s, tv, sk)"
  shows "keyed s" "held bind s (tv_listeners tv) sk"
    and listener_inv_inj: "\<And>k k' i. mget (tv_listeners tv) k = Some i \<Longrightarrow> mget (tv_listeners tv) k' = Some i \<Longrightarrow> k = k'"
    and listener_inv_open: "\<And>i. i < length sk \<Longrightarrow> snd (sk ! i) \<Longrightarrow> \<exists>k. mget (tv_listeners tv) k = Some i"
  using assms unfolding listener_inv_def prod.case by blast+

lemma listener_invI:
  assumes "keyed s" "held bind s L sk" "\<And>k k' i. mget L k = Some i \<Longrightarrow> mget L k' = Some i \<Longrightarrow> k = k'"
    "\<And>i. i < length sk \<Longrightarrow> snd (sk ! i) \<Longrightarrow> \<exists>k. mget L k = Some i" "tv_listeners tv = L"
  shows "listener_inv bind (s, tv, sk)"
  unfolding listener_inv_def prod.case assms(5) using assms(1-4) by blast

lemma keyedD: "keyed s \<Longrightarrow> mget (ss_proxies s) (proxyKey c q) = Some p \<Longrightarrow> ps_ClientID p = c \<and> ps_RemotePort p = q"
  by (auto simp: keyed_def dest: spec [of _ "proxyKey c q"])

lemma handleProxyAdded_eq:
  "handleProxyAdded refused e (tv, sk) = (case parseProxyFromPayload (ev_Payload e) of
      None \<Rightarrow> (tv, sk)
    | Some p \<Rightarrow>
        let addr = listen_addr (ps_BindAddr p) (ps_RemotePort p) in
        if ps_ClientID p = '''' \<or> ps_RemotePort p = 0 \<or> refused \<or> (addr, True) \<in> set sk then (tv, sk)
        else (tv\<lparr>tv_listeners := mput (tv_listeners tv) (proxyKey (ps_ClientID p) (ps_RemotePort p)) (length sk)\<rparr>, sk @ [(addr, True)]))"
  by (auto simp: handleProxyAdded_def proxy_Create_def net_Listen_def parseProxyFromPayload_def Let_def split: any.split)

lemma listener_inv_added:
  assumes inv: "listener_inv bind (s, tv, sk)" and p: "parseProxyFromPayload (ev_Payload e) = Some p"
    and b: "ps_BindAddr p = bind (proxyKey (ps_ClientID p) (ps_RemotePort p))"
    and s': "ss_proxies s' = mput (ss_proxies s) (proxyKey (ps_ClientID p) (ps_RemotePort p)) p"
  shows "listener_inv bind (s', handleProxyAdded refused e (tv, sk))"
proof -
  let ?k = "proxyKey (ps_ClientID p) (ps_RemotePort p)" and ?L = "tv_listeners tv"
  have old: "mget (ss_proxies s) ?k = Some p0 \<Longrightarrow> ps_RemotePort p0 = ps_RemotePort p" for p0
    using keyedD [OF listener_invD(1) [OF inv]] by blast
  have keyed: "keyed s'" using listener_invD(1) [OF inv] by (auto simp: keyed_def s')
  have held: "held bind s' ?L sk"
    using listener_invD(2) [OF inv] old by (fastforce simp: held_def s')
  show ?thesis
  proof (cases "ps_ClientID p = '''' \<or> ps_RemotePort p = 0 \<or> refused \<or> (listen_addr (ps_BindAddr p) (ps_RemotePort p), True) \<in> set sk")
    case True
    then have "handleProxyAdded refused e (tv, sk) = (tv, sk)" by (simp add: handleProxyAdded_eq p Let_def)
    then show ?thesis using inv keyed held by (simp add: listener_inv_def)
  next
    case False
    have fresh: "mget ?L ?k = None"
    proof (rule ccontr)
      assume "mget ?L ?k \<noteq> None"
      then obtain i where i: "mget ?L ?k = Some i" by auto
      have "i < length sk" "sk ! i = (listen_addr (ps_BindAddr p) (ps_RemotePort p), True)"
        using held [unfolded held_def, rule_format, OF i] b by (simp_all add: s')
      then show False using False by (metis nth_mem)
    qed
    have lt: "mget ?L k = Some i \<Longrightarrow> i < length sk" for k i using held by (simp add: held_def)
    have held1: "held bind s' (mput ?L ?k (length sk)) (sk @ [(listen_addr (ps_BindAddr p) (ps_RemotePort p), True)])"
      unfolding held_def
    proof (intro allI impI)
      fix k i assume k: "mget (mput ?L ?k (length sk)) k = Some i"
      show "i < length (sk @ [(listen_addr (ps_BindAddr p) (ps_RemotePort p), True)]) \<and>
        (\<exists>pa. mget (ss_proxies s') k = Some pa \<and>
          (sk @ [(listen_addr (ps_BindAddr p) (ps_RemotePort p), True)]) ! i = (listen_addr (bind k) (ps_RemotePort pa), True))"
        using held [unfolded held_def, rule_format, of k i] k b by (cases "k = ?k") (auto simp: s' nth_append)
    qed
    have inj1: "k = k'" if "mget (mput ?L ?k (length sk)) k = Some i" "mget (mput ?L ?k (length sk)) k' = Some i" for k k' i
      using that lt [of k "length sk"] lt [of k' "length sk"] listener_inv_inj [OF inv, of k i k'] by (auto split: if_splits)
    have open1: "\<exists>k. mget (mput ?L ?k (length sk)) k = Some i"
      if "i < length (sk @ [(a, True)])" "snd ((sk @ [(a, True)]) ! i)" for i a
    proof (cases "i = length sk")
      case False
      then have "i < length sk" "snd (sk ! i)" using that by (auto simp: nth_append)
      from listener_inv_open [OF inv this] obtain k where k: "mget ?L k = Some i" by blast
      then have "k \<noteq> ?k" using fresh by auto
      then show ?thesis using k by auto
    qed auto
    have "listener_inv bind (s', tv\<lparr>tv_listeners := mput ?L ?k (length sk)\<rparr>,
        sk @ [(listen_addr (ps_BindAddr p) (ps_RemotePort p), True)])"
      by (rule listener_invI [OF keyed held1 inj1 open1]) simp_all
    then show ?thesis using False by (simp add: handleProxyAdded_eq p Let_def)
  qed
qed

lemma listener_inv_deleted:
  assumes inv: "listener_inv bind (s, tv, sk)" and k: "parseProxyResourceKey (rk_Name (ev_Resource e)) = Some (c, q)"
    and s': "ss_proxies s' = mdel (ss_proxies s) (proxyKey c q)"
  shows "listener_inv bind (s', handleProxyDeleted e (tv, sk))"
proof (cases "mget (tv_listeners tv) (proxyKey c q)")
  case None
  then show ?thesis using inv by (auto simp: handleProxyDeleted_def k proxy_Delete_def listener_inv_def keyed_def held_def s')
next
  case (Some i)
  let ?L = "mdel (tv_listeners tv) (proxyKey c q)" and ?sk = "listener_Close i sk"
  have i: "i < length sk" using listener_invD(2) [OF inv] Some by (simp add: held_def)
  then have sk: "length ?sk = length sk" "?sk ! i = (fst (sk ! i), False)" "j \<noteq> i \<Longrightarrow> ?sk ! j = sk ! j" for j
    by (simp_all add: listener_Close_def)
  have other: "j \<noteq> i \<and> mget (tv_listeners tv) k' = Some j \<and> k' \<noteq> proxyKey c q" if "mget ?L k' = Some j" for k' j
    using that listener_inv_inj [OF inv _ Some, of k'] by (auto split: if_splits)
  have "listener_inv bind (s', tv\<lparr>tv_listeners := ?L\<rparr>, ?sk)"
  proof (rule listener_invI [where L = ?L])
    show "keyed s'" using listener_invD(1) [OF inv] by (simp add: keyed_def s')
    show "held bind s' ?L ?sk"
      unfolding held_def
    proof (intro allI impI)
      fix k' j assume "mget ?L k' = Some j"
      note o = other [OF this]
      with listener_invD(2) [OF inv, unfolded held_def, rule_format, of k' j]
      show "j < length ?sk \<and> (\<exists>p. mget (ss_proxies s') k' = Some p \<and> ?sk ! j = (listen_addr (bind k') (ps_RemotePort p), True))"
        using sk by (simp add: s')
    qed
    show "k1 = k2" if "mget ?L k1 = Some j" "mget ?L k2 = Some j" for k1 k2 j
      using listener_inv_inj [OF inv, of k1 j k2] other [OF that(1)] other [OF that(2)] by blast
    show "\<exists>k. mget ?L k = Some j" if "j < length ?sk" "snd (?sk ! j)" for j
    proof -
      have "j \<noteq> i" using that(2) sk(2) by auto
      then have j: "j \<noteq> i" "j < length sk" "snd (sk ! j)" using that by (simp_all add: sk)
      from listener_inv_open [OF inv j(2,3)] obtain k where "mget (tv_listeners tv) k = Some j" by blast
      then show ?thesis using Some j(1) by (intro exI [of _ k]) auto
    qed
  qed simp
  then show ?thesis by (simp add: handleProxyDeleted_def k proxy_Delete_def Some)
qed

lemma listener_inv_step:
  assumes "listener_inv bind st" "proxy_event_ok bind (snd x)"
  shows "listener_inv bind (listener_step st x)"
proof -
  obtain s tv sk where st: "st = (s, tv, sk)" by (cases st)
  let ?e = "snd x"
  have ap: "Apply 0 ?e s = applyProxyEvent ?e s" using assms(2) by (simp add: proxy_event_ok_def Apply_def)
  consider (added) "ev_EventType ?e = EventAdded" | (deleted) "ev_EventType ?e = EventDeleted"
    | (other) "ev_EventType ?e \<noteq> EventAdded \<and> ev_EventType ?e \<noteq> EventDeleted" by blast
  then show ?thesis
  proof cases
    case added
    show ?thesis
    proof (cases "parseProxyFromPayload (ev_Payload ?e)")
      case None
      then show ?thesis using assms(1) added by (simp add: listener_step_def st ap handleProxyEvent_def applyProxyEvent_def handleProxyAdded_eq)
    next
      case (Some p)
      from listener_inv_added [OF assms(1) [unfolded st] Some, of "Apply 0 ?e s" "fst x"] show ?thesis
        using assms(2) added Some by (simp add: proxy_event_ok_def listener_step_def st ap handleProxyEvent_def applyProxyEvent_def Let_def)
    qed
  next
    case deleted
    then obtain c q where c: "rk_Name (ev_Resource ?e) = proxyKey c q" and "parseProxyResourceKey (proxyKey c q) = Some (c, q)"
      using assms(2) parseProxyResourceKey_proxyKey by (auto simp: proxy_event_ok_def)
    from listener_inv_deleted [OF assms(1) [unfolded st], of ?e c q "Apply 0 ?e s"] this show ?thesis
      using deleted by (simp add: listener_step_def st ap handleProxyEvent_def applyProxyEvent_def Let_def)
  next
    case other
    then show ?thesis using assms(1) by (simp add: listener_step_def st ap handleProxyEvent_def applyProxyEvent_def)
  qed
qed

interpretation listeners: invariant_run listener_step "listener_inv bind" "\<lambda>x. proxy_event_ok bind (snd x)" for bind
  by unfold_locales (rule listener_inv_step)

text \<open>When nothing is refused and no address is shared, every proxy has its listener.\<close>

definition served :: "(string \<Rightarrow> string) \<Rightarrow> StateStoreImpl \<times> TCPProvider \<times> sockets \<Rightarrow> bool" where
  "served owner st \<longleftrightarrow> (case st of (s, tv, sk) \<Rightarrow>
     (\<forall>k p. mget (ss_proxies s) k = Some p \<and> ps_ClientID p \<noteq> '''' \<and> ps_RemotePort p \<noteq> 0 \<longrightarrow> mget (tv_listeners tv) k \<noteq> None) \<and>
     (\<forall>k i. mget (tv_listeners tv) k = Some i \<longrightarrow> owner (fst (sk ! i)) = k))"

lemma served_added:
  assumes inv: "listener_inv bind (s, tv, sk)" and sv: "served owner (s, tv, sk)" and p: "parseProxyFromPayload (ev_Payload e) = Some p"
    and ow: "owner (listen_addr (ps_BindAddr p) (ps_RemotePort p)) = proxyKey (ps_ClientID p) (ps_RemotePort p)"
    and s': "ss_proxies s' = mput (ss_proxies s) (proxyKey (ps_ClientID p) (ps_RemotePort p)) p"
  shows "served owner (s', handleProxyAdded False e (tv, sk))"
proof -
  let ?k = "proxyKey (ps_ClientID p) (ps_RemotePort p)" and ?addr = "listen_addr (ps_BindAddr p) (ps_RemotePort p)"
  have taken: "mget (tv_listeners tv) ?k \<noteq> None" if "(?addr, True) \<in> set sk"
  proof -
    from that obtain i where i: "i < length sk" "sk ! i = (?addr, True)" by (auto simp: in_set_conv_nth)
    then have "snd (sk ! i)" by simp
    from listener_inv_open [OF inv i(1) this] obtain k where k: "mget (tv_listeners tv) k = Some i" by blast
    moreover have "owner (fst (sk ! i)) = k" using sv k unfolding served_def prod.case by blast
    then have "k = ?k" using i ow by simp
    ultimately show ?thesis by simp
  qed
  have lt: "mget (tv_listeners tv) k = Some i \<Longrightarrow> i < length sk" for k i
    using listener_invD(2) [OF inv] by (simp add: held_def)
  show ?thesis
  proof (cases "ps_ClientID p = '''' \<or> ps_RemotePort p = 0 \<or> (?addr, True) \<in> set sk")
    case True
    then have "handleProxyAdded False e (tv, sk) = (tv, sk)" by (simp add: handleProxyAdded_eq p Let_def)
    then show ?thesis using sv True taken by (auto simp: served_def s')
  next
    case False
    then have eq: "handleProxyAdded False e (tv, sk) = (tv\<lparr>tv_listeners := mput (tv_listeners tv) ?k (length sk)\<rparr>, sk @ [(?addr, True)])"
      by (simp add: handleProxyAdded_eq p Let_def)
    show ?thesis unfolding eq served_def prod.case
      using sv lt ow by (auto simp: served_def s' nth_append)
  qed
qed

lemma served_step:
  assumes "listener_inv bind st" "served owner st" "proxy_event_ok bind (snd x)" "\<not> fst x" "exclusive owner (snd x)"
  shows "served owner (listener_step st x)"
proof -
  obtain s tv sk where st: "st = (s, tv, sk)" by (cases st)
  let ?e = "snd x"
  have ap: "Apply 0 ?e s = applyProxyEvent ?e s" using assms(3) by (simp add: proxy_event_ok_def Apply_def)
  consider (added) "ev_EventType ?e = EventAdded" | (deleted) "ev_EventType ?e = EventDeleted"
    | (other) "ev_EventType ?e \<noteq> EventAdded \<and> ev_EventType ?e \<noteq> EventDeleted" by blast
  then show ?thesis
  proof cases
    case added
    show ?thesis
    proof (cases "parseProxyFromPayload (ev_Payload ?e)")
      case None
      then show ?thesis using assms(2) added by (simp add: listener_step_def st ap handleProxyEvent_def applyProxyEvent_def handleProxyAdded_eq)
    next
      case (Some p)
      from served_added [OF assms(1,2) [unfolded st] Some, of "Apply 0 ?e s"] show ?thesis
        using assms(4,5) added Some by (simp add: exclusive_def listener_step_def st ap handleProxyEvent_def applyProxyEvent_def Let_def)
    qed
  next
    case deleted
    then obtain c q where c: "rk_Name (ev_Resource ?e) = proxyKey c q" "parseProxyResourceKey (proxyKey c q) = Some (c, q)"
      using assms(3) parseProxyResourceKey_proxyKey by (auto simp: proxy_event_ok_def)
    have step: "listener_step st x = (applyProxyEvent ?e s, proxy_Delete c q (tv, sk))"
      using deleted by (simp add: listener_step_def st ap handleProxyEvent_def handleProxyDeleted_def c)
    have s': "ss_proxies (applyProxyEvent ?e s) = mdel (ss_proxies s) (proxyKey c q)" using deleted by (simp add: applyProxyEvent_def c Let_def)
    have "fst (listener_Close i sk ! j) = fst (sk ! j)" for i j by (simp add: listener_Close_def nth_list_update)
    then show ?thesis
      using assms(2) unfolding step unfolding st
      by (cases "mget (tv_listeners tv) (proxyKey c q)") (auto simp: served_def s' proxy_Delete_def Let_def)
  next
    case other
    then show ?thesis using assms(2) by (simp add: listener_step_def st ap handleProxyEvent_def applyProxyEvent_def)
  qed
qed

interpretation exclusive_listeners: invariant_run listener_step "\<lambda>st. listener_inv bind st \<and> served owner st"
    "\<lambda>x. proxy_event_ok bind (snd x) \<and> \<not> fst x \<and> exclusive owner (snd x)" for bind owner
  by unfold_locales (blast intro: listener_inv_step served_step)

lemma listener_inv_start: "listener_inv bind (NewStateStore ip, NewTCPProvider n, [])"
  by (simp add: listener_inv_def keyed_def held_def NewStateStore_def NewTCPProvider_def)

lemma served_start: "served owner (NewStateStore ip, NewTCPProvider n, [])"
  by (simp add: served_def NewStateStore_def NewTCPProvider_def)

section \<open>Properties\<close>


definition px_added :: "string \<Rightarrow> int \<Rightarrow> string \<Rightarrow> GenericEvent" where
  "px_added c q bindAddr = NewGenericEvent ''id'' 0 \<lparr>rk_Type = ''proxy'', rk_Namespace = ''default'', rk_Name = proxyKey c q\<rparr> ''ADDED''
     (AnyProxy (zero_ProxyState\<lparr>ps_ClientID := c, ps_RemotePort := q, ps_BindAddr := bindAddr\<rparr>))"

definition px_deleted :: "string \<Rightarrow> int \<Rightarrow> GenericEvent" where
  "px_deleted c q = NewGenericEvent ''id'' 0 \<lparr>rk_Type = ''proxy'', rk_Namespace = ''default'', rk_Name = proxyKey c q\<rparr> ''DELETED'' AnyNil"

lemma px_added_step:
  "c \<noteq> '''' \<Longrightarrow> q \<noteq> 0 \<Longrightarrow> snd st = (tv, sk) \<Longrightarrow> (listen_addr b q, True) \<notin> set sk \<Longrightarrow>
    snd (listener_step st (False, px_added c q b)) =
      (tv\<lparr>tv_listeners := mput (tv_listeners tv) (proxyKey c q) (length sk)\<rparr>, sk @ [(listen_addr b q, True)])"
  by (simp add: listener_step_def handleProxyEvent_def px_added_def NewGenericEvent_def handleProxyAdded_eq parseProxyFromPayload_def
      zero_ProxyState_def Let_def)

lemma px_proxies:
  "ss_proxies (fst (listener_step st (r, px_added c q b))) =
     mput (ss_proxies (fst st)) (proxyKey c q) (zero_ProxyState\<lparr>ps_ClientID := c, ps_RemotePort := q, ps_BindAddr := b\<rparr>)"
  "ss_proxies (fst (listener_step st (r, px_deleted c q))) = mdel (ss_proxies (fst st)) (proxyKey c q)"
  by (simp_all add: listener_step_def Apply_def applyProxyEvent_def px_added_def px_deleted_def NewGenericEvent_def parseProxyFromPayload_def
      zero_ProxyState_def Let_def)


lemma px_deleted_step:
  "parseProxyResourceKey (proxyKey c q) = Some (c', q') \<Longrightarrow> mget (tv_listeners tv) (proxyKey c' q') = Some i \<Longrightarrow> i < length sk \<Longrightarrow> snd st = (tv, sk) \<Longrightarrow>
    snd (listener_step st (r, px_deleted c q)) =
      (tv\<lparr>tv_listeners := mdel (tv_listeners tv) (proxyKey c' q')\<rparr>, sk[i := (fst (sk ! i), False)])"
  by (simp add: listener_step_def handleProxyEvent_def handleProxyDeleted_def px_deleted_def NewGenericEvent_def proxy_Delete_def listener_Close_def)

text \<open>A proxy added again with another bind address leaks its first listener: the new one replaces it in the
  table without closing it, and deleting the proxy closes the new one only. The port stays open on the old
  address and no key leads to it.\<close>

theorem proxy_rebind_leaks_listener:
  assumes "CHR '':'' \<notin> set c" and "c \<noteq> ''''" and "q \<noteq> 0" and "- (2 ^ 63) \<le> q" and "q < 2 ^ 63"
    and "listen_addr b1 q \<noteq> listen_addr b2 q"
    and "foldl listener_step (NewStateStore ip, NewTCPProvider n, []) [(False, px_added c q b1), (False, px_added c q b2), (False, px_deleted c q)] = (s, tv, sk)"
  shows "sk ! 0 = (listen_addr b1 q, True) \<and> tv_listeners tv = [] \<and> GetProxy s c q = None"
proof -
  define st1 where "st1 = listener_step (NewStateStore ip, NewTCPProvider n, []) (False, px_added c q b1)"
  define st2 where "st2 = listener_step st1 (False, px_added c q b2)"
  let ?k = "proxyKey c q"
  have 1: "snd st1 = (\<lparr>tv_notifyFn = n, tv_listeners = [(?k, 0)]\<rparr>, [(listen_addr b1 q, True)])"
    unfolding st1_def using px_added_step [OF assms(2,3) snd_conv] by (simp add: NewTCPProvider_def)
  have 2: "snd st2 = (\<lparr>tv_notifyFn = n, tv_listeners = [(?k, 1)]\<rparr>, [(listen_addr b1 q, True), (listen_addr b2 q, True)])"
    unfolding st2_def using px_added_step [OF assms(2,3) 1] assms(6) by simp
  have "snd (listener_step st2 (False, px_deleted c q)) = (\<lparr>tv_notifyFn = n, tv_listeners = []\<rparr>, [(listen_addr b1 q, True), (listen_addr b2 q, False)])"
    using px_deleted_step [OF parseProxyResourceKey_proxyKey [OF assms(1-5)] _ _ 2] by simp
  moreover have "GetProxy (fst (listener_step st2 (False, px_deleted c q))) c q = None" by (simp add: px_proxies GetProxy_proxyKey)
  moreover have "(s, tv, sk) = listener_step st2 (False, px_deleted c q)" using assms(7) by (simp add: st1_def st2_def)
  ultimately show ?thesis by (metis fst_conv snd_conv nth_Cons_0 TCPProvider.select_convs(2))
qed

theorem proxy_rebind_leaks_listener_witness:
  "\<exists>s tv sk. foldl listener_step (NewStateStore ''ip'', NewTCPProvider False, [])
       [(False, px_added ''c'' 80 ''''), (False, px_added ''c'' 80 ''127.0.0.1''), (False, px_deleted ''c'' 80)] = (s, tv, sk) \<and>
     sk ! 0 = (''0.0.0.0:80'', True) \<and> tv_listeners tv = [] \<and> GetProxy s ''c'' 80 = None"
proof -
  obtain s tv sk where st: "foldl listener_step (NewStateStore ''ip'', NewTCPProvider False, [])
       [(False, px_added ''c'' 80 ''''), (False, px_added ''c'' 80 ''127.0.0.1''), (False, px_deleted ''c'' 80)] = (s, tv, sk)"
    by (metis prod_cases3)
  with proxy_rebind_leaks_listener [OF _ _ _ _ _ _ st] show ?thesis by (simp add: listen_addr_def)
qed

text \<open>The key of a proxy whose client identifier holds a colon is cut at the wrong place: deleting the proxy
  of client \<open>c:q\<close> closes the listener of client \<open>c\<close> on port \<open>q\<close>, whose proxy is still there, and
  leaves its own port open.\<close>

theorem colon_client_closes_wrong_port:
  assumes "CHR '':'' \<notin> set c" and "c \<noteq> ''''" and "q \<noteq> 0" and "- (2 ^ 63) \<le> q" and "q < 2 ^ 63" and "r \<noteq> 0" and "r \<noteq> q"
    and "c' = c @ '':'' @ fmt_int q"
    and "foldl listener_step (NewStateStore ip, NewTCPProvider n, []) [(False, px_added c q b), (False, px_added c' r b), (False, px_deleted c' r)] = (s, tv, sk)"
  shows "sk = [(listen_addr b q, False), (listen_addr b r, True)] \<and> GetProxy s c q \<noteq> None \<and> GetProxy s c' r = None"
proof -
  define st1 where "st1 = listener_step (NewStateStore ip, NewTCPProvider n, []) (False, px_added c q b)"
  define st2 where "st2 = listener_step st1 (False, px_added c' r b)"
  have c': "c' \<noteq> ''''" "c' \<noteq> c" "proxyKey c' r \<noteq> proxyKey c q" using assms(8) by auto
  have addr: "listen_addr b r \<noteq> listen_addr b q" using assms(7) by (simp add: listen_addr_def)
  have parse: "parseProxyResourceKey (proxyKey c' r) = Some (c, q)"
    using assms(1-5) sscanf_d_fmt_int [OF assms(4,5), of "'':'' @ fmt_int r"]
    by (simp add: parseProxyResourceKey_def proxyKey_def assms(8))
  have 1: "snd st1 = (\<lparr>tv_notifyFn = n, tv_listeners = [(proxyKey c q, 0)]\<rparr>, [(listen_addr b q, True)])"
    unfolding st1_def using px_added_step [OF assms(2,3) snd_conv] by (simp add: NewTCPProvider_def)
  have 2: "snd st2 = (\<lparr>tv_notifyFn = n, tv_listeners = [(proxyKey c q, 0), (proxyKey c' r, 1)]\<rparr>, [(listen_addr b q, True), (listen_addr b r, True)])"
    unfolding st2_def using px_added_step [OF c'(1) assms(6) 1, of b] addr c' by simp
  have 3: "snd (listener_step st2 (False, px_deleted c' r)) = (\<lparr>tv_notifyFn = n, tv_listeners = [(proxyKey c' r, 1)]\<rparr>, [(listen_addr b q, False), (listen_addr b r, True)])"
    using px_deleted_step [OF parse _ _ 2] c' by simp
  have "mget (ss_proxies (fst (listener_step st2 (False, px_deleted c' r)))) (proxyKey c q) \<noteq> None"
    by (simp add: px_proxies st2_def st1_def c'(2) c'(2) [symmetric])
  moreover have "mget (ss_proxies (fst (listener_step st2 (False, px_deleted c' r)))) (proxyKey c' r) = None" by (simp add: px_proxies)
  moreover have "(s, tv, sk) = listener_step st2 (False, px_deleted c' r)" using assms(9) by (simp add: st1_def st2_def)
  ultimately show ?thesis using 3 by (metis GetProxy_proxyKey fst_conv snd_conv)
qed

theorem colon_client_closes_wrong_port_witness:
  "\<exists>s tv sk. foldl listener_step (NewStateStore ''ip'', NewTCPProvider False, [])
       [(False, px_added ''c'' 80 ''''), (False, px_added ''c:80'' 90 ''''), (False, px_deleted ''c:80'' 90)] = (s, tv, sk) \<and>
     sk = [(''0.0.0.0:80'', False), (''0.0.0.0:90'', True)]"
proof -
  obtain s tv sk where st: "foldl listener_step (NewStateStore ''ip'', NewTCPProvider False, [])
       [(False, px_added ''c'' 80 ''''), (False, px_added ''c:80'' 90 ''''), (False, px_deleted ''c:80'' 90)] = (s, tv, sk)"
    by (metis prod_cases3)
  with colon_client_closes_wrong_port [OF _ _ _ _ _ _ _ _ st] show ?thesis by (simp add: listen_addr_def)
qed

end
