(* ===== verification/Tunnel_Pairing.thy ===== *)
theory Tunnel_Pairing
  imports Handoff
begin

text \<open>
  The tunnels of \<open>BBgrid_Server/session/server.go\<close>: for each connection of a user to a public port the
  accept loop issues a token, registers a channel under it and asks the client to open a tunnel; the tunnel
  that presents the token is joined to the user. A wait ends after sixty seconds or when the server stops,
  and entries older than that are swept with a \<open>nil\<close>.

  Registering, asking the client and starting to wait are one step: what happens between them is not seen by
  the other goroutines except through the channel, which exists from the start. Times are nanoseconds.
\<close>

section \<open>State and operations\<close>

record Tunnels =
  tn_pendingMap :: "(string, nat \<times> int) gomap"
  tn_hf :: handoff
  tn_stopped :: bool

definition no_tunnels :: Tunnels where
  "no_tunnels = \<lparr>tn_pendingMap = [], tn_hf = no_handoff, tn_stopped = False\<rparr>"

definition registerPending :: "string \<Rightarrow> int \<Rightarrow> Tunnels \<Rightarrow> Tunnels" where
  "registerPending token now s = s\<lparr>tn_pendingMap := mput (tn_pendingMap s) token (length (hf_chan (tn_hf s)), now)\<rparr>"

definition unregisterPending :: "string \<Rightarrow> Tunnels \<Rightarrow> Tunnels" where
  "unregisterPending token s = s\<lparr>tn_pendingMap := mdel (tn_pendingMap s) token\<rparr>"

text \<open>One round of the accept loop for the user connection \<open>conn\<close>; \<open>sent\<close> is whether the client could be
  asked.\<close>

definition tunnel_round :: "string \<Rightarrow> int \<Rightarrow> nat \<Rightarrow> bool \<Rightarrow> Tunnels \<Rightarrow> Tunnels" where
  "tunnel_round token now conn sent s =
     (let s1 = registerPending token now s in
      s1\<lparr>tn_hf := (if sent then hf_make token conn (tn_hf s1) else hf_refuse token conn (hf_new token (tn_hf s1)))\<rparr>)"

text \<open>\<open>ack\<close> is whether the acknowledging byte could be written.\<close>

definition AcceptTunnel :: "string \<Rightarrow> nat \<Rightarrow> bool \<Rightarrow> Tunnels \<Rightarrow> Tunnels" where
  "AcceptTunnel token conn ack s =
     (case mget (tn_pendingMap s) token of
        None \<Rightarrow> s\<lparr>tn_hf := hf_refuse token conn (tn_hf s)\<rparr>
      | Some (ch, _) \<Rightarrow>
          s\<lparr>tn_pendingMap := mdel (tn_pendingMap s) token,
            tn_hf := (if ack then hf_offer token ch conn (tn_hf s) else hf_refuse token conn (tn_hf s))\<rparr>)"

definition pending_expiry :: int where
  "pending_expiry = 60 * 1000000000"

text \<open>The sweep holds the lock of the table while it sends: \<open>None\<close> when a send blocks.\<close>

fun cleanup_entries :: "int \<Rightarrow> (string \<times> nat \<times> int) list \<Rightarrow> Tunnels \<Rightarrow> Tunnels option" where
  "cleanup_entries now [] s = Some s"
| "cleanup_entries now ((token, ch, createdAt) # es) s =
     (if pending_expiry < now - createdAt then
        (case hf_send_nil ch (tn_hf s) of
           None \<Rightarrow> None
         | Some h \<Rightarrow> cleanup_entries now es (s\<lparr>tn_hf := h, tn_pendingMap := mdel (tn_pendingMap s) token\<rparr>))
      else cleanup_entries now es s)"

definition cleanupPending :: "int \<Rightarrow> Tunnels \<Rightarrow> Tunnels option" where
  "cleanupPending now s = cleanup_entries now (tn_pendingMap s) s"

definition server_Stop :: "Tunnels \<Rightarrow> Tunnels" where
  "server_Stop s = s\<lparr>tn_stopped := True\<rparr>"

inductive tunnel_step :: "Tunnels \<Rightarrow> Tunnels \<Rightarrow> bool" where
  tn_round: "conn \<notin> fst ` set (hf_log (tn_hf s)) \<Longrightarrow> tunnel_step s (tunnel_round token now conn sent s)"
| tn_accept: "conn \<notin> fst ` set (hf_log (tn_hf s)) \<Longrightarrow> tunnel_step s (AcceptTunnel token conn ack s)"
| tn_send: "tunnel_step s (s\<lparr>tn_hf := hf_deliver i (tn_hf s)\<rparr>)"
| tn_receive: "tunnel_step s (s\<lparr>tn_hf := hf_take i (tn_hf s)\<rparr>)"
| tn_leave: "tunnel_step s (s\<lparr>tn_hf := hf_leave i (tn_hf s)\<rparr>)"
| tn_close: "tunnel_step s (s\<lparr>tn_hf := hf_quit i (tn_hf s)\<rparr>)"
| tn_pipe_end: "tunnel_step s (s\<lparr>tn_hf := hf_pipe_end i (tn_hf s)\<rparr>)"
| tn_sweep: "cleanupPending now s = Some s' \<Longrightarrow> tunnel_step s s'"
| tn_stop: "tunnel_step s (server_Stop s)"

inductive tunnel_reach :: "Tunnels \<Rightarrow> Tunnels \<Rightarrow> bool" for s0 where
  tr_init: "tunnel_reach s0 s0"
| tr_step: "tunnel_reach s0 s \<Longrightarrow> tunnel_step s s' \<Longrightarrow> tunnel_reach s0 s'"

section \<open>Lemmas\<close>

declare map_of_eq_Some_iff [simp del]

definition pend :: "Tunnels \<Rightarrow> string \<rightharpoonup> nat" where
  "pend s token = map_option fst (mget (tn_pendingMap s) token)"

definition tunnel_inv :: "Tunnels \<Rightarrow> bool" where
  "tunnel_inv s \<longleftrightarrow> wf_map (tn_pendingMap s) \<and> reg_inv (pend s) (tn_hf s)"

lemma pend_put: "tn_pendingMap s' = mput (tn_pendingMap s) token (ch, t) \<Longrightarrow> pend s' = (pend s)(token \<mapsto> ch)"
  by (auto simp: pend_def fun_eq_iff)

lemma pend_del: "tn_pendingMap s' = mdel (tn_pendingMap s) token \<Longrightarrow> pend s' = (pend s)(token := None)"
  by (auto simp: pend_def fun_eq_iff)

lemma pend_same: "tn_pendingMap s' = tn_pendingMap s \<Longrightarrow> pend s' = pend s"
  by (simp add: pend_def fun_eq_iff)

lemma tunnel_inv_round:
  assumes "tunnel_inv s" "conn \<notin> fst ` set (hf_log (tn_hf s))"
  shows "tunnel_inv (tunnel_round token now conn sent s)"
proof -
  let ?s = "tunnel_round token now conn sent s"
  have p: "pend ?s = (pend s)(token \<mapsto> length (hf_chan (tn_hf s)))"
    by (rule pend_put [where t = now]) (simp add: tunnel_round_def registerPending_def Let_def)
  have "reg_inv (pend ?s) (hf_make token conn (tn_hf s))" unfolding p using assms by (intro reg_inv_make) (simp_all add: tunnel_inv_def)
  moreover have "reg_inv (pend ?s) (hf_refuse token conn (hf_new token (tn_hf s)))"
    unfolding p using assms by (intro reg_inv_refuse reg_inv_new) (simp_all add: tunnel_inv_def)
  moreover have "tn_hf ?s = (if sent then hf_make token conn (tn_hf s) else hf_refuse token conn (hf_new token (tn_hf s)))"
    by (simp add: tunnel_round_def registerPending_def Let_def)
  moreover have "wf_map (tn_pendingMap ?s)" using assms(1) by (simp add: tunnel_inv_def tunnel_round_def registerPending_def Let_def)
  ultimately show ?thesis by (cases sent) (simp_all add: tunnel_inv_def)
qed

lemma tunnel_inv_AcceptTunnel:
  assumes "tunnel_inv s" "conn \<notin> fst ` set (hf_log (tn_hf s))"
  shows "tunnel_inv (AcceptTunnel token conn ack s)"
proof (cases "mget (tn_pendingMap s) token")
  case None
  then have "pend (AcceptTunnel token conn ack s) = pend s" by (intro pend_same) (simp add: AcceptTunnel_def)
  then show ?thesis using assms None reg_inv_refuse by (simp add: tunnel_inv_def) (simp add: AcceptTunnel_def)
next
  case (Some e)
  then obtain ch t where e: "mget (tn_pendingMap s) token = Some (ch, t)" by (cases e) simp
  have p: "pend (AcceptTunnel token conn ack s) = (pend s)(token := None)" by (rule pend_del) (simp add: AcceptTunnel_def e)
  have r: "reg_inv (pend s) (tn_hf s)" and ch: "pend s token = Some ch" using assms(1) by (simp_all add: tunnel_inv_def pend_def e)
  have "reg_inv ((pend s)(token := None)) (hf_offer token ch conn (tn_hf s))" by (rule reg_inv_offer [OF r ch assms(2)])
  moreover have "reg_inv ((pend s)(token := None)) (hf_refuse token conn (tn_hf s))"
    by (rule reg_inv_refuse [OF reg_inv_less [OF r] assms(2)]) (simp split: if_splits)
  ultimately show ?thesis using assms(1) by (simp add: tunnel_inv_def p) (simp add: AcceptTunnel_def e)
qed

text \<open>The sweep goes through.\<close>

lemma cleanup_entries_ok:
  assumes "tunnel_inv s" "distinct (map fst es)" "\<And>token ch t. (token, ch, t) \<in> set es \<Longrightarrow> mget (tn_pendingMap s) token = Some (ch, t)"
  shows "\<exists>s'. cleanup_entries now es s = Some s' \<and> tunnel_inv s' \<and> hf_log (tn_hf s') = hf_log (tn_hf s)"
  using assms
proof (induction es arbitrary: s)
  case (Cons e es)
  obtain token ch t where e: "e = (token, ch, t)" by (cases e) auto
  have m: "mget (tn_pendingMap s) token = Some (ch, t)" using Cons.prems(3) e by simp
  show ?case
  proof (cases "pending_expiry < now - t")
    case False
    then show ?thesis using Cons e by simp
  next
    case True
    have r: "reg_inv (pend s) (tn_hf s)" and ch: "pend s token = Some ch" using Cons.prems(1) by (simp_all add: tunnel_inv_def pend_def m)
    from reg_inv_send_nil [OF r ch] obtain h where h: "hf_send_nil ch (tn_hf s) = Some h" "reg_inv ((pend s)(token := None)) h" by blast
    let ?s = "s\<lparr>tn_hf := h, tn_pendingMap := mdel (tn_pendingMap s) token\<rparr>"
    have "pend ?s = (pend s)(token := None)" by (rule pend_del) simp
    then have "tunnel_inv ?s" using h(2) Cons.prems(1) by (simp add: tunnel_inv_def)
    moreover have "token \<notin> fst ` set es" using Cons.prems(2) e by simp
    then have "\<And>u c x. (u, c, x) \<in> set es \<Longrightarrow> mget (tn_pendingMap ?s) u = Some (c, x)"
      using Cons.prems(3) by (auto simp: e) (metis fst_conv image_eqI)+
    ultimately obtain s' where "cleanup_entries now es ?s = Some s'" "tunnel_inv s'" "hf_log (tn_hf s') = hf_log (tn_hf ?s)"
      using Cons.IH [of ?s] Cons.prems(2) by auto
    then show ?thesis using True e h(1) hf_send_nil_keeps [OF h(1)] by simp
  qed
qed simp

lemma cleanupPending_ok:
  assumes "tunnel_inv s"
  shows "\<exists>s'. cleanupPending now s = Some s' \<and> tunnel_inv s' \<and> hf_log (tn_hf s') = hf_log (tn_hf s)"
proof -
  have wf: "wf_map (tn_pendingMap s)" using assms by (simp add: tunnel_inv_def)
  then show ?thesis unfolding cleanupPending_def
    by (intro cleanup_entries_ok [OF assms]) (simp_all add: mget_in_set)
qed

lemma tunnel_inv_hf: "tunnel_inv s \<Longrightarrow> reg_inv (pend s) h \<Longrightarrow> tunnel_inv (s\<lparr>tn_hf := h\<rparr>)"
  using pend_same [of "s\<lparr>tn_hf := h\<rparr>" s] by (simp add: tunnel_inv_def)

lemma tunnel_inv_step: "tunnel_step s s' \<Longrightarrow> tunnel_inv s \<Longrightarrow> tunnel_inv s'"
proof (induction rule: tunnel_step.induct)
  case (tn_sweep now s s')
  then show ?case using cleanupPending_ok [of s now] by auto
next
  case (tn_stop s)
  then show ?case using pend_same [of "server_Stop s" s] by (simp add: tunnel_inv_def server_Stop_def)
qed (simp_all add: tunnel_inv_round tunnel_inv_AcceptTunnel, (rule tunnel_inv_hf, assumption, rule reg_inv_moves, simp add: tunnel_inv_def)+)

lemma tunnel_inv_reach: "tunnel_reach s0 s \<Longrightarrow> tunnel_inv s0 \<Longrightarrow> tunnel_inv s"
  by (induction rule: tunnel_reach.induct) (auto dest: tunnel_inv_step)

lemma tunnel_inv_start: "tunnel_inv no_tunnels"
proof -
  have "pend no_tunnels = Map.empty" by (simp add: pend_def fun_eq_iff no_tunnels_def)
  then show ?thesis using reg_inv_start by (simp add: tunnel_inv_def) (simp add: no_tunnels_def)
qed

section \<open>Properties\<close>


text \<open>A user whose client answers in time gets the tunnel: the tunnel that presents the token issued for the
  user's connection is joined to that connection.\<close>

theorem tunnel_joined_to_user:
  assumes "tunnel_inv s" and "user \<notin> fst ` set (hf_log (tn_hf s))" and "conn \<notin> fst ` set (hf_log (tn_hf s))" and "user \<noteq> conn"
    and "s2 = AcceptTunnel token conn True (tunnel_round token now user True s)"
  shows "tunnel_inv s2 \<and>
     (user, conn) \<in> set (hf_pairs (hf_take (length (hf_wait (tn_hf s))) (hf_deliver (length (hf_send (tn_hf s))) (tn_hf s2)))) \<and>
     mget (tn_pendingMap s2) token = None"
proof -
  have "tunnel_inv s2" unfolding assms(5)
    by (rule tunnel_inv_AcceptTunnel [OF tunnel_inv_round [OF assms(1,2)]])
      (use assms(3,4) in \<open>simp add: tunnel_round_def registerPending_def Let_def\<close>)
  moreover have "tn_hf s2 = hf_offer token (length (hf_chan (tn_hf s))) conn (hf_make token user (tn_hf s))" "mget (tn_pendingMap s2) token = None"
    by (simp_all add: assms(5) AcceptTunnel_def tunnel_round_def registerPending_def Let_def)
  ultimately show ?thesis by (simp add: hf_offer_def hf_make_def hf_deliver_def hf_take_def nth_append)
qed

theorem tunnel_joined_to_user_witness:
  "(1, 2) \<in> set (hf_pairs (hf_take 0 (hf_deliver 0 (tn_hf (AcceptTunnel ''t'' 2 True (tunnel_round ''t'' 0 1 True no_tunnels))))))"
  using tunnel_joined_to_user [OF tunnel_inv_start, of 1 2 _ "''t''" 0, OF _ _ _ refl] by (simp add: no_tunnels_def no_handoff_def)

definition sample_tunnel :: Tunnels where
  "sample_tunnel = (let s2 = AcceptTunnel ''t'' 2 True (tunnel_round ''t'' 0 1 True no_tunnels); s3 = s2\<lparr>tn_hf := hf_deliver 0 (tn_hf s2)\<rparr> in
     s3\<lparr>tn_hf := hf_take 0 (tn_hf s3)\<rparr>)"

lemma sample_tunnel_reach: "tunnel_reach no_tunnels sample_tunnel"
proof -
  let ?s1 = "tunnel_round ''t'' 0 1 True no_tunnels"
  let ?s2 = "AcceptTunnel ''t'' 2 True ?s1"
  let ?s3 = "?s2\<lparr>tn_hf := hf_deliver 0 (tn_hf ?s2)\<rparr>"
  have 1: "tunnel_step no_tunnels ?s1" by (rule tn_round) (simp add: no_tunnels_def no_handoff_def)
  have 2: "tunnel_step ?s1 ?s2" by (rule tn_accept) (simp add: no_tunnels_def no_handoff_def tunnel_round_def registerPending_def Let_def)
  have "tunnel_reach no_tunnels (?s3\<lparr>tn_hf := hf_take 0 (tn_hf ?s3)\<rparr>)"
    by (rule tr_step [OF tr_step [OF tr_step [OF tr_step [OF tr_init 1] 2] tn_send] tn_receive])
  then show ?thesis by (simp add: sample_tunnel_def Let_def)
qed


text \<open>A tunnel that comes after the user's wait has timed out, while the entry of the token is still in the
  table, is acknowledged and then forgotten: nobody ever joins or closes it.\<close>

theorem late_tunnel_stranded:
  assumes "s1 = tunnel_round token now user True no_tunnels" and "user \<noteq> conn"
    and "s2 = AcceptTunnel token conn True (s1\<lparr>tn_hf := hf_quit 0 (hf_leave 0 (tn_hf s1))\<rparr>)"
    and "tunnel_reach (s2\<lparr>tn_hf := hf_deliver 0 (tn_hf s2)\<rparr>) s"
  shows "conn \<in> fst ` set (hf_log (tn_hf s)) \<and> conn \<notin> set (hf_closed (tn_hf s)) \<and>
     (\<forall>c. (conn, c) \<notin> set (hf_pairs (tn_hf s)) \<and> (c, conn) \<notin> set (hf_pairs (tn_hf s)))"
proof -
  let ?s = "s2\<lparr>tn_hf := hf_deliver 0 (tn_hf s2)\<rparr>"
  have i1: "tunnel_inv s1" unfolding assms(1) by (rule tunnel_inv_round [OF tunnel_inv_start]) (simp add: no_tunnels_def no_handoff_def)
  then have "tunnel_inv (s1\<lparr>tn_hf := hf_quit 0 (hf_leave 0 (tn_hf s1))\<rparr>)"
    by (intro tunnel_inv_hf [OF i1] reg_inv_moves) (simp add: tunnel_inv_def)
  then have i2: "tunnel_inv s2" unfolding assms(3)
    by (rule tunnel_inv_AcceptTunnel) (use assms(2) in \<open>simp add: assms(1) tunnel_round_def registerPending_def no_tunnels_def no_handoff_def\<close>)
  then have inv0: "tunnel_inv ?s" by (intro tunnel_inv_hf [OF i2] reg_inv_moves) (simp add: tunnel_inv_def)
  have st0: "stranded 0 conn (tn_hf ?s)"
    unfolding assms(3) assms(1)
    by (simp add: AcceptTunnel_def tunnel_round_def registerPending_def no_tunnels_def no_handoff_def hf_make_def hf_offer_def
        hf_deliver_def hf_leave_def hf_quit_def drop_nth_def stranded_def Let_def)
  have sweep: "stranded 0 conn (tn_hf q) \<Longrightarrow> cleanup_entries t es q = Some q' \<Longrightarrow> stranded 0 conn (tn_hf q')" for t es q q'
    by (induction t es q rule: cleanup_entries.induct) (auto split: if_splits option.splits dest: stranded_send_nil)
  have step: "stranded 0 conn (tn_hf q) \<Longrightarrow> tunnel_step q q' \<Longrightarrow> stranded 0 conn (tn_hf q')" for q q'
    by (erule tunnel_step.cases)
      (auto simp: AcceptTunnel_def tunnel_round_def registerPending_def cleanupPending_def server_Stop_def Let_def intro: stranded_ops sweep
        split: option.split prod.split)
  from assms(4) have st: "stranded 0 conn (tn_hf s)"
  proof (induction rule: tunnel_reach.induct)
    case tr_init
    show ?case by (rule st0)
  qed (rule step)
  then show ?thesis using reg_inv_stranded [OF _ st] tunnel_inv_reach [OF assms(4) inv0] by (auto simp: tunnel_inv_def)
qed

theorem late_tunnel_stranded_witness:
  "let s1 = tunnel_round ''t'' 0 1 True no_tunnels; s2 = AcceptTunnel ''t'' 2 True (s1\<lparr>tn_hf := hf_quit 0 (hf_leave 0 (tn_hf s1))\<rparr>);
       s = s2\<lparr>tn_hf := hf_deliver 0 (tn_hf s2)\<rparr> in
   2 \<in> fst ` set (hf_log (tn_hf s)) \<and> 2 \<notin> set (hf_closed (tn_hf s))"
  using late_tunnel_stranded [OF refl _ refl tr_init, of 1 2 "''t''" 0] by (simp add: Let_def)

end
