(* ===== verification/Session_Server.thy ===== *)
theory Session_Server
  imports Auth_Manager Relay_Plugin Proxy_Plugin Tunnel_Pairing
begin

text \<open>
  \<open>BBgrid_Server/session/server.go\<close>: the websocket sessions of the clients over the core, the registry and
  the proxy provider.

  A session is a pointer: an index into the list of the sessions the server ever made. The queue of a session
  holds messages before they are serialised; a full queue makes \<open>WriteJSON\<close> time out (a writer that frees a
  place within the three seconds is a write that happens later). Identifiers, clocks, the parsing of
  timestamps and the outcome of file writes are arguments. The websocket itself, read limits and deadlines are
  not modelled: a message arrives, or the reader ends and closes the session.
\<close>

section \<open>State\<close>

record Session =
  ses_clientID :: string
  ses_send :: "WSMessage list"
  ses_done :: bool
  ses_registered :: bool
  ses_isTemp :: bool
  ses_remoteAddr :: string
  ses_host :: string
  ses_connectedAt :: int
  ses_lastPingAt :: int
  ses_latency :: int

record Server =
  srv_core :: Core
  srv_auth :: Manager
  srv_provider :: "TCPProvider option"
  srv_tunnelPort :: int
  srv_heap :: "Session list"
  srv_sessions :: "(string, nat) gomap"
  srv_tracked :: "(nat \<times> string) list"
  srv_pendingRelaySignal :: "(string, WSMessage list) gomap"
  srv_activeLoops :: "(string, unit) gomap"
  srv_loops :: "(string \<times> nat) list"

definition NewServer :: "Core \<Rightarrow> int \<Rightarrow> Manager \<Rightarrow> TCPProvider option \<Rightarrow> Server" where
  "NewServer core tunnelPort authManager provider = \<lparr>srv_core = core, srv_auth = authManager, srv_provider = provider,
     srv_tunnelPort = tunnelPort, srv_heap = [], srv_sessions = [], srv_tracked = [], srv_pendingRelaySignal = [],
     srv_activeLoops = [], srv_loops = []\<rparr>"

definition NewSession :: "string \<Rightarrow> bool \<Rightarrow> string \<Rightarrow> int \<Rightarrow> Session" where
  "NewSession clientID isTemp remoteAddr now = \<lparr>ses_clientID = clientID, ses_send = [], ses_done = False, ses_registered = False,
     ses_isTemp = isTemp, ses_remoteAddr = remoteAddr, ses_host = '''', ses_connectedAt = now, ses_lastPingAt = 0, ses_latency = 0\<rparr>"

definition upd_ses :: "nat \<Rightarrow> (Session \<Rightarrow> Session) \<Rightarrow> Server \<Rightarrow> Server" where
  "upd_ses i f s = s\<lparr>srv_heap := (srv_heap s)[i := f (srv_heap s ! i)]\<rparr>"

section \<open>Writing to a session\<close>

definition sendCap :: nat where
  "sendCap = 256"

definition WriteJSON :: "nat \<Rightarrow> WSMessage \<Rightarrow> Server \<Rightarrow> string option \<times> Server" where
  "WriteJSON i msg s =
     (if length (ses_send (srv_heap s ! i)) < sendCap
      then (None, upd_ses i (\<lambda>x. x\<lparr>ses_send := ses_send x @ [msg]\<rparr>) s)
      else (Some ''send timeout'', s))"

definition sendError :: "nat \<Rightarrow> int \<Rightarrow> string \<Rightarrow> Server \<Rightarrow> Server" where
  "sendError i code message s =
     snd (WriteJSON i \<lparr>ws_Type = ''error'', ws_Data = AnyMap [(''code'', AnyInt code), (''message'', AnyStr message)]\<rparr> s)"

definition SendToClient :: "string \<Rightarrow> WSMessage \<Rightarrow> Server \<Rightarrow> string option \<times> Server" where
  "SendToClient clientID msg s =
     (case mget (srv_sessions s) clientID of
        None \<Rightarrow> (Some (''client not found: '' @ clientID), s)
      | Some i \<Rightarrow> WriteJSON i msg s)"

text \<open>One round of \<open>writePump\<close> that takes a message.\<close>

definition writePump_take :: "nat \<Rightarrow> Server \<Rightarrow> WSMessage option \<times> Server" where
  "writePump_take i s =
     (case ses_send (srv_heap s ! i) of
        [] \<Rightarrow> (None, s)
      | msg # rest \<Rightarrow> (Some msg, upd_ses i (\<lambda>x. x\<lparr>ses_send := rest\<rparr>) s))"

section \<open>Events of a client\<close>

definition client_key :: "string \<Rightarrow> ResourceKey" where
  "client_key clientID = \<lparr>rk_Type = ResourceTypeClient, rk_Namespace = NamespaceDefault, rk_Name = clientID\<rparr>"

definition newClientEvent :: "string \<Rightarrow> int \<Rightarrow> string \<Rightarrow> string \<Rightarrow> string \<Rightarrow> GenericEvent" where
  "newClientEvent gid t clientID remoteAddr host = NewGenericEvent gid t (client_key clientID) EventAdded
     (AnyMap [(''remote_addr'', AnyStr remoteAddr), (''host'', AnyStr host)])"

text \<open>\<open>Milliseconds\<close> truncates towards zero.\<close>

definition newClientModifiedEvent :: "string \<Rightarrow> int \<Rightarrow> string \<Rightarrow> int \<Rightarrow> GenericEvent" where
  "newClientModifiedEvent gid t clientID latency = NewGenericEvent gid t (client_key clientID) EventModified
     (AnyMap [(''latency'', AnyInt64 (sgn latency * (\<bar>latency\<bar> div 1000000)))])"

definition newClientDeletedEvent :: "string \<Rightarrow> int \<Rightarrow> string \<Rightarrow> GenericEvent" where
  "newClientDeletedEvent gid t clientID = NewGenericEvent gid t (client_key clientID) EventDeleted AnyNil"

section \<open>Messages of a client\<close>

text \<open>What both registrations do once they are accepted.\<close>

definition registered_msg :: "string \<Rightarrow> string \<Rightarrow> WSMessage" where
  "registered_msg clientID serverHost = \<lparr>ws_Type = ''registered'', ws_Data = AnyMap [(''client_id'', AnyStr clientID), (''server_host'', AnyStr serverHost)]\<rparr>"

definition complete_register :: "save_outcome \<Rightarrow> string \<Rightarrow> int \<Rightarrow> int \<Rightarrow> nat \<Rightarrow> string \<Rightarrow> string \<Rightarrow> Server \<Rightarrow> Server" where
  "complete_register o' gid t now i ns host s =
     (let clientID = ses_clientID (srv_heap s ! i);
          k1 = core_Publish (newClientEvent gid t clientID (ses_remoteAddr (srv_heap s ! i)) host) (srv_core s);
          k2 = k1\<lparr>co_stateStore := SetClientConn (co_stateStore k1) now clientID i\<rparr>;
          s1 = s\<lparr>srv_core := k2, srv_auth := snd (SetClientNamespace o' clientID ns ''node'' (srv_auth s))\<rparr>;
          s2 = snd (WriteJSON i (registered_msg clientID (ss_publicIP (co_stateStore k2))) s1) in
      upd_ses i (\<lambda>x. x\<lparr>ses_registered := True\<rparr>) s2)"

definition handleRegister :: "save_outcome \<Rightarrow> string \<Rightarrow> int \<Rightarrow> int \<Rightarrow> nat \<Rightarrow> any \<Rightarrow> Server \<Rightarrow> Server" where
  "handleRegister o' gid t now i data s =
     (case data of
        AnyMap regData \<Rightarrow>
          let token = str_or '''' regData ''token''; clientID = str_or '''' regData ''client_id''; ses = srv_heap s ! i in
          if token = '''' \<or> clientID = '''' then sendError i 400 ''missing token or client_id'' s
          else if \<not> ValidateClientToken (srv_auth s) token then sendError i 401 ''invalid token'' s
          else if \<not> ses_isTemp ses \<and> ses_clientID ses \<noteq> '''' \<and> ses_clientID ses \<noteq> clientID
            then sendError i 403 ''client_id does not match certificate'' s
          else
            let host = str_or '''' regData ''host'' in
            complete_register o' gid t now i (if ses_isTemp ses then ''temporary'' else ''permanent'') host
              (upd_ses i (\<lambda>x. x\<lparr>ses_clientID := clientID, ses_host := host\<rparr>) s)
      | _ \<Rightarrow> s)"

definition handleTempRegister :: "save_outcome \<Rightarrow> string \<Rightarrow> int \<Rightarrow> int \<Rightarrow> nat \<Rightarrow> any \<Rightarrow> Server \<Rightarrow> Server" where
  "handleTempRegister o' gid t now i data s =
     (case data of
        AnyMap regData \<Rightarrow>
          let token = str_or '''' regData ''token''; clientID = str_or '''' regData ''client_id'' in
          if token = '''' \<or> clientID = '''' then sendError i 400 ''missing token or client_id'' s
          else if \<not> ValidateClientToken (srv_auth s) token then sendError i 401 ''invalid token'' s
          else complete_register o' gid t now i ''temporary'' '''' (upd_ses i (\<lambda>x. x\<lparr>ses_clientID := clientID\<rparr>) s)
      | _ \<Rightarrow> s)"

text \<open>\<open>parse\<close> is \<open>time.Parse\<close> with the layout RFC3339Nano, in nanoseconds.\<close>

definition handlePong :: "(string \<Rightarrow> int option) \<Rightarrow> string \<Rightarrow> int \<Rightarrow> int \<Rightarrow> nat \<Rightarrow> any \<Rightarrow> Server \<Rightarrow> Server" where
  "handlePong parse gid t now i data s =
     (case data of
        AnyMap pongData \<Rightarrow>
          (case get_str pongData ''timestamp'' of
             None \<Rightarrow> s
           | Some tsStr \<Rightarrow>
               (case parse tsStr of
                  None \<Rightarrow> s
                | Some ts \<Rightarrow>
                    let s1 = upd_ses i (\<lambda>x. x\<lparr>ses_latency := now - ts, ses_lastPingAt := now\<rparr>) s in
                    s1\<lparr>srv_core := core_Publish (newClientModifiedEvent gid t (ses_clientID (srv_heap s ! i)) (now - ts)) (srv_core s1)\<rparr>))
      | _ \<Rightarrow> s)"

definition handleMessage ::
  "(string \<Rightarrow> int option) \<Rightarrow> save_outcome \<Rightarrow> string \<Rightarrow> int \<Rightarrow> int \<Rightarrow> nat \<Rightarrow> WSMessage \<Rightarrow> Server \<Rightarrow> Server" where
  "handleMessage parse o' gid t now i msg s =
     (if ws_Type msg = ''register'' then handleRegister o' gid t now i (ws_Data msg) s
      else if ws_Type msg = ''temp_register'' then handleTempRegister o' gid t now i (ws_Data msg) s
      else if ws_Type msg = ''pong'' then handlePong parse gid t now i (ws_Data msg) s
      else s)"

definition session_Close :: "string \<Rightarrow> int \<Rightarrow> nat \<Rightarrow> Server \<Rightarrow> Server" where
  "session_Close gid t i s =
     (let ses = srv_heap s ! i in
      if ses_done ses then s
      else
        let s1 = upd_ses i (\<lambda>x. x\<lparr>ses_done := True\<rparr>) s in
        if ses_clientID ses \<noteq> '''' then s1\<lparr>srv_core := core_Publish (newClientDeletedEvent gid t (ses_clientID ses)) (srv_core s1)\<rparr> else s1)"

section \<open>Tunnel loops\<close>

text \<open>The accept loop of a proxy: the key it is marked with and its listener.\<close>

definition startTunnelLoop :: "ProxyState \<Rightarrow> Server \<Rightarrow> Server" where
  "startTunnelLoop proxy s =
     (let key = proxyKey (ps_ClientID proxy) (ps_RemotePort proxy) in
      if mget (srv_activeLoops s) key \<noteq> None then s
      else
        let s1 = s\<lparr>srv_activeLoops := mput (srv_activeLoops s) key ()\<rparr> in
        case srv_provider s of
          None \<Rightarrow> s1
        | Some provider \<Rightarrow>
            (case GetListener provider (ps_ClientID proxy) (ps_RemotePort proxy) of
               None \<Rightarrow> s1
             | Some ln \<Rightarrow> s1\<lparr>srv_loops := srv_loops s1 @ [(key, ln)]\<rparr>))"

text \<open>The end of a loop, when its listener is closed or the server stops.\<close>

definition tunnel_loop_end :: "nat \<Rightarrow> Server \<Rightarrow> Server" where
  "tunnel_loop_end j s =
     (if j < length (srv_loops s) then
        s\<lparr>srv_loops := drop_nth j (srv_loops s), srv_activeLoops := mdel (srv_activeLoops s) (fst (srv_loops s ! j))\<rparr>
      else s)"

section \<open>Synchronising a client\<close>

definition omit_str :: "string \<Rightarrow> string \<Rightarrow> (string \<times> any) list" where
  "omit_str k v = (if v = '''' then [] else [(k, AnyStr v)])"

definition omit_int :: "string \<Rightarrow> int \<Rightarrow> (string \<times> any) list" where
  "omit_int k v = (if v = 0 then [] else [(k, AnyInt v)])"

definition proxy_msg :: "ProxyState \<Rightarrow> string \<Rightarrow> int \<Rightarrow> WSMessage" where
  "proxy_msg p serverHost tunnelPort = \<lparr>ws_Type = ''proxy'', ws_Data = AnyMap ([(''request_id'', AnyStr '''')] @
     omit_int ''remote_port'' (ps_RemotePort p) @ omit_int ''local_port'' (ps_LocalPort p) @ omit_str ''protocol'' (ps_Protocol p) @
     omit_str ''bind_addr'' (ps_BindAddr p) @ omit_str ''server_host'' serverHost @ omit_int ''tunnel_port'' tunnelPort @
     omit_str ''local_ip'' (ps_LocalIP p))\<rparr>"

definition proxy_of_info :: "ProxyInfo \<Rightarrow> ProxyState" where
  "proxy_of_info p = \<lparr>ps_ClientID = pi_ClientID p, ps_RemotePort = pi_RemotePort p, ps_LocalPort = pi_LocalPort p,
     ps_LocalIP = pi_LocalIP p, ps_Protocol = pi_Protocol p, ps_BindAddr = pi_BindAddr p\<rparr>"

definition publicIP :: "Server \<Rightarrow> string" where
  "publicIP s = ss_publicIP (co_stateStore (srv_core s))"

definition notifyProxyClient :: "ProxyState \<Rightarrow> Server \<Rightarrow> Server" where
  "notifyProxyClient proxy s = snd (SendToClient (ps_ClientID proxy) (proxy_msg proxy (publicIP s) (srv_tunnelPort s)) s)"

definition sync_proxy :: "ProxyInfo \<Rightarrow> Server \<Rightarrow> Server" where
  "sync_proxy p s = startTunnelLoop (proxy_of_info p) (notifyProxyClient (proxy_of_info p) s)"

definition syncClientProxies :: "string \<Rightarrow> Server \<Rightarrow> Server" where
  "syncClientProxies clientID s =
     fold sync_proxy (filter (\<lambda>p. pi_ClientID p = clientID) (ListProxies (co_stateStore (srv_core s)))) s"

definition sync_relay :: "string \<Rightarrow> RelaySession \<Rightarrow> Server \<Rightarrow> Server" where
  "sync_relay clientID relay s =
     (let (role, peer) = (if rs_TargetClient relay = clientID then (''target'', rs_SourceClient relay) else (''source'', rs_TargetClient relay)) in
      snd (SendToClient clientID \<lparr>ws_Type = ''relay_signal'', ws_Data = relay_data role peer (publicIP s) relay\<rparr> s))"

definition syncClientRelays :: "string \<Rightarrow> Server \<Rightarrow> Server" where
  "syncClientRelays clientID s =
     fold (sync_relay clientID)
       (filter (\<lambda>r. rs_SourceClient r = clientID \<or> rs_TargetClient r = clientID) (ListRelaySessions (co_stateStore (srv_core s)))) s"

definition deliverPendingRelaySignals :: "string \<Rightarrow> Server \<Rightarrow> Server" where
  "deliverPendingRelaySignals clientID s =
     fold (\<lambda>msg s. snd (SendToClient clientID msg s)) (mget_or [] (srv_pendingRelaySignal s) clientID)
       (s\<lparr>srv_pendingRelaySignal := mdel (srv_pendingRelaySignal s) clientID\<rparr>)"

text \<open>\<open>Handle\<close> and \<open>HandleTemp\<close> make a session (with the common name of the client certificate, if there is
  one); \<open>trackSession\<close> goes on when the session is registered, or after thirty seconds, and again when it is
  done, where the deferred deletion runs.\<close>

definition Handle :: "string \<Rightarrow> string \<Rightarrow> int \<Rightarrow> Server \<Rightarrow> Server" where
  "Handle certName remoteAddr now s = s\<lparr>srv_heap := srv_heap s @ [NewSession certName False remoteAddr now]\<rparr>"

definition HandleTemp :: "string \<Rightarrow> int \<Rightarrow> Server \<Rightarrow> Server" where
  "HandleTemp remoteAddr now s = s\<lparr>srv_heap := srv_heap s @ [NewSession '''' True remoteAddr now]\<rparr>"

definition track_known :: "nat \<Rightarrow> Server \<Rightarrow> Server" where
  "track_known i s =
     (let clientID = ses_clientID (srv_heap s ! i) in
      if clientID = '''' then s
      else deliverPendingRelaySignals clientID (syncClientRelays clientID (syncClientProxies clientID
        (s\<lparr>srv_sessions := mput (srv_sessions s) clientID i, srv_tracked := srv_tracked s @ [(i, clientID)]\<rparr>))))"

definition track_timeout :: "string \<Rightarrow> int \<Rightarrow> nat \<Rightarrow> Server \<Rightarrow> Server" where
  "track_timeout gid t i s = (if ses_clientID (srv_heap s ! i) = '''' then session_Close gid t i s else track_known i s)"

definition track_end :: "nat \<Rightarrow> Server \<Rightarrow> Server" where
  "track_end j s =
     (if j < length (srv_tracked s) then
        s\<lparr>srv_tracked := drop_nth j (srv_tracked s), srv_sessions := mdel (srv_sessions s) (snd (srv_tracked s ! j))\<rparr>
      else s)"

section \<open>Proxy events\<close>

text \<open>\<open>strconv.Atoi\<close>: an optional sign and digits, within 64 bits.\<close>

definition Atoi :: "string \<Rightarrow> int option" where
  "Atoi str =
     (let (neg, ds) = scan_sign str; v = (if neg then - int (undigits ds) else int (undigits ds)) in
      if ds = '''' \<or> \<not> list_all (\<lambda>c. c \<in> set ''0123456789'') ds \<or> v < - (2 ^ 63) \<or> 2 ^ 63 \<le> v then None else Some v)"

definition session_parseProxyResourceKey :: "string \<Rightarrow> (string \<times> int) option" where
  "session_parseProxyResourceKey key =
     (case cut_at CHR '':'' key of
        None \<Rightarrow> None
      | Some (clientID, portText) \<Rightarrow>
          if clientID = '''' \<or> portText = '''' then None
          else map_option (\<lambda>port. (clientID, port)) (Atoi portText))"

definition proxyClientKey :: "string \<Rightarrow> int \<Rightarrow> string" where
  "proxyClientKey clientID remotePort = clientID @ ''-'' @ fmt_int remotePort"

definition session_handleProxyDeleted :: "GenericEvent \<Rightarrow> Server \<Rightarrow> Server" where
  "session_handleProxyDeleted event s =
     (case session_parseProxyResourceKey (rk_Name (ev_Resource event)) of
        None \<Rightarrow> s
      | Some (clientID, remotePort) \<Rightarrow>
          snd (SendToClient clientID \<lparr>ws_Type = ''proxy_closed'', ws_Data = AnyMap [(''key'', AnyStr (proxyClientKey clientID remotePort))]\<rparr> s))"

definition session_handleProxyAdded :: "GenericEvent \<Rightarrow> Server \<Rightarrow> Server" where
  "session_handleProxyAdded event s =
     (case (case ev_Payload event of AnyProxy proxy \<Rightarrow> Some proxy | AnyMap m \<Rightarrow> Some (parseProxyFromMap m) | _ \<Rightarrow> None) of
        None \<Rightarrow> s
      | Some proxy \<Rightarrow>
          if ps_ClientID proxy = '''' \<or> ps_RemotePort proxy = 0 then s
          else startTunnelLoop proxy (if IsRestoring (srv_core s) then s else notifyProxyClient proxy s))"

definition session_handleProxyEvent :: "GenericEvent \<Rightarrow> Server \<Rightarrow> Server" where
  "session_handleProxyEvent event s =
     (if ev_EventType event = EventAdded then session_handleProxyAdded event s
      else if ev_EventType event = EventDeleted then session_handleProxyDeleted event s
      else s)"

section \<open>Runs of the server\<close>

text \<open>
  Sessions are made, messages arrive, the goroutines of the sessions and of the tunnel loops take their steps,
  proxy events come from the bus, and meanwhile the core and the provider change by themselves.
\<close>

inductive session_step :: "Server \<Rightarrow> Server \<Rightarrow> bool" where
  sv_handle: "session_step s (Handle certName addr now s)"
| sv_handle_temp: "session_step s (HandleTemp addr now s)"
| sv_message: "i < length (srv_heap s) \<Longrightarrow> session_step s (handleMessage parse o' gid t now i msg s)"
| sv_write: "i < length (srv_heap s) \<Longrightarrow> session_step s (snd (writePump_take i s))"
| sv_close: "i < length (srv_heap s) \<Longrightarrow> session_step s (session_Close gid t i s)"
| sv_registered: "i < length (srv_heap s) \<Longrightarrow> ses_registered (srv_heap s ! i) \<Longrightarrow> session_step s (track_known i s)"
| sv_timeout: "i < length (srv_heap s) \<Longrightarrow> session_step s (track_timeout gid t i s)"
| sv_end: "j < length (srv_tracked s) \<Longrightarrow> ses_done (srv_heap s ! fst (srv_tracked s ! j)) \<Longrightarrow> session_step s (track_end j s)"
| sv_event: "session_step s (session_handleProxyEvent e s)"
| sv_loop_end: "session_step s (tunnel_loop_end j s)"

inductive server_step :: "Server \<Rightarrow> Server \<Rightarrow> bool" where
  sv_session: "session_step s s' \<Longrightarrow> server_step s s'"
| sv_core: "server_step s (s\<lparr>srv_core := k\<rparr>)"
| sv_provider: "server_step s (s\<lparr>srv_provider := pv\<rparr>)"

inductive server_reach :: "Server \<Rightarrow> Server \<Rightarrow> bool" for s0 where
  sr_init: "server_reach s0 s0"
| sr_step: "server_reach s0 s \<Longrightarrow> server_step s s' \<Longrightarrow> server_reach s0 s'"

section \<open>Lemmas\<close>

declare map_of_eq_Some_iff [simp del]

text \<open>The tables of the server: sessions point to sessions and leave with the goroutine that tracks them;
  queues are bounded; every running loop is marked and no key has two.\<close>

definition server_inv :: "Server \<Rightarrow> bool" where
  "server_inv s \<longleftrightarrow> (\<forall>x \<in> set (srv_heap s). length (ses_send x) \<le> sendCap) \<and>
     (\<forall>i c. (i, c) \<in> set (srv_tracked s) \<longrightarrow> i < length (srv_heap s) \<and> c \<noteq> '''') \<and>
     (\<forall>c i. mget (srv_sessions s) c = Some i \<longrightarrow> (i, c) \<in> set (srv_tracked s)) \<and>
     distinct (map fst (srv_loops s)) \<and> (\<forall>key \<in> fst ` set (srv_loops s). mget (srv_activeLoops s) key \<noteq> None)"

lemma server_inv_cong:
  assumes "server_inv s" "srv_heap s' = srv_heap s" "srv_tracked s' = srv_tracked s" "srv_sessions s' = srv_sessions s"
    "srv_loops s' = srv_loops s" "srv_activeLoops s' = srv_activeLoops s"
  shows "server_inv s'"
  using assms by (simp add: server_inv_def)

lemma server_inv_upd:
  assumes "server_inv s" "\<And>x. length (ses_send x) \<le> sendCap \<Longrightarrow> length (ses_send (f x)) \<le> sendCap"
  shows "server_inv (upd_ses i f s)"
proof (cases "i < length (srv_heap s)")
  case True
  then have "srv_heap s ! i \<in> set (srv_heap s)" by simp
  then have "length (ses_send (f (srv_heap s ! i))) \<le> sendCap" using assms by (simp add: server_inv_def)
  then show ?thesis using assms(1) by (auto simp: server_inv_def upd_ses_def dest!: set_update_subset_insert [THEN subsetD])
next
  case False
  then have "upd_ses i f s = s" by (simp add: upd_ses_def list_update_beyond)
  then show ?thesis using assms(1) by simp
qed

lemma server_inv_WriteJSON: "server_inv s \<Longrightarrow> server_inv (snd (WriteJSON i msg s))"
proof (cases "length (ses_send (srv_heap s ! i)) < sendCap")
  case True
  assume inv: "server_inv s"
  have "upd_ses i (\<lambda>x. x\<lparr>ses_send := ses_send x @ [msg]\<rparr>) s =
      upd_ses i (\<lambda>x. if length (ses_send x) < sendCap then x\<lparr>ses_send := ses_send x @ [msg]\<rparr> else x) s"
    using True by (simp add: upd_ses_def)
  also have "server_inv \<dots>" by (rule server_inv_upd [OF inv]) auto
  finally show ?thesis using True by (simp add: WriteJSON_def)
qed (simp add: WriteJSON_def)

lemma server_inv_SendToClient: "server_inv s \<Longrightarrow> server_inv (snd (SendToClient c msg s))"
  by (simp add: SendToClient_def server_inv_WriteJSON split: option.split)

lemma server_inv_sendError: "server_inv s \<Longrightarrow> server_inv (sendError i code m s)"
  by (simp add: sendError_def server_inv_WriteJSON)

lemma server_inv_core [simp]: "server_inv (s\<lparr>srv_core := k\<rparr>) = server_inv s"
  by (simp add: server_inv_def)

lemma server_inv_complete: "server_inv s \<Longrightarrow> server_inv (complete_register o' gid t now i ns host s)"
  unfolding complete_register_def Let_def
  by (intro server_inv_upd server_inv_WriteJSON) (simp_all add: server_inv_def)

lemma server_inv_message: "server_inv s \<Longrightarrow> server_inv (handleMessage parse o' gid t now i msg s)"
  unfolding handleMessage_def handleRegister_def handleTempRegister_def handlePong_def Let_def
  by (auto intro!: server_inv_sendError server_inv_complete server_inv_upd split: any.split option.split)

lemma server_inv_write: "server_inv s \<Longrightarrow> server_inv (snd (writePump_take i s))"
proof (cases "ses_send (srv_heap s ! i)")
  case (Cons m rest)
  assume inv: "server_inv s"
  have "upd_ses i (\<lambda>x. x\<lparr>ses_send := rest\<rparr>) s = upd_ses i (\<lambda>x. x\<lparr>ses_send := tl (ses_send x)\<rparr>) s" by (simp add: upd_ses_def Cons)
  also have "server_inv \<dots>" by (rule server_inv_upd [OF inv]) auto
  finally show ?thesis by (simp add: writePump_take_def Cons)
qed (simp add: writePump_take_def)

lemma server_inv_Close: "server_inv s \<Longrightarrow> server_inv (session_Close gid t i s)"
  by (auto simp: session_Close_def Let_def intro!: server_inv_upd)

lemma server_inv_startTunnelLoop: "server_inv s \<Longrightarrow> server_inv (startTunnelLoop p s)"
  by (auto simp: startTunnelLoop_def server_inv_def Let_def split: option.split)

lemma server_inv_fold:
  "server_inv s \<Longrightarrow> (\<And>x s. server_inv s \<Longrightarrow> server_inv (f x s)) \<Longrightarrow> server_inv (fold f xs s)"
  by (induction xs arbitrary: s) simp_all

lemma server_inv_notify: "server_inv s \<Longrightarrow> server_inv (notifyProxyClient p s)"
  by (simp add: notifyProxyClient_def server_inv_SendToClient)

lemma server_inv_sync_proxy: "server_inv s \<Longrightarrow> server_inv (sync_proxy p s)"
  by (simp add: sync_proxy_def server_inv_notify server_inv_startTunnelLoop)

lemma server_inv_sync_relay: "server_inv s \<Longrightarrow> server_inv (sync_relay c r s)"
  by (simp add: sync_relay_def server_inv_SendToClient split: prod.split)

lemma server_inv_deliver: "server_inv s \<Longrightarrow> server_inv (deliverPendingRelaySignals c s)"
  unfolding deliverPendingRelaySignals_def
  by (rule server_inv_fold) (simp_all add: server_inv_SendToClient, simp add: server_inv_def)

lemma server_inv_track:
  assumes "server_inv s" "i < length (srv_heap s)"
  shows "server_inv (track_known i s)"
proof -
  let ?c = "ses_clientID (srv_heap s ! i)"
  have "server_inv (s\<lparr>srv_sessions := mput (srv_sessions s) ?c i, srv_tracked := srv_tracked s @ [(i, ?c)]\<rparr>)" if "?c \<noteq> ''''"
    using assms that by (auto simp: server_inv_def split: if_splits)
  then show ?thesis using assms(1)
    by (auto simp: track_known_def Let_def syncClientProxies_def syncClientRelays_def
        intro!: server_inv_deliver server_inv_fold server_inv_sync_proxy server_inv_sync_relay)
qed

lemma server_inv_end: "server_inv s \<Longrightarrow> server_inv (track_end j s)"
proof (cases "j < length (srv_tracked s)")
  case True
  assume inv: "server_inv s"
  have "(i, c) \<in> set (drop_nth j (srv_tracked s))" if "mget (srv_sessions s) c = Some i" "c \<noteq> snd (srv_tracked s ! j)" for i c
  proof -
    have "(i, c) \<in> set (srv_tracked s)" using inv that(1) by (simp add: server_inv_def)
    then have "(i, c) \<in># add_mset (srv_tracked s ! j) (mset (drop_nth j (srv_tracked s)))" using mset_nth_drop [OF True] by (metis set_mset_mset)
    then have "(i, c) = srv_tracked s ! j \<or> (i, c) \<in> set (drop_nth j (srv_tracked s))" by simp
    then show ?thesis using that(2) by (metis snd_conv)
  qed
  then have k: "mget (mdel (srv_sessions s) (snd (srv_tracked s ! j))) c = Some i \<longrightarrow> (i, c) \<in> set (drop_nth j (srv_tracked s))" for i c
    by simp
  have "(i, c) \<in> set (drop_nth j (srv_tracked s)) \<longrightarrow> i < length (srv_heap s) \<and> c \<noteq> ''''" for i c
    using inv set_drop_nth [of j "srv_tracked s"] unfolding server_inv_def by blast
  with k show ?thesis using inv True unfolding server_inv_def by (simp add: track_end_def del: mget_mdel)
qed (simp add: track_end_def)

lemma server_inv_loop_end: "server_inv s \<Longrightarrow> server_inv (tunnel_loop_end j s)"
proof (cases "j < length (srv_loops s)")
  case True
  assume inv: "server_inv s"
  then have "distinct (map fst (srv_loops s))" by (simp add: server_inv_def)
  note d = distinct_fst_drop [OF this True]
  have "mget (mdel (srv_activeLoops s) (fst (srv_loops s ! j))) key \<noteq> None" if k: "key \<in> fst ` set (drop_nth j (srv_loops s))" for key
  proof -
    have "key \<noteq> fst (srv_loops s ! j)" using k d(2) by blast
    moreover have "key \<in> fst ` set (srv_loops s)" using k set_drop_nth [of j "srv_loops s"] by blast
    then have "mget (srv_activeLoops s) key \<noteq> None" using inv unfolding server_inv_def by blast
    ultimately show ?thesis by simp
  qed
  then show ?thesis using inv True d(1) unfolding server_inv_def by (simp add: tunnel_loop_end_def del: mget_mdel)
qed (simp add: tunnel_loop_end_def)

lemma server_inv_event: "server_inv s \<Longrightarrow> server_inv (session_handleProxyEvent e s)"
  by (auto simp: session_handleProxyEvent_def session_handleProxyAdded_def session_handleProxyDeleted_def
      intro!: server_inv_startTunnelLoop server_inv_notify server_inv_SendToClient split: option.split any.split)

lemma server_inv_session_step: "session_step s s' \<Longrightarrow> server_inv s \<Longrightarrow> server_inv s'"
proof (induction rule: session_step.induct)
  case (sv_handle s certName addr now)
  then show ?case by (auto simp: server_inv_def Handle_def NewSession_def intro: less_SucI)
next
  case (sv_handle_temp s addr now)
  then show ?case by (auto simp: server_inv_def HandleTemp_def NewSession_def intro: less_SucI)
next
  case (sv_timeout i s gid t)
  then show ?case by (simp add: track_timeout_def server_inv_track server_inv_Close)
qed (simp_all add: server_inv_message server_inv_write server_inv_Close server_inv_track server_inv_end server_inv_event server_inv_loop_end)

lemma server_inv_frame [simp]: "server_inv (s\<lparr>srv_provider := pv\<rparr>) = server_inv s" "server_inv (s\<lparr>srv_auth := m\<rparr>) = server_inv s"
  by (simp_all add: server_inv_def)

lemma server_inv_step: "server_step s s' \<Longrightarrow> server_inv s \<Longrightarrow> server_inv s'"
  by (induction rule: server_step.induct) (simp_all add: server_inv_session_step)

lemma server_inv_reach: "server_reach s0 s \<Longrightarrow> server_inv s0 \<Longrightarrow> server_inv s"
  by (induction rule: server_reach.induct) (auto dest: server_inv_step)

lemma server_inv_start: "server_inv (NewServer k p m pv)"
  by (simp add: server_inv_def NewServer_def)

section \<open>Theorems\<close>

text \<open>C15. Over every run of a new server, whatever clients send and in whatever order its goroutines take their
  steps: no send queue exceeds its capacity, the table of sessions only names sessions whose tracking goroutine
  still runs, under a client that is not empty, and every running tunnel loop is marked active, with at most
  one loop per proxy.\<close>

theorem server_run_invariant:
  assumes "server_reach (NewServer core tunnelPort m pv) s"
  shows "(\<forall>x \<in> set (srv_heap s). length (ses_send x) \<le> 256) \<and>
     (\<forall>c i. mget (srv_sessions s) c = Some i \<longrightarrow> i < length (srv_heap s) \<and> c \<noteq> '''' \<and> (i, c) \<in> set (srv_tracked s)) \<and>
     distinct (map fst (srv_loops s)) \<and> (\<forall>key \<in> fst ` set (srv_loops s). mget (srv_activeLoops s) key \<noteq> None)"
proof -
  have "server_inv s" by (rule server_inv_reach [OF assms server_inv_start])
  then show ?thesis unfolding server_inv_def sendCap_def by blast
qed

lemma length_upd_ses [simp]: "length (srv_heap (upd_ses i f s)) = length (srv_heap s)"
  by (simp add: upd_ses_def)

lemma upd_ses_nth [simp]:
  "i < length (srv_heap s) \<Longrightarrow> srv_heap (upd_ses i f s) ! i = f (srv_heap s ! i)"
  "j \<noteq> i \<Longrightarrow> srv_heap (upd_ses i f s) ! j = srv_heap s ! j"
  by (simp_all add: upd_ses_def)

lemma upd_ses_frame [simp]:
  "srv_core (upd_ses i f s) = srv_core s" "srv_auth (upd_ses i f s) = srv_auth s" "srv_sessions (upd_ses i f s) = srv_sessions s"
  "srv_activeLoops (upd_ses i f s) = srv_activeLoops s" "srv_loops (upd_ses i f s) = srv_loops s" "srv_tracked (upd_ses i f s) = srv_tracked s"
  by (simp_all add: upd_ses_def)

lemma WriteJSON_frame [simp]:
  "srv_core (snd (WriteJSON i m s)) = srv_core s" "srv_auth (snd (WriteJSON i m s)) = srv_auth s"
  "srv_sessions (snd (WriteJSON i m s)) = srv_sessions s" "srv_activeLoops (snd (WriteJSON i m s)) = srv_activeLoops s"
  "srv_loops (snd (WriteJSON i m s)) = srv_loops s" "srv_tracked (snd (WriteJSON i m s)) = srv_tracked s"
  "length (srv_heap (snd (WriteJSON i m s))) = length (srv_heap s)"
  by (simp_all add: WriteJSON_def)

text \<open>What a session is, apart from its queue.\<close>

lemma WriteJSON_ses [simp]:
  "ses_clientID (srv_heap (snd (WriteJSON i m s)) ! j) = ses_clientID (srv_heap s ! j)"
  "ses_registered (srv_heap (snd (WriteJSON i m s)) ! j) = ses_registered (srv_heap s ! j)"
  "ses_done (srv_heap (snd (WriteJSON i m s)) ! j) = ses_done (srv_heap s ! j)"
  "ses_isTemp (srv_heap (snd (WriteJSON i m s)) ! j) = ses_isTemp (srv_heap s ! j)"
  "j \<noteq> i \<Longrightarrow> srv_heap (snd (WriteJSON i m s)) ! j = srv_heap s ! j"
  by (cases "j = i"; cases "i < length (srv_heap s)"; simp add: WriteJSON_def upd_ses_def list_update_beyond)+

lemma sendError_frame [simp]:
  "srv_core (sendError i c m s) = srv_core s" "srv_auth (sendError i c m s) = srv_auth s"
  "length (srv_heap (sendError i c m s)) = length (srv_heap s)"
  "ses_clientID (srv_heap (sendError i c m s) ! j) = ses_clientID (srv_heap s ! j)"
  "ses_registered (srv_heap (sendError i c m s) ! j) = ses_registered (srv_heap s ! j)"
  "j \<noteq> i \<Longrightarrow> srv_heap (sendError i c m s) ! j = srv_heap s ! j"
  by (simp_all add: sendError_def)

lemma complete_register_heap:
  assumes "i < length (srv_heap s)"
  shows "ses_clientID (srv_heap (complete_register o' gid t now i ns host s) ! i) = ses_clientID (srv_heap s ! i)"
    "ses_registered (srv_heap (complete_register o' gid t now i ns host s) ! i)"
    "j \<noteq> i \<Longrightarrow> srv_heap (complete_register o' gid t now i ns host s) ! j = srv_heap s ! j"
    "length (srv_heap (complete_register o' gid t now i ns host s)) = length (srv_heap s)"
  using assms by (simp_all add: complete_register_def Let_def)

lemma complete_register_core:
  "srv_core (complete_register o' gid t now i ns host s) =
     (let c = ses_clientID (srv_heap s ! i); k = core_Publish (newClientEvent gid t c (ses_remoteAddr (srv_heap s ! i)) host) (srv_core s) in
      k\<lparr>co_stateStore := SetClientConn (co_stateStore k) now c i\<rparr>)"
  by (simp add: complete_register_def Let_def)

text \<open>The two messages that register, with what they require.\<close>

definition register_accepted :: "Server \<Rightarrow> nat \<Rightarrow> WSMessage \<Rightarrow> string \<Rightarrow> bool" where
  "register_accepted s i msg c \<longleftrightarrow>
     (case ws_Data msg of
        AnyMap d \<Rightarrow> c \<noteq> '''' \<and> str_or '''' d ''client_id'' = c \<and> str_or '''' d ''token'' \<noteq> '''' \<and>
          str_or '''' d ''token'' = cfg_ClientToken (am_config (srv_auth s)) \<and>
          (ws_Type msg = ''temp_register'' \<or>
           ws_Type msg = ''register'' \<and> (ses_isTemp (srv_heap s ! i) \<or> ses_clientID (srv_heap s ! i) \<in> {'''', c}))
      | _ \<Rightarrow> False)"

lemma register_accepted_map: "register_accepted s i msg c \<Longrightarrow> \<exists>d. ws_Data msg = AnyMap d"
  by (cases "ws_Data msg") (simp_all add: register_accepted_def)

lemma register_refused:
  assumes "\<not> (\<exists>c. register_accepted s i msg c)"
  shows "ws_Type msg = ''register'' \<Longrightarrow> handleRegister o' gid t now i (ws_Data msg) s = s \<or>
      (\<exists>code m. handleRegister o' gid t now i (ws_Data msg) s = sendError i code m s)"
    "ws_Type msg = ''temp_register'' \<Longrightarrow> handleTempRegister o' gid t now i (ws_Data msg) s = s \<or>
      (\<exists>code m. handleTempRegister o' gid t now i (ws_Data msg) s = sendError i code m s)"
  using assms unfolding handleRegister_def handleTempRegister_def register_accepted_def ValidateClientToken_def Let_def
  by (cases "ws_Data msg"; auto)+

lemma handleMessage_cases:
  fixes parse o' gid t now
  assumes i: "i < length (srv_heap s)"
  obtains (accepted) c ns host f where "register_accepted s i msg c"
      "handleMessage parse o' gid t now i msg s = complete_register o' gid t now i ns host (upd_ses i f s)"
      "ses_clientID (f (srv_heap s ! i)) = c" "ses_remoteAddr (f (srv_heap s ! i)) = ses_remoteAddr (srv_heap s ! i)"
      "host = (if ws_Type msg = ''register'' then str_or '''' (case ws_Data msg of AnyMap d \<Rightarrow> d | _ \<Rightarrow> []) ''host'' else '''')"
      "ns = (if ws_Type msg = ''register'' \<and> \<not> ses_isTemp (srv_heap s ! i) then ''permanent'' else ''temporary'')"
  | (refused) code m where "\<forall>c. \<not> register_accepted s i msg c" "handleMessage parse o' gid t now i msg s = sendError i code m s"
  | (pong) "\<forall>c. \<not> register_accepted s i msg c" "handleMessage parse o' gid t now i msg s = handlePong parse gid t now i (ws_Data msg) s"
  | (ignored) "\<forall>c. \<not> register_accepted s i msg c" "handleMessage parse o' gid t now i msg s = s"
proof -
  consider (reg) "ws_Type msg = ''register''" | (temp) "ws_Type msg = ''temp_register''" | (pg) "ws_Type msg = ''pong''"
    | (other) "ws_Type msg \<notin> {''register'', ''temp_register'', ''pong''}" by blast
  then show thesis
  proof cases
    case reg
    then have h: "handleMessage parse o' gid t now i msg s = handleRegister o' gid t now i (ws_Data msg) s" by (simp add: handleMessage_def)
    show thesis
    proof (cases "\<exists>c. register_accepted s i msg c")
      case True
      then obtain c d where c: "register_accepted s i msg c" "ws_Data msg = AnyMap d"
        using register_accepted_map by blast
      show thesis
        by (rule accepted [OF c(1), of _ _ "\<lambda>x. x\<lparr>ses_clientID := c, ses_host := str_or '''' d ''host''\<rparr>"])
          (use c reg in \<open>auto simp: h handleRegister_def register_accepted_def ValidateClientToken_def Let_def\<close>)
    next
      case False
      then show thesis
        using refused ignored register_refused(1) [OF False reg, of o' gid t now] by (auto simp: h)
    qed
  next
    case temp
    then have h: "handleMessage parse o' gid t now i msg s = handleTempRegister o' gid t now i (ws_Data msg) s" by (simp add: handleMessage_def)
    show thesis
    proof (cases "\<exists>c. register_accepted s i msg c")
      case True
      then obtain c d where c: "register_accepted s i msg c" "ws_Data msg = AnyMap d"
        using register_accepted_map by blast
      show thesis
        by (rule accepted [OF c(1), of _ _ "\<lambda>x. x\<lparr>ses_clientID := c\<rparr>"])
          (use c temp in \<open>auto simp: h handleTempRegister_def register_accepted_def ValidateClientToken_def Let_def\<close>)
    next
      case False
      then show thesis
        using refused ignored register_refused(2) [OF False temp, of o' gid t now] by (auto simp: h)
    qed
  next
    case pg
    then show thesis by (intro pong) (auto simp: register_accepted_def handleMessage_def split: any.split)
  next
    case other
    then show thesis by (intro ignored) (auto simp: register_accepted_def handleMessage_def split: any.split)
  qed
qed

lemma handlePong_frame:
  assumes "i < length (srv_heap s)"
  shows "srv_auth (handlePong parse gid t now i data s) = srv_auth s"
    "co_stateStore (srv_core (handlePong parse gid t now i data s)) = co_stateStore (srv_core s)"
    "ses_clientID (srv_heap (handlePong parse gid t now i data s) ! i) = ses_clientID (srv_heap s ! i)"
    "ses_registered (srv_heap (handlePong parse gid t now i data s) ! i) = ses_registered (srv_heap s ! i)"
    "j \<noteq> i \<Longrightarrow> srv_heap (handlePong parse gid t now i data s) ! j = srv_heap s ! j"
  using assms by (cases data; simp add: handlePong_def Let_def core_Publish_def split: option.split)+


definition sample_server :: Server where
  "sample_server = Handle ''c'' ''a:1'' 0 (NewServer (NewCore ''ip'' None) 7000 (NewManager toy_config empty_dir) None)"

definition sample_register :: "string \<Rightarrow> WSMessage" where
  "sample_register c = \<lparr>ws_Type = ''register'', ws_Data = AnyMap [(''token'', AnyStr ''t''), (''client_id'', AnyStr c), (''host'', AnyStr ''h'')]\<rparr>"

lemma sample_server_heap [simp]: "srv_heap sample_server = [NewSession ''c'' False ''a:1'' 0]"
  by (simp add: sample_server_def Handle_def NewServer_def)

lemma sample_accepted: "register_accepted sample_server 0 (sample_register c) c' \<longleftrightarrow> c' = ''c'' \<and> c = ''c''"
  by (auto simp: register_accepted_def sample_register_def sample_server_def Handle_def NewServer_def NewManager_def toy_config_def NewSession_def
      str_or_def get_str_def)

theorem server_run_invariant_witness:
  "length (ses_send (srv_heap sample_server ! 0)) \<le> 256"
proof -
  have "server_reach (NewServer (NewCore ''ip'' None) 7000 (NewManager toy_config empty_dir) None) sample_server"
    unfolding sample_server_def by (rule sr_step [OF sr_init sv_session [OF sv_handle]])
  from server_run_invariant [OF this] show ?thesis by simp
qed


lemma SendToClient_frame [simp]:
  "srv_core (snd (SendToClient c m s)) = srv_core s" "srv_sessions (snd (SendToClient c m s)) = srv_sessions s"
  "srv_tracked (snd (SendToClient c m s)) = srv_tracked s"
  "srv_activeLoops (snd (SendToClient c m s)) = srv_activeLoops s" "srv_loops (snd (SendToClient c m s)) = srv_loops s"
  by (simp_all add: SendToClient_def split: option.split)

lemma startTunnelLoop_frame [simp]:
  "srv_core (startTunnelLoop p s) = srv_core s" "srv_sessions (startTunnelLoop p s) = srv_sessions s" "srv_tracked (startTunnelLoop p s) = srv_tracked s"
  by (simp_all add: startTunnelLoop_def Let_def split: option.split)

lemma sync_frame [simp]:
  "srv_core (sync_proxy p s) = srv_core s" "srv_sessions (sync_proxy p s) = srv_sessions s"
  "srv_core (sync_relay c r s) = srv_core s" "srv_sessions (sync_relay c r s) = srv_sessions s"
  by (simp_all add: sync_proxy_def notifyProxyClient_def sync_relay_def split: prod.split)

lemma fold_keeps: "(\<And>x s. g (f x s) = g s) \<Longrightarrow> g (fold f xs s) = g s"
  by (induction xs arbitrary: s) simp_all

lemma track_known_sessions:
  assumes "ses_clientID (srv_heap s ! i) \<noteq> ''''"
  shows "srv_sessions (track_known i s) = mput (srv_sessions s) (ses_clientID (srv_heap s ! i)) i"
    "srv_core (track_known i s) = srv_core s"
  using assms by (simp_all add: track_known_def Let_def deliverPendingRelaySignals_def syncClientRelays_def syncClientProxies_def
      fold_keeps [where g = srv_sessions] fold_keeps [where g = srv_core])

text \<open>Events that do not delete a client leave its connection in the store.\<close>

definition has_conn :: "string \<Rightarrow> nat \<Rightarrow> StateStoreImpl \<Rightarrow> bool" where
  "has_conn c i s \<longleftrightarrow> (\<exists>e. GetClient s c = Some e \<and> ce_Conn e = Some i)"

definition deletes :: "string \<Rightarrow> GenericEvent \<Rightarrow> bool" where
  "deletes c e \<longleftrightarrow> rk_Type (ev_Resource e) = ''client'' \<and> rk_Name (ev_Resource e) = c \<and> ev_EventType e = ''DELETED''"

lemma Apply_keeps_conn: "has_conn c i s \<Longrightarrow> \<not> deletes c e \<Longrightarrow> has_conn c i (Apply now e s)"
proof -
  assume has: "has_conn c i s" and no: "\<not> deletes c e"
  have same: "has_conn c i s'" if "ss_clients s' = ss_clients s" for s'
    using has that by (simp add: has_conn_def GetClient_def)
  have put: "has_conn c i (s\<lparr>ss_clients := mput (ss_clients s) c' x\<rparr>)" if "c' = c \<Longrightarrow> ce_Conn x = Some i" for c' x
    using has that by (simp add: has_conn_def GetClient_def)
  have conn: "\<exists>x. mget (ss_clients s) c = Some x \<and> ce_Conn x = Some i" using has by (simp add: has_conn_def GetClient_def)
  show ?thesis
  proof (cases "rk_Type (ev_Resource e) = ''client''")
    case True
    have "has_conn c i (applyClientEvent now e s)"
    proof (cases "ev_EventType e = ''DELETED''")
      case del: True
      then have "rk_Name (ev_Resource e) \<noteq> c" using no True by (simp add: deletes_def)
      then show ?thesis using del has by (simp add: applyClientEvent_def has_conn_def GetClient_def Let_def)
    next
      case False
      then show ?thesis unfolding applyClientEvent_def Let_def
        using conn by (auto intro!: same put simp: client_modified_def Let_def split: any.split option.split)
    qed
    then show ?thesis using True by (simp add: Apply_def)
  next
    case False
    then have "ss_clients (Apply now e s) = ss_clients s"
      by (cases "ev_Payload e") (simp_all add: Apply_def applyProxyEvent_def applyRelayEvent_def Let_def split: option.split)
    then show ?thesis by (rule same)
  qed
qed

lemma fold_keeps_conn: "has_conn c i s \<Longrightarrow> \<forall>e \<in> set es. \<not> deletes c e \<Longrightarrow> has_conn c i (fold (Apply now) es s)"
  by (induction es arbitrary: s) (simp_all add: Apply_keeps_conn)

lemma SetClientConn_has: "has_conn c i (SetClientConn s now c i)"
  by (simp add: has_conn_def GetClient_def SetClientConn_def Let_def)

lemma Apply_client_added:
  assumes "has_conn c i s"
  shows "\<exists>e'. GetClient (Apply now (newClientEvent gid t c addr host\<lparr>ev_Sequence := n\<rparr>) s) c = Some e' \<and>
    ce_Conn e' = Some i \<and> ce_RemoteAddr e' = addr \<and> ce_Host e' = host"
  using assms by (auto simp: has_conn_def GetClient_def Apply_def applyClientEvent_def newClientEvent_def client_key_def NewGenericEvent_def
      Let_def str_or_def get_str_def)

lemma client_event_type [simp]:
  "ev_type (newClientEvent gid t c a h) = ''client''" "ev_type (newClientDeletedEvent gid t c) = ''client''"
  by (simp_all add: newClientEvent_def newClientDeletedEvent_def client_key_def NewGenericEvent_def)

lemmas drain_client = drain_published [where t = "''client''", OF _ _ _ _ _ insertI1]



lemma Apply_client_deleted: "GetClient (Apply now (newClientDeletedEvent gid t c\<lparr>ev_Sequence := n\<rparr>) s) c = None"
  by (simp add: GetClient_def Apply_def applyClientEvent_def newClientDeletedEvent_def client_key_def NewGenericEvent_def Let_def)

lemma Apply_client_fresh:
  "GetClient s c = None \<Longrightarrow> \<exists>e. GetClient (Apply now (newClientEvent gid t c addr host\<lparr>ev_Sequence := n\<rparr>) s) c = Some e \<and> ce_Conn e = None"
  by (simp add: GetClient_def Apply_def applyClientEvent_def newClientEvent_def client_key_def NewGenericEvent_def Let_def str_or_def get_str_def)

text \<open>A client that reconnects before the deletion of its old session was handled keeps a session but loses its
  connection in the state store: \<open>SetClientConn\<close> acts at once, the deletion and the addition wait in the queue.\<close>

theorem reconnect_loses_connection:
  assumes "i < length (srv_heap s)" and "register_accepted s i msg c"
    and "takes ''client'' (co_eventBus (srv_core s))" and "wired (co_eventBus (srv_core s))"
    and "queued ''client'' (co_eventBus (srv_core s)) = [newClientDeletedEvent gid' t' c\<lparr>ev_Sequence := n'\<rparr>]"
    and "s' = handleMessage parse o' gid t now i msg s"
  shows "has_conn c i (co_stateStore (srv_core s')) \<and>
     (\<exists>e. GetClient (co_stateStore (drain enc now' v ''client'' (srv_core s'))) c = Some e \<and> ce_Conn e = None)"
  using assms(1)
proof (cases rule: handleMessage_cases [where msg = msg and parse = parse and o' = o' and gid = gid and t = t and now = now])
  case (accepted c' ns host f)
  have c: "c' = c" using accepted(1) assms(2) by (cases "ws_Data msg"; simp add: register_accepted_def)
  let ?k = "srv_core s" and ?e = "newClientEvent gid t c (ses_remoteAddr (srv_heap s ! i)) host"
  have s': "srv_core s' = (core_Publish ?e ?k)\<lparr>co_stateStore := SetClientConn (co_stateStore ?k) now c i\<rparr>"
    using accepted(2-4) assms(1,6) c by (simp add: complete_register_core Let_def core_Publish_def)
  have "length (queued ''client'' (co_eventBus ?k)) < queueCap" using assms(5) by (simp add: queueCap_def)
  from drain_client [OF assms(3,4) this client_event_type(1) s', of enc now' v] obtain n where
    n: "co_stateStore (drain enc now' v ''client'' (srv_core s')) = Apply now' (?e\<lparr>ev_Sequence := n\<rparr>)
      (Apply now' (newClientDeletedEvent gid' t' c\<lparr>ev_Sequence := n'\<rparr>) (SetClientConn (co_stateStore ?k) now c i))"
    using assms(5) by auto
  show ?thesis unfolding n using Apply_client_fresh [OF Apply_client_deleted] by (simp add: s' SetClientConn_has)
qed (use assms(2) in simp_all)

lemma session_Close_core:
  assumes "\<not> ses_done (srv_heap s ! i)" "ses_clientID (srv_heap s ! i) \<noteq> ''''"
  shows "srv_core (session_Close gid t i s) = core_Publish (newClientDeletedEvent gid t (ses_clientID (srv_heap s ! i))) (srv_core s)"
  using assms by (simp add: session_Close_def Let_def)

lemma session_Close_frame [simp]:
  "srv_sessions (session_Close gid t i s) = srv_sessions s" "srv_tracked (session_Close gid t i s) = srv_tracked s"
  "j \<noteq> i \<Longrightarrow> srv_heap (session_Close gid t i s) ! j = srv_heap s ! j"
  by (simp_all add: session_Close_def Let_def)

text \<open>C39. A session that closes late takes down its successor: when a client has reconnected, the end of its old
  session publishes the deletion of the client and removes the client from the table, whoever is entered there.
  The new session is open, but the client is gone from the store and cannot be sent to.\<close>

theorem stale_close_removes_client:
  assumes "i \<noteq> j" and "ses_clientID (srv_heap s ! i) = c" and "c \<noteq> ''''" and "\<not> ses_done (srv_heap s ! i)"
    and "mget (srv_sessions s) c = Some j" and "\<not> ses_done (srv_heap s ! j)"
    and "n < length (srv_tracked s)" and "srv_tracked s ! n = (i, c)"
    and "takes ''client'' (co_eventBus (srv_core s))" and "wired (co_eventBus (srv_core s))"
    and "length (queued ''client'' (co_eventBus (srv_core s))) < queueCap"
    and "s1 = session_Close gid t i s" and "s2 = track_end n (s1\<lparr>srv_core := drain enc now v ''client'' (srv_core s1)\<rparr>)"
  shows "GetClient (co_stateStore (srv_core s2)) c = None \<and> fst (SendToClient c m s2) = Some (''client not found: '' @ c) \<and>
     \<not> ses_done (srv_heap s2 ! j)"
proof -
  have k1: "srv_core s1 = (core_Publish (newClientDeletedEvent gid t c) (srv_core s))\<lparr>co_stateStore := co_stateStore (srv_core s)\<rparr>"
    using session_Close_core [of s i gid t] assms(2-4,12) by (simp add: core_Publish_def)
  obtain q where q: "co_stateStore (drain enc now v ''client'' (srv_core s1)) = Apply now (newClientDeletedEvent gid t c\<lparr>ev_Sequence := q\<rparr>)
      (fold (Apply now) (queued ''client'' (co_eventBus (srv_core s))) (co_stateStore (srv_core s)))"
    using drain_client [OF assms(9-11) client_event_type(2) k1, of enc now v] by blast
  have s2: "srv_core s2 = drain enc now v ''client'' (srv_core s1)" "srv_sessions s2 = mdel (srv_sessions s) c" "srv_heap s2 ! j = srv_heap s ! j"
    using assms(1,7,8,12,13) by (simp_all add: track_end_def)
  show ?thesis using s2(3) assms(6) by (simp add: s2(1,2) q Apply_client_deleted SendToClient_def)
qed

text \<open>A key that is marked active while no loop runs for it.\<close>

definition stuck :: "string \<Rightarrow> Server \<Rightarrow> bool" where
  "stuck key s \<longleftrightarrow> mget (srv_activeLoops s) key \<noteq> None \<and> key \<notin> fst ` set (srv_loops s)"

lemma stuck_frame [simp]:
  "stuck key (s\<lparr>srv_sessions := m\<rparr>) = stuck key s" "stuck key (s\<lparr>srv_tracked := tr\<rparr>) = stuck key s"
  "stuck key (s\<lparr>srv_pendingRelaySignal := ps\<rparr>) = stuck key s"
  by (simp_all add: stuck_def)

lemma stuck_start: "stuck key s \<Longrightarrow> stuck key (startTunnelLoop p s)"
  by (auto simp: stuck_def startTunnelLoop_def Let_def split: option.split)

lemma stuck_fold: "stuck key s \<Longrightarrow> (\<And>x s. stuck key s \<Longrightarrow> stuck key (f x s)) \<Longrightarrow> stuck key (fold f xs s)"
  by (induction xs arbitrary: s) simp_all

lemma stuck_send: "stuck key s \<Longrightarrow> stuck key (snd (SendToClient c m s))"
  by (simp add: stuck_def)

lemma stuck_track: "stuck key s \<Longrightarrow> stuck key (track_known i s)"
  unfolding track_known_def deliverPendingRelaySignals_def syncClientRelays_def syncClientProxies_def sync_proxy_def sync_relay_def notifyProxyClient_def Let_def
  by (simp add: stuck_fold stuck_start stuck_send split: prod.split)

lemma loops_message [simp]:
  "srv_activeLoops (handleMessage parse o' gid t now i msg s) = srv_activeLoops s" "srv_loops (handleMessage parse o' gid t now i msg s) = srv_loops s"
  by (cases "ws_Data msg"; simp add: handleMessage_def handleRegister_def handleTempRegister_def handlePong_def complete_register_def sendError_def Let_def split: option.split)+

lemma stuck_session_step: "session_step s s' \<Longrightarrow> stuck key s \<Longrightarrow> stuck key s'"
proof (induction rule: session_step.induct)
  case (sv_loop_end s j)
  show ?case
  proof (cases "j < length (srv_loops s)")
    case True
    then have "fst (srv_loops s ! j) \<noteq> key" using sv_loop_end by (metis imageI nth_mem stuck_def)
    then show ?thesis using sv_loop_end True set_drop_nth [of j "srv_loops s"] by (auto simp: stuck_def tunnel_loop_end_def)
  qed (use sv_loop_end in \<open>simp add: tunnel_loop_end_def\<close>)
next
  case (sv_event s e)
  then show ?case
    unfolding session_handleProxyEvent_def session_handleProxyAdded_def session_handleProxyDeleted_def notifyProxyClient_def
    by (auto intro!: stuck_start stuck_send split: option.split any.split)
next
  case (sv_timeout i s gid t)
  then show ?case using stuck_track by (simp add: track_timeout_def) (simp add: stuck_def session_Close_def Let_def)
next
  case (sv_registered i s)
  then show ?case by (simp add: stuck_track)
qed (auto intro: stuck_track simp: stuck_def Handle_def HandleTemp_def writePump_take_def session_Close_def track_end_def Let_def split: list.split)

lemma stuck_step: "server_step s s' \<Longrightarrow> stuck key s \<Longrightarrow> stuck key s'"
  by (induction rule: server_step.induct) (simp_all add: stuck_session_step, simp_all add: stuck_def)

text \<open>A proxy without a listener (its port could not be bound) is marked active when its loop is started and
  never unmarked: whatever the server does later, also when the listener is there, no loop starts for it.\<close>

theorem tunnel_loop_never_restarts:
  assumes "mget (srv_activeLoops s) (proxyKey (ps_ClientID p) (ps_RemotePort p)) = None" and "server_inv s"
    and "\<forall>pv. srv_provider s = Some pv \<longrightarrow> GetListener pv (ps_ClientID p) (ps_RemotePort p) = None"
    and "server_reach (startTunnelLoop p s) s'"
  shows "startTunnelLoop p s' = s' \<and> proxyKey (ps_ClientID p) (ps_RemotePort p) \<notin> fst ` set (srv_loops s')"
proof -
  let ?key = "proxyKey (ps_ClientID p) (ps_RemotePort p)"
  have "?key \<notin> fst ` set (srv_loops s)" using assms(1,2) unfolding server_inv_def by blast
  then have "stuck ?key (startTunnelLoop p s)" using assms(1,3) by (auto simp: stuck_def startTunnelLoop_def Let_def split: option.split)
  then have "stuck ?key s'" using assms(4) by (induction rule: server_reach.induct [OF assms(4)]) (auto dest: stuck_step)
  then show ?thesis by (simp add: stuck_def startTunnelLoop_def)
qed

text \<open>Two sessions of one client, both tracked.\<close>

definition sample_reconnected :: Server where
  "sample_reconnected = track_known 1 (track_known 0 (Handle ''c'' ''a:2'' 1 sample_server))"

lemma sample_reconnected_simps:
  "srv_heap sample_reconnected = [NewSession ''c'' False ''a:1'' 0, NewSession ''c'' False ''a:2'' 1]"
  "srv_sessions sample_reconnected = [(''c'', 1)]" "srv_tracked sample_reconnected = [(0, ''c''), (1, ''c'')]"
  "srv_core sample_reconnected = NewCore ''ip'' None"
  by (simp_all add: sample_reconnected_def sample_server_def Handle_def NewServer_def track_known_def syncClientProxies_def syncClientRelays_def
      deliverPendingRelaySignals_def ListProxies_def ListRelaySessions_def NewCore_def NewStateStore_def NewSession_def mget_or_def Let_def)

theorem stale_close_removes_client_witness:
  "let s1 = session_Close ''e'' 0 0 sample_reconnected; s2 = track_end 0 (s1\<lparr>srv_core := drain (\<lambda>_. None) 0 sample_env ''client'' (srv_core s1)\<rparr>) in
   GetClient (co_stateStore (srv_core s2)) ''c'' = None \<and> \<not> ses_done (srv_heap s2 ! 1)"
  using stale_close_removes_client [OF _ _ _ _ _ _ _ _ _ _ _ refl refl, where i = 0 and j = 1 and s = sample_reconnected and c = "''c''" and n = 0
      and gid = "''e''" and t = 0 and enc = "\<lambda>_. None" and now = 0 and v = sample_env]
    new_core_takes [of "''client''" "''ip''" None] wired_New [of "''ip''" None]
  by (simp add: sample_reconnected_simps NewSession_def queueCap_def Let_def)

definition sample_unbound :: ProxyState where
  "sample_unbound = \<lparr>ps_ClientID = ''c'', ps_RemotePort = 80, ps_LocalPort = 80, ps_LocalIP = '''', ps_Protocol = ''tcp'', ps_BindAddr = ''''\<rparr>"

theorem tunnel_loop_never_restarts_witness:
  "startTunnelLoop sample_unbound (startTunnelLoop sample_unbound sample_server) = startTunnelLoop sample_unbound sample_server \<and>
   srv_loops (startTunnelLoop sample_unbound sample_server) = []"
proof -
  have s: "mget (srv_activeLoops sample_server) k = None" "srv_provider sample_server = None" "srv_loops sample_server = []" for k
    by (simp_all add: sample_server_def Handle_def NewServer_def)
  have "server_inv sample_server" unfolding sample_server_def by (rule server_inv_reach [OF sr_step [OF sr_init sv_session [OF sv_handle]] server_inv_start])
  then show ?thesis
    using tunnel_loop_never_restarts [of sample_server sample_unbound, OF s(1) _ _ sr_init] s by (simp add: startTunnelLoop_def)
qed

theorem reconnect_loses_connection_witness:
  "let s = sample_server\<lparr>srv_core := core_Publish (newClientDeletedEvent ''d'' 0 ''c'') (NewCore ''ip'' None)\<rparr>;
       s' = handleMessage (\<lambda>_. None) SaveOK ''e'' 0 0 0 (sample_register ''c'') s in
   \<exists>e. GetClient (co_stateStore (drain (\<lambda>_. None) 5 sample_env ''client'' (srv_core s'))) ''c'' = Some e \<and> ce_Conn e = None"
proof -
  let ?e = "newClientDeletedEvent ''d'' 0 ''c''" and ?b = "co_eventBus (NewCore ''ip'' None)"
  let ?s = "sample_server\<lparr>srv_core := core_Publish ?e (NewCore ''ip'' None)\<rparr>"
  note new = new_core_takes [of "''client''" "''ip''" None]
  have b: "takes ''client'' (co_eventBus (srv_core ?s))" "wired (co_eventBus (srv_core ?s))"
    using new wired_New [of "''ip''" None] by (simp_all add: core_Publish_def takes_Publish wired_cong [OF Publish_frame(1)])
  have q: "queued ''client'' (co_eventBus (srv_core ?s)) = [?e\<lparr>ev_Sequence := wrap64 (eb_seq ?b + 1)\<rparr>]"
    using queued_Publish [of ?e ?b "''client''"] new by (simp add: core_Publish_def queueCap_def)
  have "register_accepted ?s 0 (sample_register ''c'') ''c''"
    by (simp add: register_accepted_def sample_register_def sample_server_def Handle_def NewServer_def NewManager_def toy_config_def NewSession_def
        str_or_def get_str_def)
  from reconnect_loses_connection [OF _ this b q refl, of "\<lambda>_. None" SaveOK "''e''" 0 0] show ?thesis by (simp add: Let_def)
qed

end
