(* ===== verification/Http_Api.thy ===== *)
theory Http_Api
  imports Session_Server "HOL-Library.Monad_Syntax"
begin

text \<open>
  \<open>BBgrid_Server/http/server.go\<close>: the management interface over the core, the registry and the session
  server, which share the core and the registry (they hold the same pointers).

  A route is a value with its path parameters; a handler maps a request and the state to a response and the
  new state. A body is a JSON tree with distinct keys written as the field tags are, or absent when the bytes
  are no JSON; \<open>hr_bindErr\<close> is the text the decoder reports. Messages the source gives in Chinese are in
  English. What the environment decides is a record: clocks, random identifiers, the outcome of each file
  write, the JWT library and the certificate functions. The endpoints that run or list plugin actions
  (\<open>handleCall\<close>, \<open>handleCapabilities\<close>) are not modelled, nor are gin and TLS.
\<close>

section \<open>Requests and responses\<close>

record HttpRequest =
  hr_authorization :: string
  hr_apiKey :: string
  hr_clientToken :: string
  hr_body :: "json option"
  hr_bindErr :: string

record http_env =
  he_nowNs :: int
  he_uptimeNs :: nat
  he_startTime :: string
  he_save :: "nat \<Rightarrow> save_outcome"
  he_serial :: "nat \<Rightarrow> int"
  he_random :: string
  he_sessionID :: string
  he_token :: string
  he_eventID :: string
  he_eventTime :: int
  he_sign :: "string \<Rightarrow> JWTClaims \<Rightarrow> string + string"
  he_parse :: "string \<Rightarrow> string \<Rightarrow> string + JWTClaims \<times> bool"
  he_crypto :: crypto

definition he_now :: "http_env \<Rightarrow> int" where
  "he_now v = he_nowNs v div 1000000000"

record Response =
  hp_status :: int
  hp_body :: any

definition http_fail :: "int \<Rightarrow> string \<Rightarrow> Response" where
  "http_fail code msg = \<lparr>hp_status = code, hp_body = AnyMap [(''code'', AnyInt code), (''msg'', AnyStr msg)]\<rparr>"

definition http_ok :: "any \<Rightarrow> Response" where
  "http_ok data = \<lparr>hp_status = 200, hp_body = AnyMap [(''code'', AnyInt 0), (''msg'', AnyStr ''success''), (''data'', data)]\<rparr>"

definition status_data :: "string \<Rightarrow> any" where
  "status_data x = AnyMap [(''status'', AnyStr x)]"

text \<open>\<open>ShouldBindJSON\<close> into a struct: an absent or null field keeps its zero value, a value of another type is
  an error.\<close>

definition bind_object :: "HttpRequest \<Rightarrow> (string \<times> json) list option" where
  "bind_object r = (case hr_body r of Some (JObj m) \<Rightarrow> Some m | Some JNull \<Rightarrow> Some [] | _ \<Rightarrow> None)"

definition bind_str :: "(string \<times> json) list \<Rightarrow> string \<Rightarrow> string option" where
  "bind_str m k = (case mget m k of None \<Rightarrow> Some '''' | Some JNull \<Rightarrow> Some '''' | Some (JStr s) \<Rightarrow> Some s | _ \<Rightarrow> None)"

definition bind_int :: "(string \<times> json) list \<Rightarrow> string \<Rightarrow> int option" where
  "bind_int m k = (case mget m k of None \<Rightarrow> Some 0 | Some JNull \<Rightarrow> Some 0
     | Some (JInt n) \<Rightarrow> (if - (2 ^ 63) \<le> n \<and> n < 2 ^ 63 then Some n else None) | _ \<Rightarrow> None)"

definition bind_fail :: "HttpRequest \<Rightarrow> Response" where
  "bind_fail r = http_fail 400 (hr_bindErr r)"

text \<open>\<open>strings.HasPrefix\<close>, \<open>strings.TrimPrefix\<close> and \<open>strings.Contains\<close>.\<close>

definition HasPrefix :: "string \<Rightarrow> string \<Rightarrow> bool" where
  "HasPrefix s p \<longleftrightarrow> take (length p) s = p"

definition TrimPrefix :: "string \<Rightarrow> string \<Rightarrow> string" where
  "TrimPrefix s p = (if HasPrefix s p then drop (length p) s else s)"

fun str_Contains :: "string \<Rightarrow> string \<Rightarrow> bool" where
  "str_Contains [] sub \<longleftrightarrow> sub = []"
| "str_Contains (c # s) sub \<longleftrightarrow> HasPrefix (c # s) sub \<or> str_Contains s sub"

text \<open>\<open>if s == "" { s = d }\<close>.\<close>

definition or_default :: "string \<Rightarrow> string \<Rightarrow> string" where
  "or_default d s = (if s = '''' then d else s)"

section \<open>Values in responses\<close>

definition client_info_any :: "ClientInfo \<Rightarrow> any" where
  "client_info_any c = AnyMap [(''id'', AnyStr (ci_ID c)), (''remote_addr'', AnyStr (ci_RemoteAddr c)), (''connected_at'', AnyInt64 (ci_ConnectedAt c)),
     (''proxy_count'', AnyInt (int (ci_ProxyCount c))), (''host'', AnyStr (ci_Host c)), (''online'', AnyBool (ci_Online c))]"

definition proxy_info_any :: "ProxyInfo \<Rightarrow> any" where
  "proxy_info_any p = AnyMap [(''client_id'', AnyStr (pi_ClientID p)), (''remote_port'', AnyInt (pi_RemotePort p)), (''local_port'', AnyInt (pi_LocalPort p)),
     (''local_ip'', AnyStr (pi_LocalIP p)), (''protocol'', AnyStr (pi_Protocol p)), (''bind_addr'', AnyStr (pi_BindAddr p)), (''public_addr'', AnyStr (pi_PublicAddr p))]"

definition client_record_any :: "ClientRecord \<Rightarrow> any" where
  "client_record_any c = AnyMap ([(''client_id'', AnyStr (cl_ClientID c)), (''public_key'', AnyStr (cl_PublicKey c))] @
     omit_str ''certificate'' (cl_Certificate c) @
     [(''status'', AnyStr (cl_Status c)), (''namespace'', AnyStr (cl_Namespace c)), (''role'', AnyStr (cl_Role c)), (''created_at'', AnyInt64 (cl_CreatedAt c))] @
     (if cl_ApprovedAt c = 0 then [] else [(''approved_at'', AnyInt64 (cl_ApprovedAt c))]))"

definition namespace_any :: "NamespaceInfo \<Rightarrow> any" where
  "namespace_any n = AnyMap [(''name'', AnyStr (ns_Name n)), (''description'', AnyStr (ns_Description n)), (''type'', AnyStr (ns_Type n)),
     (''clients'', AnyList (map AnyStr (ns_Clients n))), (''created_at'', AnyInt64 (ns_CreatedAt n))]"

definition voucher_any :: "Voucher \<Rightarrow> any" where
  "voucher_any x = AnyMap [(''code'', AnyStr (vc_Code x)), (''max_uses'', AnyInt (vc_MaxUses x)), (''used_count'', AnyInt (vc_UsedCount x)),
     (''expires_at'', AnyInt64 (vc_ExpiresAt x)), (''namespace'', AnyStr (vc_Namespace x)), (''role'', AnyStr (vc_Role x)), (''created_at'', AnyInt64 (vc_CreatedAt x))]"

section \<open>Middleware\<close>

text \<open>\<open>Inl\<close> is the response that aborts; otherwise the key the request runs under, if it has one.\<close>

definition requireJWT :: "http_env \<Rightarrow> Manager \<Rightarrow> HttpRequest \<Rightarrow> Response + string option" where
  "requireJWT v m r =
     (if hr_authorization r \<noteq> '''' then
        if \<not> HasPrefix (hr_authorization r) ''Bearer '' then Inl (http_fail 401 ''invalid authorization format'')
        else case ValidateToken (he_parse v) m (TrimPrefix (hr_authorization r) ''Bearer '') of
            Inl _ \<Rightarrow> Inl (http_fail 401 ''invalid token'')
          | Inr claims \<Rightarrow> Inr (Some (jc_APIKey claims))
      else if hr_apiKey r \<noteq> '''' then
        if \<not> ValidateAPIKey m (hr_apiKey r) then Inl (http_fail 401 ''invalid api key'') else Inr (Some (hr_apiKey r))
      else if hr_clientToken r \<noteq> '''' then
        if \<not> ValidateClientToken m (hr_clientToken r) then Inl (http_fail 401 ''invalid client token'') else Inr None
      else Inl (http_fail 401 ''missing authorization''))"

section \<open>Public handlers\<close>

definition formatDuration :: "nat \<Rightarrow> string" where
  "formatDuration d =
     (let secs = (d + 500000000) div 1000000000; h = secs div 3600; m = secs div 60 mod 60; s = secs mod 60 in
      if 0 < h then fmt_int (int h) @ ''h'' @ fmt_int (int m) @ ''m'' @ fmt_int (int s) @ ''s''
      else if 0 < m then fmt_int (int m) @ ''m'' @ fmt_int (int s) @ ''s''
      else fmt_int (int s) @ ''s'')"

definition handleStatus :: "http_env \<Rightarrow> string \<Rightarrow> Core \<Rightarrow> Response" where
  "handleStatus v version k =
     (let state = co_stateStore k in
      http_ok (AnyMap [(''status'', AnyStr ''ok''), (''version'', AnyStr version), (''public_ip'', AnyStr (ss_publicIP state)),
        (''start_time'', AnyStr (he_startTime v)), (''uptime'', AnyStr (formatDuration (he_uptimeNs v))),
        (''stats'', AnyMap [(''clients'', AnyInt (int (length (ListClients state)))), (''proxies'', AnyInt (int (length (ListProxies state)))),
          (''relays'', AnyInt (int (length (ListRelaySessions state))))])]))"

definition handleHealth :: Response where
  "handleHealth = \<lparr>hp_status = 200, hp_body = status_data ''ok''\<rparr>"

definition handleLogin :: "http_env \<Rightarrow> HttpRequest \<Rightarrow> Manager \<Rightarrow> Response" where
  "handleLogin v r m =
     (case do { b \<leftarrow> bind_object r; bind_str b ''api_key'' } of
        None \<Rightarrow> bind_fail r
      | Some apiKey \<Rightarrow>
          if \<not> ValidateAPIKey m apiKey then http_fail 401 ''invalid api key''
          else case GenerateToken (he_sign v) (he_now v) m apiKey of
              Inl _ \<Rightarrow> http_fail 500 ''failed to generate token''
            | Inr token \<Rightarrow> http_ok (AnyMap [(''token'', AnyStr token), (''expires_in'', AnyInt 86400)]))"

definition handleRegisterApply :: "http_env \<Rightarrow> HttpRequest \<Rightarrow> Manager \<Rightarrow> Response \<times> Manager" where
  "handleRegisterApply v r m =
     (case do { b \<leftarrow> bind_object r; c \<leftarrow> bind_str b ''client_id''; p \<leftarrow> bind_str b ''public_key''; t \<leftarrow> bind_str b ''token''; Some (c, p, t) } of
        None \<Rightarrow> (bind_fail r, m)
      | Some (clientID, publicKey, token) \<Rightarrow>
          if \<not> ValidateClientToken m token then (http_fail 401 ''invalid token'', m)
          else case AddApplication (he_save v 0) (he_now v) clientID publicKey m of
              (Some e, m1) \<Rightarrow> (http_fail 400 e, m1)
            | (None, m1) \<Rightarrow> (\<lparr>hp_status = 200, hp_body = AnyMap [(''code'', AnyInt 0), (''msg'', AnyStr ''applied'')]\<rparr>, m1))"

text \<open>The client is added, or gets the new key when it exists.\<close>

definition voucher_enter :: "http_env \<Rightarrow> string \<Rightarrow> string \<Rightarrow> Manager \<Rightarrow> string option \<times> Manager" where
  "voucher_enter v clientID publicKey m =
     (case AddApplication (he_save v 1) (he_now v) clientID publicKey m of
        (None, m1) \<Rightarrow> (None, m1)
      | (Some e, m1) \<Rightarrow> if e \<noteq> ''client already exists'' then (Some e, m1) else UpdatePublicKey (he_save v 2) clientID publicKey m1)"

text \<open>Approval, once more after a reset when the client was approved already.\<close>

definition voucher_approve :: "http_env \<Rightarrow> string \<Rightarrow> string \<Rightarrow> string \<Rightarrow> Manager \<Rightarrow> (string + string) \<times> Manager" where
  "voucher_approve v clientID namespace role m =
     (case Approve (he_crypto v) (he_save v 3) (he_serial v 0) (he_now v) clientID namespace role m of
        (Inr cert, m1) \<Rightarrow> (Inr cert, m1)
      | (Inl e, m1) \<Rightarrow>
          if str_Contains e ''already approved'' \<or> str_Contains e ''already''
          then Approve (he_crypto v) (he_save v 5) (he_serial v 1) (he_now v) clientID namespace role (ResetClientStatus (he_save v 4) clientID m1)
          else (Inl e, m1))"

definition bind_voucher :: "HttpRequest \<Rightarrow> (string \<times> string \<times> string) option" where
  "bind_voucher r = do { b \<leftarrow> bind_object r; c \<leftarrow> bind_str b ''client_id''; p \<leftarrow> bind_str b ''public_key''; x \<leftarrow> bind_str b ''voucher''; Some (c, p, x) }"

definition handleRegisterVoucher :: "http_env \<Rightarrow> HttpRequest \<Rightarrow> Manager \<Rightarrow> Response \<times> Manager" where
  "handleRegisterVoucher v r m =
     (case bind_voucher r of
        None \<Rightarrow> (bind_fail r, m)
      | Some (clientID, publicKey, code) \<Rightarrow>
          if clientID = '''' \<or> publicKey = '''' \<or> code = '''' then (http_fail 400 ''client_id, public_key, voucher are required'', m)
          else case UseVoucher (he_save v 0) (he_now v) code m of
              (Inl e, m1) \<Rightarrow> (http_fail 400 e, m1)
            | (Inr voucher, m1) \<Rightarrow>
                (case voucher_enter v clientID publicKey m1 of
                   (Some e, m2) \<Rightarrow> (http_fail 400 e, m2)
                 | (None, m2) \<Rightarrow>
                     let namespace = or_default ''permanent'' (vc_Namespace voucher); role = or_default ''node'' (vc_Role voucher) in
                     (case voucher_approve v clientID namespace role m2 of
                        (Inl e, m3) \<Rightarrow> (http_fail 500 e, m3)
                      | (Inr cert, m3) \<Rightarrow>
                          (http_ok (AnyMap [(''certificate'', AnyStr cert), (''namespace'', AnyStr namespace), (''role'', AnyStr role)]), m3))))"

definition handleRegisterList :: "Manager \<Rightarrow> Response" where
  "handleRegisterList m = http_ok (AnyMap [(''clients'', AnyList (map client_record_any (GetApproved m)))])"

section \<open>Nodes and registration\<close>

definition online_node :: "ClientInfo \<Rightarrow> any" where
  "online_node oc = AnyMap [(''id'', AnyStr (ci_ID oc)), (''remote_addr'', AnyStr (ci_RemoteAddr oc)), (''online'', AnyBool True),
     (''host'', AnyStr (ci_Host oc)), (''proxy_count'', AnyInt (int (ci_ProxyCount oc)))]"

definition offline_node :: "string \<Rightarrow> any" where
  "offline_node clientID = AnyMap [(''id'', AnyStr clientID), (''remote_addr'', AnyStr ''''), (''online'', AnyBool False),
     (''host'', AnyStr ''''), (''proxy_count'', AnyInt 0)]"

definition node_entry :: "ClientInfo list \<Rightarrow> ClientRecord \<Rightarrow> any" where
  "node_entry onlineClients a =
     (case find (\<lambda>oc. ci_ID oc = cl_ClientID a) onlineClients of
        Some oc \<Rightarrow> online_node oc
      | None \<Rightarrow> offline_node (cl_ClientID a))"

definition handleListNodes :: "Core \<Rightarrow> Manager \<Rightarrow> Response" where
  "handleListNodes k m =
     http_ok (AnyMap [(''clients'', AnyList (map (node_entry (ListClients (co_stateStore k))) (GetApproved m)))])"

definition handleGetNode :: "string \<Rightarrow> Core \<Rightarrow> Manager \<Rightarrow> Response" where
  "handleGetNode cid k m =
     (case GetClientInfo (co_stateStore k) cid of
        Some client \<Rightarrow> http_ok (client_info_any client)
      | None \<Rightarrow>
          (case find (\<lambda>a. cl_ClientID a = cid) (GetApproved m) of
             Some a \<Rightarrow> http_ok (offline_node (cl_ClientID a))
           | None \<Rightarrow> http_fail 404 ''client not found''))"

definition handleRegisterApprove :: "http_env \<Rightarrow> HttpRequest \<Rightarrow> Manager \<Rightarrow> Response \<times> Manager" where
  "handleRegisterApprove v r m =
     (case do { b \<leftarrow> bind_object r; c \<leftarrow> bind_str b ''client_id''; n \<leftarrow> bind_str b ''namespace''; x \<leftarrow> bind_str b ''role''; Some (c, n, x) } of
        None \<Rightarrow> (bind_fail r, m)
      | Some (clientID, namespace, role) \<Rightarrow>
          (case Approve (he_crypto v) (he_save v 0) (he_serial v 0) (he_now v) clientID namespace role m of
             (Inl e, m1) \<Rightarrow> (http_fail 400 e, m1)
           | (Inr cert, m1) \<Rightarrow> (http_ok (AnyMap [(''certificate'', AnyStr cert)]), m1)))"

definition handleRegisterRevoke :: "http_env \<Rightarrow> HttpRequest \<Rightarrow> Manager \<Rightarrow> Response \<times> Manager" where
  "handleRegisterRevoke v r m =
     (case do { b \<leftarrow> bind_object r; bind_str b ''client_id'' } of
        None \<Rightarrow> (bind_fail r, m)
      | Some clientID \<Rightarrow>
          (case auth_Delete (he_save v 0) clientID m of
             (False, m1) \<Rightarrow> (http_fail 404 ''client not found'', m1)
           | (True, m1) \<Rightarrow> (http_ok (status_data ''revoked''), m1)))"

definition handleRegisterPending :: "Manager \<Rightarrow> Response" where
  "handleRegisterPending m = http_ok (AnyMap [(''applications'', AnyList (map client_record_any (GetPending m)))])"

section \<open>Proxies\<close>

definition handleListProxies :: "Core \<Rightarrow> Response" where
  "handleListProxies k = http_ok (AnyMap [(''proxies'', AnyList (map proxy_info_any (ListProxies (co_stateStore k))))])"

definition port_ok :: "int \<Rightarrow> bool" where
  "port_ok p \<longleftrightarrow> \<not> (p < 1 \<or> 65535 < p)"

definition proxy_key :: "string \<Rightarrow> ResourceKey" where
  "proxy_key name = \<lparr>rk_Type = ResourceTypeProxy, rk_Namespace = NamespaceDefault, rk_Name = name\<rparr>"

definition bind_proxy :: "HttpRequest \<Rightarrow> ProxyState option" where
  "bind_proxy r = do { b \<leftarrow> bind_object r; c \<leftarrow> bind_str b ''client_id''; rp \<leftarrow> bind_int b ''remote_port''; lp \<leftarrow> bind_int b ''local_port'';
     ip \<leftarrow> bind_str b ''local_ip''; pr \<leftarrow> bind_str b ''protocol''; ba \<leftarrow> bind_str b ''bind_addr'';
     Some \<lparr>ps_ClientID = c, ps_RemotePort = rp, ps_LocalPort = lp, ps_LocalIP = ip, ps_Protocol = pr, ps_BindAddr = ba\<rparr> }"

definition handleCreateProxy :: "http_env \<Rightarrow> HttpRequest \<Rightarrow> Core \<Rightarrow> Response \<times> Core" where
  "handleCreateProxy v r k =
     (case bind_proxy r of
        None \<Rightarrow> (bind_fail r, k)
      | Some req \<Rightarrow>
          if ps_ClientID req = '''' then (http_fail 400 ''client_id is required'', k)
          else if \<not> port_ok (ps_RemotePort req) then (http_fail 400 ''remote_port must be between 1 and 65535'', k)
          else if \<not> port_ok (ps_LocalPort req) then (http_fail 400 ''local_port must be between 1 and 65535'', k)
          else
            let protocol = or_default ''tcp'' (ps_Protocol req) in
            if protocol \<noteq> ''tcp'' \<and> protocol \<noteq> ''udp'' then (http_fail 400 ''protocol must be tcp or udp'', k)
            else
              let p = req\<lparr>ps_Protocol := protocol, ps_LocalIP := or_default ''127.0.0.1'' (ps_LocalIP req), ps_BindAddr := or_default ''0.0.0.0'' (ps_BindAddr req)\<rparr> in
              (http_ok (status_data ''created''),
               core_Publish (NewGenericEvent (he_eventID v) (he_eventTime v) (proxy_key (proxyKey (ps_ClientID p) (ps_RemotePort p))) EventAdded (AnyProxy p)) k))"

definition handleDeleteProxy :: "http_env \<Rightarrow> string \<Rightarrow> Core \<Rightarrow> Response \<times> Core" where
  "handleDeleteProxy v portStr k =
     (case Atoi portStr of
        None \<Rightarrow> (http_fail 400 ''invalid port'', k)
      | Some port \<Rightarrow>
          (case find (\<lambda>p. pi_RemotePort p = port) (ListProxies (co_stateStore k)) of
             None \<Rightarrow> (http_fail 404 ''proxy not found'', k)
           | Some p \<Rightarrow>
               (http_ok (status_data ''deleted''),
                core_Publish (NewGenericEvent (he_eventID v) (he_eventTime v) (proxy_key (proxyKey (pi_ClientID p) (pi_RemotePort p))) EventDeleted AnyNil) k)))"

section \<open>Relays\<close>

definition handleListRelays :: "Core \<Rightarrow> Response" where
  "handleListRelays k = http_ok (AnyMap [(''sessions'', AnyList (map AnyRelay (ListRelaySessions (co_stateStore k))))])"

definition relay_key :: "string \<Rightarrow> ResourceKey" where
  "relay_key name = \<lparr>rk_Type = ResourceTypeRelay, rk_Namespace = NamespaceDefault, rk_Name = name\<rparr>"

definition bind_relay :: "HttpRequest \<Rightarrow> RelayCreateRequest option" where
  "bind_relay r = do { b \<leftarrow> bind_object r; s \<leftarrow> bind_str b ''source_client_id''; t \<leftarrow> bind_str b ''target_client_id''; p \<leftarrow> bind_str b ''protocol'';
     sp \<leftarrow> bind_int b ''source_port''; tp \<leftarrow> bind_int b ''target_port''; ti \<leftarrow> bind_str b ''target_local_ip''; si \<leftarrow> bind_str b ''source_local_ip'';
     Some \<lparr>rc_SourceClient = s, rc_TargetClient = t, rc_Protocol = p, rc_SourcePort = sp, rc_TargetPort = tp, rc_TargetLocalIP = ti, rc_SourceLocalIP = si\<rparr> }"

definition handleCreateRelay :: "http_env \<Rightarrow> HttpRequest \<Rightarrow> Core \<Rightarrow> Response \<times> Core" where
  "handleCreateRelay v r k =
     (case bind_relay r of
        None \<Rightarrow> (bind_fail r, k)
      | Some req \<Rightarrow>
          if rc_SourceClient req = '''' \<or> rc_TargetClient req = '''' then (http_fail 400 ''source_client_id and target_client_id are required'', k)
          else if \<not> port_ok (rc_SourcePort req) \<or> \<not> port_ok (rc_TargetPort req)
            then (http_fail 400 ''source_port and target_port must be between 1 and 65535'', k)
          else
            let protocol = or_default ''tcp'' (rc_Protocol req) in
            if protocol \<noteq> ''tcp'' \<and> protocol \<noteq> ''udp'' then (http_fail 400 ''protocol must be tcp or udp'', k)
            else
              let req' = req\<lparr>rc_Protocol := protocol, rc_TargetLocalIP := or_default ''127.0.0.1'' (rc_TargetLocalIP req),
                             rc_SourceLocalIP := or_default ''0.0.0.0'' (rc_SourceLocalIP req)\<rparr> in
              (http_ok (AnyMap [(''session_id'', AnyStr (he_sessionID v))]),
               core_Publish (NewGenericEvent (he_eventID v) (he_eventTime v) (relay_key (he_sessionID v)) EventAdded
                 (AnyRelay (relay_session (he_sessionID v) (he_token v) req'))) k))"

definition handleDeleteRelay :: "http_env \<Rightarrow> string \<Rightarrow> Core \<Rightarrow> Response \<times> Core" where
  "handleDeleteRelay v sessionID k =
     (let state = co_stateStore k;
          found = (if GetRelaySession state sessionID \<noteq> None then Some sessionID
                   else map_option rs_ID (find (\<lambda>r. HasPrefix (rs_ID r) sessionID) (ListRelaySessions state))) in
      case found of
        None \<Rightarrow> (http_fail 404 ''relay session not found'', k)
      | Some fullID \<Rightarrow>
          (http_ok (status_data ''deleted''),
           core_Publish (NewGenericEvent (he_eventID v) (he_eventTime v) (relay_key fullID) EventDeleted AnyNil) k))"

section \<open>Namespaces, vouchers and queries\<close>

definition handleListNamespaces :: "Manager \<Rightarrow> Response" where
  "handleListNamespaces m = http_ok (AnyMap [(''namespaces'', AnyList (map namespace_any (ListNamespaces m)))])"

definition handleGetNamespace :: "string \<Rightarrow> Manager \<Rightarrow> Response" where
  "handleGetNamespace name m = (case GetNamespace m name of None \<Rightarrow> http_fail 404 ''namespace not found'' | Some ns \<Rightarrow> http_ok (namespace_any ns))"

definition handleGetNamespaceClients :: "string \<Rightarrow> Manager \<Rightarrow> Response" where
  "handleGetNamespaceClients name m = http_ok (AnyMap [(''clients'', AnyList (map client_record_any (GetClientsByNamespace m name)))])"

definition handleAssignNamespace :: "http_env \<Rightarrow> HttpRequest \<Rightarrow> Manager \<Rightarrow> Response \<times> Manager" where
  "handleAssignNamespace v r m =
     (case do { b \<leftarrow> bind_object r; c \<leftarrow> bind_str b ''client_id''; n \<leftarrow> bind_str b ''namespace''; x \<leftarrow> bind_str b ''role''; Some (c, n, x) } of
        None \<Rightarrow> (bind_fail r, m)
      | Some (clientID, namespace, role) \<Rightarrow>
          (case SetClientNamespace (he_save v 0) clientID namespace role m of
             (Some e, m1) \<Rightarrow> (http_fail 400 e, m1)
           | (None, m1) \<Rightarrow> (http_ok (status_data ''assigned''), m1)))"

definition handleGetTask :: "string \<Rightarrow> Response" where
  "handleGetTask taskID = \<lparr>hp_status = 404, hp_body = AnyMap [(''code'', AnyInt 404), (''msg'', AnyStr ''task not found''),
     (''data'', AnyMap [(''task_id'', AnyStr taskID), (''status'', AnyStr ''not_found'')])]\<rparr>"

text \<open>The product of a duration in seconds with a second wraps at 64 bits.\<close>

definition voucher_expiry :: "int \<Rightarrow> int \<Rightarrow> int" where
  "voucher_expiry nowNs expiresIn = (if 0 < expiresIn then (nowNs + wrap64 (expiresIn * 1000000000)) div 1000000000 else 0)"

definition handleCreateVoucher :: "http_env \<Rightarrow> HttpRequest \<Rightarrow> Manager \<Rightarrow> Response \<times> Manager" where
  "handleCreateVoucher v r m =
     (case do { b \<leftarrow> bind_object r; mx \<leftarrow> bind_int b ''max_uses''; ex \<leftarrow> bind_int b ''expires_in''; n \<leftarrow> bind_str b ''namespace''; x \<leftarrow> bind_str b ''role'';
          Some (mx, ex, n, x) } of
        None \<Rightarrow> (bind_fail r, m)
      | Some (maxUses, expiresIn, namespace, role) \<Rightarrow>
          (case CreateVoucher (he_save v 0) (he_now v) (he_random v) maxUses (voucher_expiry (he_nowNs v) expiresIn)
              (or_default ''permanent'' namespace) (or_default ''node'' role) m of
             (Inl e, m1) \<Rightarrow> (http_fail 500 e, m1)
           | (Inr x, m1) \<Rightarrow> (http_ok (voucher_any x), m1)))"

definition handleListVouchers :: "Manager \<Rightarrow> Response" where
  "handleListVouchers m = http_ok (AnyMap [(''vouchers'', AnyList (map voucher_any (ListVouchers m)))])"

definition handleDeleteVoucher :: "http_env \<Rightarrow> string \<Rightarrow> Manager \<Rightarrow> Response \<times> Manager" where
  "handleDeleteVoucher v code m =
     (case DeleteVoucher (he_save v 0) code m of
        (False, m1) \<Rightarrow> (http_fail 404 ''voucher not found'', m1)
      | (True, m1) \<Rightarrow> (http_ok (status_data ''deleted''), m1))"

definition handleQuery :: "string \<Rightarrow> string \<Rightarrow> Core \<Rightarrow> Response" where
  "handleQuery queryType cid k =
     (let state = co_stateStore k in
      if queryType = ''client'' then
        if cid \<noteq> '''' then
          (case GetClientInfo state cid of None \<Rightarrow> http_fail 404 ''client not found'' | Some client \<Rightarrow> http_ok (client_info_any client))
        else http_ok (AnyList (map client_info_any (ListClients state)))
      else if queryType = ''proxy'' then http_ok (AnyList (map proxy_info_any (ListProxies state)))
      else if queryType = ''relay'' then http_ok (AnyList (map AnyRelay (ListRelaySessions state)))
      else http_fail 400 ''unknown query type'')"

section \<open>Routes\<close>

datatype Route =
    GetPING | GetStatus | GetHealth | PostLogin | PostRegisterApply | PostRegisterVoucher | GetRegisterList
  | GetNodes | GetNodeID string | PostRegisterApprove | PostRegisterRevoke | GetRegisterPending
  | PostVouchers | GetVouchers | DeleteVouchers string
  | GetProxies | PostProxies | DeleteProxies string
  | GetRelay | PostRelay | DeleteRelayID string
  | GetNamespaces | GetNamespaceName string | GetNamespaceNameClients string | PostNamespacesAssign
  | GetTasks string | GetRuntimeQuery string string

fun public_route :: "Route \<Rightarrow> bool" where
  "public_route GetPING = True"
| "public_route GetStatus = True"
| "public_route GetHealth = True"
| "public_route PostLogin = True"
| "public_route PostRegisterApply = True"
| "public_route PostRegisterVoucher = True"
| "public_route GetRegisterList = True"
| "public_route _ = False"

definition on_core :: "(Core \<Rightarrow> Response \<times> Core) \<Rightarrow> Server \<Rightarrow> Response \<times> Server" where
  "on_core f s = (let (r, k) = f (srv_core s) in (r, s\<lparr>srv_core := k\<rparr>))"

definition on_auth :: "(Manager \<Rightarrow> Response \<times> Manager) \<Rightarrow> Server \<Rightarrow> Response \<times> Server" where
  "on_auth f s = (let (r, m) = f (srv_auth s) in (r, s\<lparr>srv_auth := m\<rparr>))"

fun http_handler :: "http_env \<Rightarrow> string \<Rightarrow> Route \<Rightarrow> HttpRequest \<Rightarrow> Server \<Rightarrow> Response \<times> Server" where
  "http_handler v ver GetPING r s = (\<lparr>hp_status = 200, hp_body = AnyStr ''PANG''\<rparr>, s)"
| "http_handler v ver GetStatus r s = (handleStatus v ver (srv_core s), s)"
| "http_handler v ver GetHealth r s = (handleHealth, s)"
| "http_handler v ver PostLogin r s = (handleLogin v r (srv_auth s), s)"
| "http_handler v ver PostRegisterApply r s = on_auth (handleRegisterApply v r) s"
| "http_handler v ver PostRegisterVoucher r s = on_auth (handleRegisterVoucher v r) s"
| "http_handler v ver GetRegisterList r s = (handleRegisterList (srv_auth s), s)"
| "http_handler v ver GetNodes r s = (handleListNodes (srv_core s) (srv_auth s), s)"
| "http_handler v ver (GetNodeID cid) r s = (handleGetNode cid (srv_core s) (srv_auth s), s)"
| "http_handler v ver PostRegisterApprove r s = on_auth (handleRegisterApprove v r) s"
| "http_handler v ver PostRegisterRevoke r s = on_auth (handleRegisterRevoke v r) s"
| "http_handler v ver GetRegisterPending r s = (handleRegisterPending (srv_auth s), s)"
| "http_handler v ver PostVouchers r s = on_auth (handleCreateVoucher v r) s"
| "http_handler v ver GetVouchers r s = (handleListVouchers (srv_auth s), s)"
| "http_handler v ver (DeleteVouchers code) r s = on_auth (handleDeleteVoucher v code) s"
| "http_handler v ver GetProxies r s = (handleListProxies (srv_core s), s)"
| "http_handler v ver PostProxies r s = on_core (handleCreateProxy v r) s"
| "http_handler v ver (DeleteProxies port) r s = on_core (handleDeleteProxy v port) s"
| "http_handler v ver GetRelay r s = (handleListRelays (srv_core s), s)"
| "http_handler v ver PostRelay r s = on_core (handleCreateRelay v r) s"
| "http_handler v ver (DeleteRelayID sid) r s = on_core (handleDeleteRelay v sid) s"
| "http_handler v ver GetNamespaces r s = (handleListNamespaces (srv_auth s), s)"
| "http_handler v ver (GetNamespaceName name) r s = (handleGetNamespace name (srv_auth s), s)"
| "http_handler v ver (GetNamespaceNameClients name) r s = (handleGetNamespaceClients name (srv_auth s), s)"
| "http_handler v ver PostNamespacesAssign r s = on_auth (handleAssignNamespace v r) s"
| "http_handler v ver (GetTasks tid) r s = (handleGetTask tid, s)"
| "http_handler v ver (GetRuntimeQuery t cid) r s = (handleQuery t cid (srv_core s), s)"

text \<open>A request through \<open>SetupRoutes\<close>: the protected group runs the middleware first.\<close>

definition http_serve :: "http_env \<Rightarrow> string \<Rightarrow> Route \<Rightarrow> HttpRequest \<Rightarrow> Server \<Rightarrow> Response \<times> Server" where
  "http_serve v ver rt r s =
     (if public_route rt then http_handler v ver rt r s
      else case requireJWT v (srv_auth s) r of
          Inl resp \<Rightarrow> (resp, s)
        | Inr _ \<Rightarrow> http_handler v ver rt r s)"

section \<open>Lemmas\<close>

declare map_of_eq_Some_iff [simp del]

lemma status_simps [simp]: "hp_status (http_fail c m) = c" "hp_status (http_ok d) = 200" "hp_status (bind_fail r) = 400" "hp_status (handleGetTask tid) = 404"
  by (simp_all add: http_fail_def http_ok_def bind_fail_def handleGetTask_def)

lemma HasPrefix_append: "HasPrefix s p \<longleftrightarrow> (\<exists>t. s = p @ t)"
proof
  assume "HasPrefix s p"
  then have "s = p @ drop (length p) s" unfolding HasPrefix_def by (metis append_take_drop_id)
  then show "\<exists>t. s = p @ t" by blast
qed (auto simp: HasPrefix_def)

lemma TrimPrefix_append [simp]: "TrimPrefix (p @ t) p = t"
  by (simp add: TrimPrefix_def HasPrefix_def)

text \<open>The credentials the middleware accepts, in the order it looks for them.\<close>

definition authorized :: "http_env \<Rightarrow> Manager \<Rightarrow> HttpRequest \<Rightarrow> bool" where
  "authorized v m r \<longleftrightarrow>
     (if hr_authorization r \<noteq> '''' then \<exists>tok claims. hr_authorization r = ''Bearer '' @ tok \<and> he_parse v (am_jwtSecret m) tok = Inr (claims, True)
      else if hr_apiKey r \<noteq> '''' then hr_apiKey r = cfg_APIKey (am_config m)
      else hr_clientToken r \<noteq> '''' \<and> hr_clientToken r = cfg_ClientToken (am_config m))"

lemma requireJWT_bearer:
  assumes "hr_authorization r \<noteq> ''''"
  shows "(\<exists>x. requireJWT v m r = Inr x) \<longleftrightarrow> (\<exists>tok claims. hr_authorization r = ''Bearer '' @ tok \<and> he_parse v (am_jwtSecret m) tok = Inr (claims, True))"
proof (cases "HasPrefix (hr_authorization r) ''Bearer ''")
  case True
  then obtain tok where tok: "hr_authorization r = ''Bearer '' @ tok" using HasPrefix_append by blast
  have "TrimPrefix (hr_authorization r) ''Bearer '' = tok" unfolding tok by (rule TrimPrefix_append)
  then show ?thesis using True assms tok
    by (auto simp: requireJWT_def ValidateToken_def split: sum.split prod.split)
next
  case False
  then show ?thesis using assms HasPrefix_append [of "hr_authorization r" "''Bearer ''"] by (auto simp: requireJWT_def)
qed

lemma requireJWT_passes: "(\<exists>x. requireJWT v m r = Inr x) \<longleftrightarrow> authorized v m r"
proof (cases "hr_authorization r = ''''")
  case True
  then show ?thesis by (auto simp: requireJWT_def authorized_def ValidateAPIKey_def ValidateClientToken_def)
qed (simp add: requireJWT_bearer authorized_def)

lemma requireJWT_refuses: "requireJWT v m r = Inl resp \<Longrightarrow> hp_status resp = 401"
  by (auto simp: requireJWT_def split: if_splits sum.splits)

text \<open>No handler behind the middleware answers 401 itself.\<close>

lemma on_status [simp]: "hp_status (fst (on_core f s)) = hp_status (fst (f (srv_core s)))" "hp_status (fst (on_auth g s)) = hp_status (fst (g (srv_auth s)))"
  by (simp_all add: on_core_def on_auth_def Let_def split_beta)

lemma core_handlers_status [simp]:
  "hp_status (fst (handleCreateProxy v r k)) \<noteq> 401" "hp_status (fst (handleDeleteProxy v p k)) \<noteq> 401"
  "hp_status (fst (handleCreateRelay v r k)) \<noteq> 401" "hp_status (fst (handleDeleteRelay v p k)) \<noteq> 401"
  "hp_status (handleQuery t i k) \<noteq> 401" "hp_status (handleGetNode i k m) \<noteq> 401"
  by (simp_all add: handleCreateProxy_def handleDeleteProxy_def handleCreateRelay_def handleDeleteRelay_def handleQuery_def handleGetNode_def Let_def
      split: option.split)

lemma auth_handlers_status [simp]:
  "hp_status (fst (handleRegisterApprove v r m)) \<noteq> 401" "hp_status (fst (handleRegisterRevoke v r m)) \<noteq> 401"
  "hp_status (fst (handleCreateVoucher v r m)) \<noteq> 401" "hp_status (fst (handleDeleteVoucher v c m)) \<noteq> 401"
  "hp_status (fst (handleAssignNamespace v r m)) \<noteq> 401" "hp_status (handleGetNamespace n m) \<noteq> 401"
  by (simp_all add: handleRegisterApprove_def handleRegisterRevoke_def handleCreateVoucher_def handleDeleteVoucher_def handleAssignNamespace_def
      handleGetNamespace_def split: option.split sum.split prod.split bool.split)

lemma protected_status: "\<not> public_route rt \<Longrightarrow> hp_status (fst (http_handler v ver rt r s)) \<noteq> 401"
  by (cases rt) (simp_all add: handleListNodes_def handleRegisterPending_def handleListProxies_def handleListRelays_def handleListNamespaces_def
      handleGetNamespaceClients_def handleListVouchers_def)

section \<open>Properties\<close>

text \<open>C6. Access control: a request to a protected route reaches its handler exactly when it carries accepted
  credentials (a valid token, else the API key, else the client token); any other request is answered with
  401 and changes nothing.\<close>

theorem http_access_control:
  assumes "\<not> public_route rt"
  shows "(authorized v (srv_auth s) r \<longrightarrow> http_serve v ver rt r s = http_handler v ver rt r s) \<and>
     (\<not> authorized v (srv_auth s) r \<longrightarrow> snd (http_serve v ver rt r s) = s) \<and>
     (hp_status (fst (http_serve v ver rt r s)) = 401 \<longleftrightarrow> \<not> authorized v (srv_auth s) r)"
proof (cases "requireJWT v (srv_auth s) r")
  case (Inl resp)
  moreover from Inl have "\<not> authorized v (srv_auth s) r" using requireJWT_passes [of v "srv_auth s" r] by auto
  ultimately show ?thesis using assms requireJWT_refuses [OF Inl] by (simp add: http_serve_def)
next
  case (Inr x)
  moreover from Inr have "authorized v (srv_auth s) r" using requireJWT_passes [of v "srv_auth s" r] by blast
  ultimately show ?thesis using assms protected_status [OF assms] by (simp add: http_serve_def)
qed

definition sample_http_env :: http_env where
  "sample_http_env = \<lparr>he_nowNs = 5000000000, he_uptimeNs = 0, he_startTime = '''', he_save = (\<lambda>_. SaveOK), he_serial = (\<lambda>_. 1), he_random = ''1'',
     he_sessionID = ''s'', he_token = ''t'', he_eventID = ''e'', he_eventTime = 0, he_sign = (\<lambda>k c. Inr (k @ jc_APIKey c)),
     he_parse = (\<lambda>k t. if HasPrefix t k then Inr (\<lparr>jc_APIKey = TrimPrefix t k, jc_ExpiresAt = 86405, jc_IssuedAt = 5\<rparr>, True) else Inl ''bad''),
     he_crypto = toy_crypto\<rparr>"

definition sample_http :: "json \<Rightarrow> HttpRequest" where
  "sample_http b = \<lparr>hr_authorization = '''', hr_apiKey = '''', hr_clientToken = '''', hr_body = Some b, hr_bindErr = ''EOF''\<rparr>"

definition toy_server :: Server where
  "toy_server = NewServer (NewCore ''ip'' None) 7000 toy_manager None"

lemma toy_server_parts [simp]: "srv_auth toy_server = toy_manager" "srv_core toy_server = NewCore ''ip'' None"
  "cfg_APIKey (am_config toy_manager) = ''k''" "cfg_ClientToken (am_config toy_manager) = ''t''" "am_jwtSecret toy_manager = ''s''"
  by (simp_all add: toy_server_def NewServer_def toy_defs Let_def)

theorem http_access_control_witness:
  "http_serve sample_http_env ''v'' GetProxies (sample_http JNull) toy_server = (fst (http_serve sample_http_env ''v'' GetProxies (sample_http JNull) toy_server), toy_server) \<and>
   hp_status (fst (http_serve sample_http_env ''v'' GetProxies (sample_http JNull) toy_server)) = 401 \<and>
   hp_status (fst (http_serve sample_http_env ''v'' GetProxies ((sample_http JNull)\<lparr>hr_apiKey := ''k''\<rparr>) toy_server)) \<noteq> 401"
proof -
  have a: "\<not> authorized sample_http_env (srv_auth toy_server) (sample_http JNull)"
    "authorized sample_http_env (srv_auth toy_server) ((sample_http JNull)\<lparr>hr_apiKey := ''k''\<rparr>)"
    by (simp_all add: authorized_def sample_http_def)
  show ?thesis
    using http_access_control [of GetProxies sample_http_env toy_server "sample_http JNull" "''v''"]
      http_access_control [of GetProxies sample_http_env toy_server "(sample_http JNull)\<lparr>hr_apiKey := ''k''\<rparr>" "''v''"] a
    by (simp add: prod_eq_iff handleListProxies_def)
qed



section \<open>What requests do to the core and the registry\<close>

text \<open>Every handler acts on the registry through its operations, and on the core by publishing at most one
  well-formed event.\<close>

definition auth_moves :: "crypto \<Rightarrow> Manager \<Rightarrow> Manager \<Rightarrow> bool" where
  "auth_moves cr m m' \<longleftrightarrow> (\<exists>ops. list_all op_int64 ops \<and> m' = foldl (auth_step cr) m ops)"

lemma auth_moves_refl [simp]: "auth_moves cr m m"
  unfolding auth_moves_def by (rule exI [of _ "[]"]) simp

lemma auth_moves_trans: "auth_moves cr m1 m2 \<Longrightarrow> auth_moves cr m2 m3 \<Longrightarrow> auth_moves cr m1 m3"
  unfolding auth_moves_def by (metis foldl_append list_all_append)

lemma auth_moves_op: "op_int64 x \<Longrightarrow> auth_moves cr m (auth_step cr m x)"
  unfolding auth_moves_def by (rule exI [of _ "[x]"]) simp

lemma auth_moves_ops [simp]:
  "mx < 2 ^ 63 \<Longrightarrow> auth_moves cr m (snd (CreateVoucher o' now rnd mx ex ns role m))"
  "auth_moves cr m (snd (UseVoucher o' now code m))"
  "auth_moves cr m (snd (DeleteVoucher o' code m))"
  "auth_moves cr m (snd (AddApplication o' now c pk m))"
  "auth_moves cr m (snd (UpdatePublicKey o' c pk m))"
  "auth_moves cr m (snd (Approve cr o' serial now c ns role m))"
  "auth_moves cr m (snd (auth_Delete o' c m))"
  "auth_moves cr m (snd (SetClientNamespace o' c ns role m))"
  using auth_moves_op [of "OpCreateVoucher o' now rnd mx ex ns role" cr m] auth_moves_op [of "OpUseVoucher o' now code" cr m]
    auth_moves_op [of "OpDeleteVoucher o' code" cr m] auth_moves_op [of "OpAddApplication o' now c pk" cr m]
    auth_moves_op [of "OpUpdatePublicKey o' c pk" cr m]
    auth_moves_op [of "OpApprove o' serial now c ns role" cr m] auth_moves_op [of "OpDelete o' c" cr m]
    auth_moves_op [of "OpSetClientNamespace o' c ns role" cr m]
  by (simp_all add: op_int64_def)

lemma auth_moves_snd: "auth_moves cr m (snd p) \<Longrightarrow> p = (x, m') \<Longrightarrow> auth_moves cr m m'"
  by simp

lemma auth_moves_reset: "auth_moves cr m (ResetClientStatus o' c m)"
  using auth_moves_op [of "OpResetClientStatus o' c" cr m] by (simp add: op_int64_def)

lemmas auth_moves_D = auth_moves_ops [THEN auth_moves_snd]

lemma voucher_enter_moves: "auth_moves cr m (snd (voucher_enter v c pk m))"
  unfolding voucher_enter_def
  by (auto split: prod.split option.split intro: auth_moves_D(4) auth_moves_trans [OF auth_moves_D(4) auth_moves_ops(5)])

lemma voucher_approve_moves: "he_crypto v = cr \<Longrightarrow> auth_moves cr m (snd (voucher_approve v c ns role m))"
  unfolding voucher_approve_def
  by (auto split: prod.split sum.split
      intro: auth_moves_D(6) auth_moves_trans [OF auth_moves_D(6) auth_moves_trans [OF auth_moves_reset auth_moves_ops(6)]])

lemma bind_int_bound: "bind_int b k = Some n \<Longrightarrow> n < 2 ^ 63"
  by (auto simp: bind_int_def split: option.splits json.splits if_splits)

lemma handlers_move_auth:
  assumes "he_crypto v = cr"
  shows "auth_moves cr m (snd (handleRegisterApply v r m))" "auth_moves cr m (snd (handleRegisterApprove v r m))"
    "auth_moves cr m (snd (handleRegisterRevoke v r m))" "auth_moves cr m (snd (handleAssignNamespace v r m))"
    "auth_moves cr m (snd (handleDeleteVoucher v code m))"
  using assms
  unfolding handleRegisterApply_def handleRegisterApprove_def handleRegisterRevoke_def handleAssignNamespace_def handleDeleteVoucher_def
  by (auto split: option.split sum.split prod.split bool.split intro: auth_moves_D)

lemma handleCreateVoucher_moves: "auth_moves cr m (snd (handleCreateVoucher v r m))"
  unfolding handleCreateVoucher_def
  by (auto split: option.split sum.split prod.split bind_splits dest!: bind_int_bound intro: auth_moves_D(1))

lemma handleRegisterVoucher_moves:
  assumes "he_crypto v = cr"
  shows "auth_moves cr m (snd (handleRegisterVoucher v r m))"
  unfolding handleRegisterVoucher_def
  by (auto simp: Let_def split: option.split sum.split prod.split
      intro: auth_moves_D(2) auth_moves_trans [OF auth_moves_D(2) voucher_enter_moves [THEN auth_moves_snd]]
        auth_moves_trans [OF auth_moves_D(2) auth_moves_trans [OF voucher_enter_moves [THEN auth_moves_snd] voucher_approve_moves [OF assms, THEN auth_moves_snd]]])

lemma on_frame [simp]:
  "srv_core (snd (on_core f s)) = snd (f (srv_core s))" "srv_auth (snd (on_core f s)) = srv_auth s"
  "srv_core (snd (on_auth g s)) = srv_core s" "srv_auth (snd (on_auth g s)) = snd (g (srv_auth s))"
  "server_inv (snd (on_core f s)) = server_inv s" "server_inv (snd (on_auth g s)) = server_inv s"
  by (simp_all add: on_core_def on_auth_def Let_def split_beta)

definition publishes :: "Core \<Rightarrow> Core \<Rightarrow> bool" where
  "publishes k k' \<longleftrightarrow> k' = k \<or> (\<exists>e. event_ok e \<and> k' = core_Publish e k)"

lemma publishes_simps [simp]: "publishes k k" "event_ok e \<Longrightarrow> publishes k (core_Publish e k)"
  by (auto simp: publishes_def)

lemma http_event_ok [simp]:
  "n = proxyKey (ps_ClientID p) (ps_RemotePort p) \<Longrightarrow> event_ok (NewGenericEvent gid t (proxy_key n) ''ADDED'' (AnyProxy p))"
  "event_ok (NewGenericEvent gid t (proxy_key (proxyKey c q)) ''DELETED'' x)"
  "et \<in> {''ADDED'', ''DELETED''} \<Longrightarrow> event_ok (NewGenericEvent gid t (relay_key n) et x)"
  by (auto simp: event_ok_def NewGenericEvent_def proxy_key_def relay_key_def) (simp_all add: proxyKey_def)

lemma handlers_publish [simp]:
  "publishes k (snd (handleCreateProxy v r k))" "publishes k (snd (handleDeleteProxy v port k))"
  "publishes k (snd (handleCreateRelay v r k))" "publishes k (snd (handleDeleteRelay v sid k))"
  unfolding handleCreateProxy_def handleDeleteProxy_def handleCreateRelay_def handleDeleteRelay_def Let_def
  by (auto split: option.split intro!: publishes_simps(2) http_event_ok)

lemma http_publishes: "publishes (srv_core s) (srv_core (snd (http_serve v ver rt r s)))"
proof -
  have "publishes (srv_core s) (srv_core (snd (http_handler v ver rt r s)))" by (cases rt) simp_all
  then show ?thesis by (simp add: http_serve_def split: sum.split)
qed

lemma http_moves_auth: "he_crypto v = cr \<Longrightarrow> auth_moves cr (srv_auth s) (srv_auth (snd (http_serve v ver rt r s)))"
proof -
  assume cr: "he_crypto v = cr"
  have "auth_moves cr (srv_auth s) (srv_auth (snd (http_handler v ver rt r s)))"
    using handlers_move_auth [OF cr] handleRegisterVoucher_moves [OF cr] handleCreateVoucher_moves by (cases rt) simp_all
  then show ?thesis by (simp add: http_serve_def split: sum.split)
qed

lemma http_server_inv: "server_inv s \<Longrightarrow> server_inv (snd (http_serve v ver rt r s))"
  by (cases rt) (simp_all add: http_serve_def split: sum.split)

text \<open>The proxy a valid request describes, with the defaults filled in.\<close>

definition requested_proxy :: "ProxyState \<Rightarrow> ProxyState" where
  "requested_proxy q = q\<lparr>ps_Protocol := or_default ''tcp'' (ps_Protocol q), ps_LocalIP := or_default ''127.0.0.1'' (ps_LocalIP q),
     ps_BindAddr := or_default ''0.0.0.0'' (ps_BindAddr q)\<rparr>"

definition proxy_request_ok :: "ProxyState \<Rightarrow> bool" where
  "proxy_request_ok q \<longleftrightarrow> ps_ClientID q \<noteq> '''' \<and> ps_RemotePort q \<in> {1..65535} \<and> ps_LocalPort q \<in> {1..65535} \<and> ps_Protocol q \<in> {'''', ''tcp'', ''udp''}"

lemma handleCreateProxy_cases:
  "handleCreateProxy v r k =
     (case bind_proxy r of
        Some q \<Rightarrow>
          (if proxy_request_ok q then
             (http_ok (status_data ''created''),
              core_Publish (NewGenericEvent (he_eventID v) (he_eventTime v) (proxy_key (proxyKey (ps_ClientID q) (ps_RemotePort q))) ''ADDED'' (AnyProxy (requested_proxy q))) k)
           else (fst (handleCreateProxy v r k), k))
      | None \<Rightarrow> (bind_fail r, k))"
  "bind_proxy r = Some q \<Longrightarrow> \<not> proxy_request_ok q \<Longrightarrow> hp_status (fst (handleCreateProxy v r k)) = 400"
  by (auto simp: handleCreateProxy_def proxy_request_ok_def requested_proxy_def port_ok_def or_default_def Let_def split: option.split)

lemma Apply_proxy_added:
  "GetProxy (Apply now (NewGenericEvent gid t (proxy_key name) ''ADDED'' (AnyProxy p)\<lparr>ev_Sequence := n\<rparr>) s) c q =
     (if c = ps_ClientID p \<and> q = ps_RemotePort p then Some p else GetProxy s c q)"
  by (auto simp: GetProxy_proxyKey Apply_def applyProxyEvent_def NewGenericEvent_def proxy_key_def parseProxyFromPayload_def Let_def)

lemma Apply_proxy_deleted:
  "GetProxy (Apply now (NewGenericEvent gid t (proxy_key (proxyKey c' q')) ''DELETED'' AnyNil\<lparr>ev_Sequence := n\<rparr>) s) c q =
     (if c = c' \<and> q = q' then None else GetProxy s c q)"
  by (auto simp: GetProxy_proxyKey Apply_def applyProxyEvent_def NewGenericEvent_def proxy_key_def Let_def)

lemma http_event_type [simp]: "ev_type (NewGenericEvent gid t (proxy_key n) et x) = ''proxy''" "ev_type (NewGenericEvent gid t (relay_key n) et x) = ''relay''"
  by (simp_all add: NewGenericEvent_def proxy_key_def relay_key_def)

lemma drain_event:
  assumes "takes t (co_eventBus k)" "wired (co_eventBus k)" "queued t (co_eventBus k) = []" "ev_type e = t" "t \<in> {''client'', ''proxy'', ''relay''}"
  shows "\<exists>n. co_stateStore (drain enc now v t (core_Publish e k)) = Apply now (e\<lparr>ev_Sequence := n\<rparr>) (co_stateStore k)"
  using drain_published [OF assms(1,2) _ assms(4) core_Publish_same_store [symmetric] assms(5), of enc now v] assms(3) by (simp add: queueCap_def)


definition proxy_body :: json where
  "proxy_body = JObj [(''client_id'', JStr ''c''), (''remote_port'', JInt 8080), (''local_port'', JInt 80)]"

lemma proxy_body_bound:
  "bind_proxy (sample_http proxy_body) = Some \<lparr>ps_ClientID = ''c'', ps_RemotePort = 8080, ps_LocalPort = 80, ps_LocalIP = '''', ps_Protocol = '''', ps_BindAddr = ''''\<rparr>"
  by (simp add: bind_proxy_def sample_http_def proxy_body_def bind_object_def bind_str_def bind_int_def)


lemma Atoi_fmt_int:
  assumes "0 \<le> q" "q < 2 ^ 63"
  shows "Atoi (fmt_int q) = Some q"
proof -
  obtain c cs where c: "nat_digits (nat q) = c # cs" by (cases "nat_digits (nat q)") (use fmt_int_Nil [of q] assms(1) in \<open>auto simp: fmt_int_def\<close>)
  have d: "x \<in> set ''0123456789''" if "x \<in> set (nat_digits (nat q))" for x
    using fmt_int_nonneg_chars [OF assms(1), of x] that assms(1) by (simp add: fmt_int_def)
  have "scan_sign (nat_digits (nat q)) = (False, nat_digits (nat q))" unfolding c using scan_sign_digit [of c cs] d c by simp
  moreover have "list_all (\<lambda>c. c \<in> set ''0123456789'') (nat_digits (nat q))" unfolding list_all_iff using d by blast
  moreover have "nat_digits (nat q) \<noteq> ''''" using c by simp
  ultimately show ?thesis using assms by (simp add: Atoi_def fmt_int_def)
qed

lemma listed_proxy:
  assumes "store_inv s" "(k, p) \<in> set (ss_proxies s)"
  shows "GetProxy s (ps_ClientID p) (ps_RemotePort p) = Some p"
proof -
  have "mget (ss_proxies s) k = Some p" using assms by (simp add: store_inv_defs)
  then show ?thesis by (simp only: GetProxy_proxyKey proxies_ok_key [OF assms(1) \<open>mget (ss_proxies s) k = Some p\<close>])
qed

lemma found_proxy:
  assumes "store_inv s" "GetProxy s c port = Some p" "\<forall>c' p'. GetProxy s c' port = Some p' \<longrightarrow> c' = c"
  shows "\<exists>i. find (\<lambda>i. pi_RemotePort i = port) (ListProxies s) = Some i \<and> pi_ClientID i = c \<and> pi_RemotePort i = port"
proof -
  have key: "proxyKey c port = proxyKey (ps_ClientID p) (ps_RemotePort p)" using proxies_ok_key [OF assms(1)] assms(2) by (simp add: GetProxy_proxyKey)
  have "(proxyKey c port, p) \<in> set (ss_proxies s)" using assms(2) by (simp add: GetProxy_proxyKey map_of_SomeD)
  then have "find (\<lambda>i. pi_RemotePort i = port) (ListProxies s) \<noteq> None" using key unfolding find_None_iff by (force simp: ListProxies_def)
  then obtain i where i: "find (\<lambda>i. pi_RemotePort i = port) (ListProxies s) = Some i" by blast
  then have "pi_RemotePort i = port" "i \<in> set (ListProxies s)" by (auto simp: find_Some_iff in_set_conv_nth)
  then obtain k p' where p': "(k, p') \<in> set (ss_proxies s)" "pi_ClientID i = ps_ClientID p'" "ps_RemotePort p' = port" by (auto simp: ListProxies_def)
  have "GetProxy s (ps_ClientID p') port = Some p'" using listed_proxy [OF assms(1) p'(1)] p'(3) by simp
  then show ?thesis using assms(3) i p' \<open>pi_RemotePort i = port\<close> by blast
qed


definition sample_core :: Core where
  "sample_core = (NewCore ''ip'' None)\<lparr>co_stateStore := Apply 0 (NewGenericEvent ''e'' 0 (proxy_key (proxyKey ''c'' 8080)) ''ADDED''
     (AnyProxy (zero_ProxyState\<lparr>ps_ClientID := ''c'', ps_RemotePort := 8080\<rparr>))) (NewStateStore ''ip'')\<rparr>"

lemma sample_core_proxy: "GetProxy (co_stateStore sample_core) c q =
   (if c = ''c'' \<and> q = 8080 then Some (zero_ProxyState\<lparr>ps_ClientID := ''c'', ps_RemotePort := 8080\<rparr>) else None)"
  by (auto simp: sample_core_def GetProxy_proxyKey Apply_def applyProxyEvent_def NewGenericEvent_def proxy_key_def parseProxyFromPayload_def
      NewStateStore_def zero_ProxyState_def Let_def)


section \<open>Registration with a voucher\<close>

lemma saved_tables:
  "saveRegistry o' m = (e, m1) \<Longrightarrow> am_clients m1 = am_clients m \<and> am_vouchers m1 = am_vouchers m"
  "saveVouchers o' m = (e, m1) \<Longrightarrow> am_clients m1 = am_clients m \<and> am_vouchers m1 = am_vouchers m"
  using saveRegistry_parts(1,2) [of o' m] saveVouchers_parts(1,2) [of o' m] by simp_all

text \<open>The steps of a registration that succeeds.\<close>

lemma UseVoucher_success:
  assumes "UseVoucher o' now code m = (Inr x, m1)"
  shows "\<exists>x0. mget (am_vouchers m) code = Some x0 \<and> (vc_ExpiresAt x0 \<le> 0 \<or> now \<le> vc_ExpiresAt x0) \<and> (0 < vc_MaxUses x0 \<longrightarrow> vc_UsedCount x0 < vc_MaxUses x0) \<and>
      x = x0\<lparr>vc_UsedCount := wrap64 (vc_UsedCount x0 + 1)\<rparr> \<and> mget (am_vouchers m1) code = Some x"
    and "am_clients m1 = am_clients m"
  using assms by (auto simp: UseVoucher_def Let_def dest!: saved_tables split: option.splits if_splits prod.splits)

lemma voucher_enter_success:
  assumes "voucher_enter v c pk m = (None, m1)"
  shows "\<exists>x. mget (am_clients m1) c = Some x \<and> cl_PublicKey x = pk \<and> cl_Status x = ''pending''" "am_vouchers m1 = am_vouchers m"
  using assms by (auto simp: voucher_enter_def AddApplication_def UpdatePublicKey_def Let_def dest!: saved_tables split: option.splits prod.splits if_splits)

lemma Approve_success:
  assumes "Approve cr o' serial now c ns role m = (Inr cert, m1)"
  shows "\<exists>x. mget (am_clients m) c = Some x \<and> mget (am_clients m1) c = Some (x\<lparr>cl_Status := ''approved'', cl_Certificate := cert, cl_Namespace := ns,
      cl_Role := role, cl_ApprovedAt := now\<rparr>)" "am_vouchers m1 = am_vouchers m"
  using assms by (auto simp: Approve_def Let_def dest!: saved_tables split: option.splits if_splits sum.splits prod.splits)

lemma Approve_failed_keeps:
  assumes "Approve cr o' serial now c ns role m = (Inl e, m1)" "mget (am_clients m) c = Some x"
  shows "\<exists>y. mget (am_clients m1) c = Some y \<and> cl_PublicKey y = cl_PublicKey x" "am_vouchers m1 = am_vouchers m"
  using assms by (auto simp: Approve_def Let_def dest!: saved_tables split: option.splits if_splits sum.splits prod.splits)

lemma ResetClientStatus_keeps:
  "mget (am_clients m) c = Some x \<Longrightarrow> \<exists>y. mget (am_clients (ResetClientStatus o' c m)) c = Some y \<and> cl_PublicKey y = cl_PublicKey x"
  "am_vouchers (ResetClientStatus o' c m) = am_vouchers m"
  by (auto simp: ResetClientStatus_def split: option.split)

lemma voucher_approve_success:
  assumes "voucher_approve v c ns role m = (Inr cert, m1)" "mget (am_clients m) c = Some x"
  shows "\<exists>y. mget (am_clients m1) c = Some y \<and> cl_Status y = ''approved'' \<and> cl_PublicKey y = cl_PublicKey x \<and> cl_Certificate y = cert \<and>
      cl_Namespace y = ns \<and> cl_Role y = role" "am_vouchers m1 = am_vouchers m"
proof -
  obtain res m2 where a: "Approve (he_crypto v) (he_save v 3) (he_serial v 0) (he_now v) c ns role m = (res, m2)" by fastforce
  have "(\<exists>y. mget (am_clients m1) c = Some y \<and> cl_Status y = ''approved'' \<and> cl_PublicKey y = cl_PublicKey x \<and> cl_Certificate y = cert \<and>
      cl_Namespace y = ns \<and> cl_Role y = role) \<and> am_vouchers m1 = am_vouchers m"
  proof (cases res)
    case (Inr cert')
    then have "cert' = cert" "m2 = m1" using assms(1) a by (simp_all add: voucher_approve_def)
    then show ?thesis using Approve_success [OF a [unfolded Inr]] assms(2) by auto
  next
    case (Inl e)
    note keep = Approve_failed_keeps [OF a [unfolded Inl] assms(2)]
    obtain y where y: "mget (am_clients m2) c = Some y" "cl_PublicKey y = cl_PublicKey x" using keep(1) by blast
    have ap: "Approve (he_crypto v) (he_save v 5) (he_serial v 1) (he_now v) c ns role (ResetClientStatus (he_save v 4) c m2) = (Inr cert, m1)"
      using assms(1) a Inl by (auto simp: voucher_approve_def split: if_splits)
    show ?thesis using Approve_success [OF ap] ResetClientStatus_keeps(1) [OF y(1), of "he_save v 4"] ResetClientStatus_keeps(2) [of "he_save v 4" c m2] keep(2) y(2) by auto
  qed
  then show "\<exists>y. mget (am_clients m1) c = Some y \<and> cl_Status y = ''approved'' \<and> cl_PublicKey y = cl_PublicKey x \<and> cl_Certificate y = cert \<and>
      cl_Namespace y = ns \<and> cl_Role y = role" "am_vouchers m1 = am_vouchers m" by blast+
qed

lemma auth_moves_inv: "auth_moves cr m m' \<Longrightarrow> auth_inv cr m \<Longrightarrow> auth_inv cr m'"
  unfolding auth_moves_def using auth.run_inv by blast

text \<open>What a registration has used and what it leaves: one use of a voucher that was good, and an approved
  client with the key it sent, in the namespace and role of the voucher, with a certificate the CA issued for
  that key and that client.\<close>

definition voucher_spent :: "http_env \<Rightarrow> string \<Rightarrow> Voucher \<Rightarrow> Manager \<Rightarrow> Manager \<Rightarrow> bool" where
  "voucher_spent v code x m m' \<longleftrightarrow> mget (am_vouchers m) code = Some x \<and> (vc_ExpiresAt x \<le> 0 \<or> he_now v \<le> vc_ExpiresAt x) \<and>
     (0 < vc_MaxUses x \<longrightarrow> vc_UsedCount x < vc_MaxUses x) \<and> mget (am_vouchers m') code = Some (x\<lparr>vc_UsedCount := wrap64 (vc_UsedCount x + 1)\<rparr>)"

definition certified :: "http_env \<Rightarrow> string \<Rightarrow> string \<Rightarrow> Voucher \<Rightarrow> ClientRecord \<Rightarrow> Manager \<Rightarrow> bool" where
  "certified v clientID pk x c m' \<longleftrightarrow> GetByClientID m' clientID = Some c \<and> cl_Status c = ''approved'' \<and> cl_PublicKey c = pk \<and>
     cl_Namespace c = or_default ''permanent'' (vc_Namespace x) \<and> cl_Role c = or_default ''node'' (vc_Role x) \<and>
     issued (he_crypto v) (am_caCert m') (am_caKey m') pk clientID (cl_Certificate c)"

definition certificate_answer :: "ClientRecord \<Rightarrow> Response" where
  "certificate_answer c = http_ok (AnyMap [(''certificate'', AnyStr (cl_Certificate c)), (''namespace'', AnyStr (cl_Namespace c)), (''role'', AnyStr (cl_Role c))])"

lemma handleRegisterVoucher_200:
  assumes "handleRegisterVoucher v r m = (resp, m')" "hp_status resp = 200" "bind_voucher r = Some (clientID, pk, code)"
  obtains x m1 m2 cert where "UseVoucher (he_save v 0) (he_now v) code m = (Inr x, m1)" "voucher_enter v clientID pk m1 = (None, m2)"
    "voucher_approve v clientID (or_default ''permanent'' (vc_Namespace x)) (or_default ''node'' (vc_Role x)) m2 = (Inr cert, m')"
    "resp = http_ok (AnyMap [(''certificate'', AnyStr cert), (''namespace'', AnyStr (or_default ''permanent'' (vc_Namespace x))),
        (''role'', AnyStr (or_default ''node'' (vc_Role x)))])"
proof -
  obtain u m1 where u: "UseVoucher (he_save v 0) (he_now v) code m = (u, m1)" by fastforce
  note h = assms(1) [unfolded handleRegisterVoucher_def, unfolded assms(3), simplified, unfolded u]
  have ne: "clientID \<noteq> ''''" "pk \<noteq> ''''" "code \<noteq> ''''" using h assms(2) by (auto split: if_splits)
  show thesis
  proof (cases u)
    case (Inl e)
    then show thesis using h ne assms(2) by auto
  next
    case (Inr x)
    obtain e m2 where e: "voucher_enter v clientID pk m1 = (e, m2)" by fastforce
    obtain a m3 where a: "voucher_approve v clientID (or_default ''permanent'' (vc_Namespace x)) (or_default ''node'' (vc_Role x)) m2 = (a, m3)" by fastforce
    have e': "e = None" using h ne assms(2) Inr e by (cases e) auto
    note h' = h [unfolded Inr, simplified ne, simplified, unfolded e e' Let_def, simplified, unfolded a, simplified]
    obtain cert where "a = Inr cert" using h' assms(2) by (cases a) auto
    then show thesis using that [of x m1 m2 cert] h' u e e' a Inr by simp
  qed
qed

lemma handleRegisterVoucher_bound: "handleRegisterVoucher v r m = (resp, m') \<Longrightarrow> hp_status resp = 200 \<Longrightarrow> \<exists>c p x. bind_voucher r = Some (c, p, x)"
  by (cases "bind_voucher r") (auto simp: handleRegisterVoucher_def)

text \<open>C7. A registration with a voucher is paid for and certified. Whatever is sent, the registry stays sound.
  When the answer is 200, the voucher named in the request was there, had not expired and had a use left, and
  one use of it is counted; the client is approved with the key it sent, in the namespace of the voucher, and
  the certificate in the answer is the one the CA issued for that key and that client.\<close>

theorem voucher_registration:
  assumes "auth_inv (he_crypto v) m" and "handleRegisterVoucher v r m = (resp, m')"
  shows "auth_inv (he_crypto v) m' \<and>
     (hp_status resp = 200 \<longrightarrow> (\<exists>clientID pk code x c. bind_voucher r = Some (clientID, pk, code) \<and>
        voucher_spent v code x m m' \<and> certified v clientID pk x c m' \<and> resp = certificate_answer c))"
proof (intro conjI impI)
  show inv: "auth_inv (he_crypto v) m'"
    using auth_moves_inv [OF auth_moves_snd [OF handleRegisterVoucher_moves [OF refl] assms(2)] assms(1)] .
  assume ok: "hp_status resp = 200"
  obtain clientID pk code where b: "bind_voucher r = Some (clientID, pk, code)" using handleRegisterVoucher_bound [OF assms(2) ok] by blast
  from handleRegisterVoucher_200 [OF assms(2) ok b] obtain x m1 m2 cert where
    u: "UseVoucher (he_save v 0) (he_now v) code m = (Inr x, m1)" and e: "voucher_enter v clientID pk m1 = (None, m2)"
    and a: "voucher_approve v clientID (or_default ''permanent'' (vc_Namespace x)) (or_default ''node'' (vc_Role x)) m2 = (Inr cert, m')"
    and resp: "resp = http_ok (AnyMap [(''certificate'', AnyStr cert), (''namespace'', AnyStr (or_default ''permanent'' (vc_Namespace x))),
        (''role'', AnyStr (or_default ''node'' (vc_Role x)))])" .
  obtain x0 where x0: "mget (am_vouchers m) code = Some x0" "vc_ExpiresAt x0 \<le> 0 \<or> he_now v \<le> vc_ExpiresAt x0" "0 < vc_MaxUses x0 \<longrightarrow> vc_UsedCount x0 < vc_MaxUses x0"
    "x = x0\<lparr>vc_UsedCount := wrap64 (vc_UsedCount x0 + 1)\<rparr>" "mget (am_vouchers m1) code = Some x" using UseVoucher_success(1) [OF u] by blast
  obtain y where y: "mget (am_clients m2) clientID = Some y" "cl_PublicKey y = pk" using voucher_enter_success(1) [OF e] by blast
  obtain c where c: "mget (am_clients m') clientID = Some c" "cl_Status c = ''approved''" "cl_PublicKey c = pk" "cl_Certificate c = cert"
    "cl_Namespace c = or_default ''permanent'' (vc_Namespace x)" "cl_Role c = or_default ''node'' (vc_Role x)"
    using voucher_approve_success(1) [OF a y(1)] y(2) by blast
  have "mget (am_vouchers m') code = Some x" using voucher_approve_success(2) [OF a y(1)] voucher_enter_success(2) [OF e] x0(5) by simp
  then have "voucher_spent v code x0 m m'" using x0 by (simp add: voucher_spent_def)
  moreover have "client_ok (he_crypto v) (am_caCert m') (am_caKey m') clientID c" using inv c(1) by (simp add: auth_inv_def registry_ok_def)
  then have "certified v clientID pk x0 c m'" using c x0(4) by (simp add: certified_def GetByClientID_def client_ok_def)
  moreover have "resp = certificate_answer c" using resp c by (simp add: certificate_answer_def)
  ultimately show "\<exists>clientID pk code x c. bind_voucher r = Some (clientID, pk, code) \<and>
        voucher_spent v code x m m' \<and> certified v clientID pk x c m' \<and> resp = certificate_answer c" using b by blast
qed

definition voucher_body :: json where
  "voucher_body = JObj [(''client_id'', JStr ''c''), (''public_key'', JStr ''pk''), (''voucher'', JStr ''vch_1'')]"

definition voucher_manager :: Manager where
  "voucher_manager = snd (CreateVoucher SaveOK 2 ''1'' 1 0 '''' '''' toy_manager)"

lemma voucher_body_bound: "bind_voucher (sample_http voucher_body) = Some (''c'', ''pk'', ''vch_1'')"
  by (simp add: bind_voucher_def sample_http_def voucher_body_def bind_object_def bind_str_def)

lemma voucher_manager_parts:
  "am_clients voucher_manager = []" "am_caCert voucher_manager = Some (bytes_of ''Aether CA'')" "am_caKey voucher_manager = Some [1]"
  "mget (am_vouchers voucher_manager) ''vch_1'' = Some \<lparr>vc_Code = ''vch_1'', vc_MaxUses = 1, vc_UsedCount = 0, vc_ExpiresAt = 0, vc_Namespace = '''', vc_Role = '''', vc_CreatedAt = 2\<rparr>"
  by (simp_all add: voucher_manager_def CreateVoucher_def Let_def saveOK toy_parts)

lemma voucher_manager_inv: "auth_inv toy_crypto voucher_manager"
  unfolding voucher_manager_def
  by (rule auth_moves_inv [OF auth_moves_ops(1) auth_inv_Init [OF toy_init]]) (simp_all add: dir_ok_def empty_dir_def)

lemma sample_http_env_parts [simp]: "he_save sample_http_env n = SaveOK" "he_crypto sample_http_env = toy_crypto"
  by (simp_all add: sample_http_env_def)

theorem voucher_registration_witness:
  "\<exists>x c. voucher_spent sample_http_env ''vch_1'' x voucher_manager (snd (handleRegisterVoucher sample_http_env (sample_http voucher_body) voucher_manager)) \<and>
     certified sample_http_env ''c'' ''pk'' x c (snd (handleRegisterVoucher sample_http_env (sample_http voucher_body) voucher_manager))"
proof -
  have "hp_status (fst (handleRegisterVoucher sample_http_env (sample_http voucher_body) voucher_manager)) = 200"
    by (simp add: handleRegisterVoucher_def voucher_body_bound UseVoucher_def voucher_manager_parts Let_def saveOK voucher_enter_def AddApplication_def
        voucher_approve_def Approve_def toy_sign)
  then show ?thesis
    using voucher_registration [of sample_http_env voucher_manager "sample_http voucher_body", OF _ prod.collapse [symmetric]] voucher_manager_inv
    by (auto simp: voucher_body_bound)
qed

text \<open>A registration that fails has spent its voucher: the use is counted before the key is looked at, and it
  is not given back when no certificate can be issued for it.\<close>

theorem failed_registration_spends_voucher:
  assumes "bind_voucher r = Some (c, pk, code)" and "c \<noteq> ''''" and "pk \<noteq> ''''" and "code \<noteq> ''''"
    and "UseVoucher (he_save v 0) (he_now v) code m = (Inr x, m1)" and "mget (am_clients m) c = None" and "he_save v 1 = SaveOK"
    and "cr_pemDecode (he_crypto v) pk = None" and "handleRegisterVoucher v r m = (resp, m')"
  shows "resp = http_fail 500 ''invalid public key PEM'' \<and> mget (am_vouchers m') code = Some x"
proof -
  have c: "mget (am_clients m1) c = None" using UseVoucher_success(2) [OF assms(5)] assms(6) by simp
  define rec where "rec = \<lparr>cl_ClientID = c, cl_PublicKey = pk, cl_Certificate = '''', cl_Status = ''pending'',
    cl_Namespace = ''permanent'', cl_Role = ''node'', cl_CreatedAt = he_now v, cl_ApprovedAt = 0\<rparr>"
  have e: "voucher_enter v c pk m1 = (None, snd (saveRegistry SaveOK (m1\<lparr>am_clients := mput (am_clients m1) c rec\<rparr>)))"
    using c assms(7) by (simp add: voucher_enter_def AddApplication_def Let_def saveOK rec_def)
  have "Approve (he_crypto v) o' serial now c ns role (snd (saveRegistry SaveOK (m1\<lparr>am_clients := mput (am_clients m1) c rec\<rparr>))) =
      (Inl ''invalid public key PEM'', snd (saveRegistry SaveOK (m1\<lparr>am_clients := mput (am_clients m1) c rec\<rparr>)))" for o' serial now ns role
    using assms(8) by (simp add: Approve_def signClientCertificate_def rec_def)
  then have "voucher_approve v c ns role (snd (saveRegistry SaveOK (m1\<lparr>am_clients := mput (am_clients m1) c rec\<rparr>))) =
      (Inl ''invalid public key PEM'', snd (saveRegistry SaveOK (m1\<lparr>am_clients := mput (am_clients m1) c rec\<rparr>)))" for ns role
    by (simp add: voucher_approve_def HasPrefix_def)
  then have "resp = http_fail 500 ''invalid public key PEM''" "m' = snd (saveRegistry SaveOK (m1\<lparr>am_clients := mput (am_clients m1) c rec\<rparr>))"
    using assms(1-5,9) e by (simp_all add: handleRegisterVoucher_def Let_def)
  then show ?thesis using UseVoucher_success(1) [OF assms(5)] by auto
qed

definition apply_request :: "string \<Rightarrow> string \<Rightarrow> string \<Rightarrow> HttpRequest" where
  "apply_request c pk tok = sample_http (JObj [(''client_id'', JStr c), (''public_key'', JStr pk), (''token'', JStr tok)])"

definition approve_request :: "string \<Rightarrow> string \<Rightarrow> string \<Rightarrow> string \<Rightarrow> HttpRequest" where
  "approve_request c ns role tok = (sample_http (JObj [(''client_id'', JStr c), (''namespace'', JStr ns), (''role'', JStr role)]))\<lparr>hr_clientToken := tok\<rparr>"

lemma sign_same_ca: "am_caCert m' = am_caCert m \<Longrightarrow> am_caKey m' = am_caKey m \<Longrightarrow> signClientCertificate cr n now m' pk c d = signClientCertificate cr n now m pk c d"
  by (simp only: signClientCertificate_def)

text \<open>C38. The token every client has is enough to manage the server: whoever holds it can apply with a key of
  their own and then approve the application, in any namespace and role, and gets a certificate.\<close>

theorem client_token_approves_itself:
  assumes "tok = cfg_ClientToken (am_config (srv_auth s))" and "tok \<noteq> ''''" and "mget (am_clients (srv_auth s)) c = None" and "he_save v 0 = SaveOK"
    and "signClientCertificate (he_crypto v) (he_serial v 0) (he_now v) (srv_auth s) pk c 365 = Inr cert"
    and "s1 = snd (http_serve v ver PostRegisterApply (apply_request c pk tok) s)"
    and "http_serve v ver PostRegisterApprove (approve_request c ns role tok) s1 = (resp, s2)"
  shows "hp_status resp = 200 \<and> (\<exists>x. GetByClientID (srv_auth s2) c = Some x \<and> cl_Status x = ''approved'' \<and> cl_Certificate x = cert \<and> cl_Role x = role)"
proof -
  define m1 where "m1 = snd (AddApplication SaveOK (he_now v) c pk (srv_auth s))"
  have s1: "srv_auth s1 = m1"
    using assms(1,3,4,6) by (simp add: m1_def http_serve_def handleRegisterApply_def apply_request_def sample_http_def bind_object_def bind_str_def
        ValidateClientToken_def AddApplication_def Let_def saveOK)
  have m1: "am_config m1 = am_config (srv_auth s)" "am_caCert m1 = am_caCert (srv_auth s)" "am_caKey m1 = am_caKey (srv_auth s)"
    "\<exists>x. mget (am_clients m1) c = Some x \<and> cl_PublicKey x = pk \<and> cl_Status x = ''pending''"
    using assms(3) by (simp_all add: m1_def AddApplication_def Let_def saveOK)
  then obtain x where x: "mget (am_clients m1) c = Some x" "cl_PublicKey x = pk" "cl_Status x = ''pending''" by blast
  have pass: "requireJWT v (srv_auth s1) (approve_request c ns role tok) = Inr None"
    using assms(1,2) m1(1) by (simp add: s1 requireJWT_def approve_request_def sample_http_def ValidateClientToken_def)
  obtain m2 where ap: "Approve (he_crypto v) SaveOK (he_serial v 0) (he_now v) c ns role m1 = (Inr cert, m2)"
    using x assms(5) sign_same_ca [OF m1(2,3)] by (simp add: Approve_def Let_def saveOK)
  then have "handleRegisterApprove v (approve_request c ns role tok) m1 = (http_ok (AnyMap [(''certificate'', AnyStr cert)]), m2)"
    using assms(4) by (simp add: handleRegisterApprove_def approve_request_def sample_http_def bind_object_def bind_str_def)
  then have "resp = http_ok (AnyMap [(''certificate'', AnyStr cert)])" "srv_auth s2 = m2"
    using assms(7) pass by (auto simp: http_serve_def on_auth_def s1)
  then show ?thesis using Approve_success(1) [OF ap] by (auto simp: GetByClientID_def)
qed

theorem client_token_approves_itself_witness:
  "hp_status (fst (http_serve sample_http_env ''v'' PostRegisterApprove (approve_request ''c'' ''permanent'' ''admin'' ''t'')
     (snd (http_serve sample_http_env ''v'' PostRegisterApply (apply_request ''c'' ''pk'' ''t'') toy_server)))) = 200"
  using client_token_approves_itself [of "''t''" toy_server "''c''" sample_http_env "''pk''" "''c''" _ "''v''" "''permanent''" "''admin''",
      OF _ _ _ _ _ refl prod.collapse [symmetric]] toy_parts
  by (simp add: toy_sign)

text \<open>A voucher asked to live for more than 2^63 nanoseconds (292 years) gets a negative expiry, which means that
  it never expires.\<close>

theorem voucher_expiry_overflows:
  assumes "0 \<le> nowNs" and "nowNs < 2 ^ 62"
  shows "voucher_expiry nowNs 9223372037 < 0 \<and>
     (mget (am_vouchers m) code = Some x \<longrightarrow> vc_ExpiresAt x = voucher_expiry nowNs 9223372037 \<longrightarrow> vc_MaxUses x = 0 \<longrightarrow> (\<exists>y. fst (UseVoucher SaveOK now code m) = Inr y))"
proof -
  have "wrap64 (9223372037 * 1000000000) = - 9223372036709551616" by (simp add: wrap64_def)
  then have "voucher_expiry nowNs 9223372037 < 0" using assms by (simp add: voucher_expiry_def)
  then show ?thesis by (auto simp: UseVoucher_def Let_def saveOK)
qed

end
