(* ===== verification/Plugins.thy ===== *)
theory Plugins
  imports Capability Proto
begin

text \<open>
  The two plugins that keep a table of their own: \<open>plugins/tag/tag.go\<close> and
  \<open>plugins/latency/latency.go\<close>. Their action handlers are handlers of \<open>Capability\<close>; the data of a
  result is only serialised by its consumers, so a \<open>map[string]string\<close> and a struct appear as
  maps of their JSON fields. Instants and durations are nanoseconds.
\<close>

section \<open>Tags\<close>

record TagPlugin =
  tp_tags :: "(string, (string, string) gomap) gomap"

definition tag_New :: TagPlugin where
  "tag_New = \<lparr>tp_tags = []\<rparr>"

definition SetTag :: "string \<Rightarrow> string \<Rightarrow> string \<Rightarrow> TagPlugin \<Rightarrow> TagPlugin" where
  "SetTag clientID key val p =
     p\<lparr>tp_tags := mput (tp_tags p) clientID (mput (mget_or [] (tp_tags p) clientID) key val)\<rparr>"

definition DeleteTag :: "string \<Rightarrow> string \<Rightarrow> TagPlugin \<Rightarrow> bool \<times> TagPlugin" where
  "DeleteTag clientID key p =
     (case mget (tp_tags p) clientID of
        None \<Rightarrow> (False, p)
      | Some tags \<Rightarrow>
          if mget tags key = None then (False, p)
          else let tags' = mdel tags key in
            (True, p\<lparr>tp_tags := (if tags' = [] then mdel (tp_tags p) clientID else mput (tp_tags p) clientID tags')\<rparr>))"

definition GetTags :: "TagPlugin \<Rightarrow> string \<Rightarrow> (string, string) gomap option" where
  "GetTags p clientID = mget (tp_tags p) clientID"

definition split_filter :: "string \<Rightarrow> string \<times> string" where
  "split_filter f = (case cut_at (CHR ''='') f of None \<Rightarrow> (f, '''') | Some (k, v) \<Rightarrow> (k, v))"

definition tag_matches :: "string \<Rightarrow> (string, string) gomap \<Rightarrow> bool" where
  "tag_matches f tags =
     (let (filterKey, filterVal) = split_filter f in
      if filterKey \<noteq> '''' then
        (case mget tags filterKey of
           None \<Rightarrow> False
         | Some val \<Rightarrow> \<not> (filterVal \<noteq> '''' \<and> val \<noteq> filterVal))
      else True)"

definition ListByTag :: "TagPlugin \<Rightarrow> string \<Rightarrow> (string \<times> (string, string) gomap) list" where
  "ListByTag p f = filter (\<lambda>(clientID, tags). tag_matches f tags) (tp_tags p)"

definition any_strs :: "(string, string) gomap \<Rightarrow> any" where
  "any_strs m = AnyMap (map (\<lambda>(k, v). (k, AnyStr v)) m)"

definition Export :: "TagPlugin \<Rightarrow> any" where
  "Export p = AnyMap (map (\<lambda>(k, v). (k, any_strs v)) (tp_tags p))"

definition import_tags :: "(string, any) gomap \<Rightarrow> (string, string) gomap" where
  "import_tags m = fold (\<lambda>(k, v) tags. case v of AnyStr s \<Rightarrow> mput tags k s | _ \<Rightarrow> tags) m []"

definition Import :: "any \<Rightarrow> TagPlugin \<Rightarrow> TagPlugin" where
  "Import data p =
     (case data of
        AnyMap raw \<Rightarrow> p\<lparr>tp_tags := fold (\<lambda>(clientID, tagsRaw) res.
            case tagsRaw of AnyMap tagsMap \<Rightarrow> mput res clientID (import_tags tagsMap) | _ \<Rightarrow> res) raw []\<rparr>
      | _ \<Rightarrow> p)"

definition str_param :: "string \<Rightarrow> bool \<Rightarrow> ParamSchema" where
  "str_param n req = \<lparr>pm_Name = n, pm_Type = ''string'', pm_Required = req, pm_Default = '''', pm_Description = ''''\<rparr>"

text \<open>The descriptions of the actions are fixed texts; they are left empty here.\<close>

definition tag_Schema :: "ActionSchema list" where
  "tag_Schema =
     [\<lparr>as_Name = ''tag.set'', as_Description = '''', as_Params = [str_param ''client_id'' True, str_param ''key'' True, str_param ''value'' True]\<rparr>,
      \<lparr>as_Name = ''tag.delete'', as_Description = '''', as_Params = [str_param ''client_id'' True, str_param ''key'' True]\<rparr>,
      \<lparr>as_Name = ''tag.get'', as_Description = '''', as_Params = [str_param ''client_id'' True]\<rparr>,
      \<lparr>as_Name = ''tag.list'', as_Description = '''', as_Params = [str_param ''tag'' False]\<rparr>]"

definition tag_handleAction :: "TagPlugin ActionHandler" where
  "tag_handleAction ctx p =
     (let clientID = str_or '''' (ac_Params ctx) ''client_id'';
          key = str_or '''' (ac_Params ctx) ''key'';
          val = str_or '''' (ac_Params ctx) ''value'' in
      if ac_Action ctx = ''tag.set'' then
        (if clientID = '''' \<or> key = '''' \<or> val = '''' then (result 400 ''client_id, key, value are required'' AnyNil, p)
         else (result 200 '''' (any_strs [(''client_id'', clientID), (''key'', key), (''value'', val)]), SetTag clientID key val p))
      else if ac_Action ctx = ''tag.delete'' then
        (if clientID = '''' \<or> key = '''' then (result 400 ''client_id and key are required'' AnyNil, p)
         else case DeleteTag clientID key p of
             (False, p') \<Rightarrow> (result 404 ''tag not found'' AnyNil, p')
           | (True, p') \<Rightarrow> (result 200 '''' (any_strs [(''client_id'', clientID), (''key'', key)]), p'))
      else if ac_Action ctx = ''tag.get'' then
        (if clientID = '''' then (result 400 ''client_id is required'' AnyNil, p)
         else let tags = (case GetTags p clientID of None \<Rightarrow> [] | Some t \<Rightarrow> t) in
           (result 200 '''' (AnyMap [(''client_id'', AnyStr clientID), (''tags'', any_strs tags)]), p))
      else if ac_Action ctx = ''tag.list'' then
        (let res = ListByTag p (str_or '''' (ac_Params ctx) ''tag'') in
         if res = [] then (result 200 ''no tags'' AnyNil, p)
         else (result 200 '''' (AnyList (map (\<lambda>(c, t). AnyMap [(''client_id'', AnyStr c), (''tags'', any_strs t)]) res)), p))
      else (result 404 ''unknown action'' AnyNil, p))"

section \<open>Latency\<close>

record LatencyRecord =
  lr_ClientID :: string
  lr_Latency :: int
  lr_UpdatedAt :: int

record LatencyPlugin =
  lp_latencyMap :: "(string, LatencyRecord) gomap"

definition latency_New :: LatencyPlugin where
  "latency_New = \<lparr>lp_latencyMap = []\<rparr>"

definition handleClientEvent :: "int \<Rightarrow> GenericEvent \<Rightarrow> LatencyPlugin \<Rightarrow> LatencyPlugin" where
  "handleClientEvent now event p =
     (if ev_EventType event \<noteq> EventModified then p
      else case ev_Payload event of
          AnyMap payload \<Rightarrow>
            let store = (\<lambda>latencyMs. let clientID = rk_Name (ev_Resource event) in
                  p\<lparr>lp_latencyMap := mput (lp_latencyMap p) clientID
                    \<lparr>lr_ClientID = clientID, lr_Latency = wrap64 (latencyMs * 1000000), lr_UpdatedAt = now\<rparr>\<rparr>) in
            (case mget payload ''latency'' of
               Some (AnyInt64 v) \<Rightarrow> store v
             | Some (AnyFloat v) \<Rightarrow> store (wrap64 (f64_trunc v))
             | _ \<Rightarrow> p)
        | _ \<Rightarrow> p)"

definition expiry :: int where "expiry = 5 * 60 * 1000000000"

definition cleanupExpired :: "int \<Rightarrow> LatencyPlugin \<Rightarrow> LatencyPlugin" where
  "cleanupExpired now p =
     (let cutoff = now - expiry in
      p\<lparr>lp_latencyMap := mfilter (\<lambda>_ record. \<not> lr_UpdatedAt record < cutoff) (lp_latencyMap p)\<rparr>)"

definition GetLatency :: "LatencyPlugin \<Rightarrow> string \<Rightarrow> LatencyRecord option" where
  "GetLatency p clientID = mget (lp_latencyMap p) clientID"

definition GetAllLatency :: "LatencyPlugin \<Rightarrow> LatencyRecord list" where
  "GetAllLatency p = map snd (lp_latencyMap p)"

definition any_latency :: "LatencyRecord \<Rightarrow> any" where
  "any_latency r = AnyMap [(''client_id'', AnyStr (lr_ClientID r)), (''latency'', AnyInt64 (lr_Latency r)),
     (''updated_at'', AnyInt64 (lr_UpdatedAt r))]"

definition latency_Schema :: "ActionSchema list" where
  "latency_Schema =
     [\<lparr>as_Name = ''latency.get'', as_Description = '''', as_Params = [str_param ''client_id'' True]\<rparr>,
      \<lparr>as_Name = ''latency.list'', as_Description = '''', as_Params = []\<rparr>]"

definition latency_handleAction :: "LatencyPlugin ActionHandler" where
  "latency_handleAction ctx p =
     (if ac_Action ctx = ''latency.get'' then
        (let clientID = str_or '''' (ac_Params ctx) ''client_id'' in
         if clientID = '''' then (result 400 ''missing client_id'' AnyNil, p)
         else case GetLatency p clientID of
             None \<Rightarrow> (result 404 ''no latency record'' AnyNil, p)
           | Some record \<Rightarrow> (result 200 '''' (any_latency record), p))
      else if ac_Action ctx = ''latency.list'' then
        (let records = GetAllLatency p in
         if records = [] then (result 200 ''no latency record'' AnyNil, p)
         else (result 200 '''' (AnyList (map any_latency records)), p))
      else (result 404 ''unknown action'' AnyNil, p))"

section \<open>Lemmas\<close>

declare map_of_eq_Some_iff [simp del]

definition tag_inv :: "TagPlugin \<Rightarrow> bool" where
  "tag_inv p \<longleftrightarrow> wf_map (tp_tags p) \<and> (\<forall>c tags. mget (tp_tags p) c = Some tags \<longrightarrow> wf_map tags \<and> tags \<noteq> [])"

definition tag_of :: "TagPlugin \<Rightarrow> string \<times> string \<Rightarrow> string option" where
  "tag_of p ck = (case GetTags p (fst ck) of None \<Rightarrow> None | Some tags \<Rightarrow> mget tags (snd ck))"

lemma mput_not_Nil [simp]: "AList.update k v m \<noteq> []"
  by (induction m) auto

lemma tag_inv_SetTag: "tag_inv p \<Longrightarrow> tag_inv (SetTag c k v p)"
  by (auto simp: tag_inv_def SetTag_def mget_or_def split: option.split)

lemma tag_inv_DeleteTag: "tag_inv p \<Longrightarrow> tag_inv (snd (DeleteTag c k p))"
  by (auto simp: tag_inv_def DeleteTag_def Let_def split: option.split)

lemma mdel_Nil_mget: "AList.delete k m = [] \<Longrightarrow> k' \<noteq> k \<Longrightarrow> map_of m k' = None"
  by (metis fun_upd_apply map_of.simps(1) mget_mdel)

interpretation tags: keyed_store tag_of "\<lambda>p ck v. SetTag (fst ck) (snd ck) v p" "\<lambda>p ck. snd (DeleteTag (fst ck) (snd ck) p)" tag_inv "\<lambda>_. True"
proof
  show "tag_of (SetTag (fst k) (snd k) v s) k' = (if k' = k then Some v else tag_of s k')" for s k v k'
    by (cases k; cases k') (auto simp: tag_of_def GetTags_def SetTag_def mget_or_def split: option.split)
  show "tag_of (snd (DeleteTag (fst k) (snd k) s)) k' = (if k' = k then None else tag_of s k')" for s k k'
    by (cases k; cases k') (auto simp: tag_of_def GetTags_def DeleteTag_def Let_def mdel_Nil_mget split: option.split)
qed (simp_all add: tag_inv_SetTag tag_inv_DeleteTag)

lemma mput_fresh: "k \<notin> mkeys m \<Longrightarrow> AList.update k v m = m @ [(k, v)]"
  by (induction m) auto

lemma fold_mput_id: "wf_map (acc @ m) \<Longrightarrow> fold (\<lambda>(k, v) res. AList.update k v res) m acc = acc @ m"
proof (induction m arbitrary: acc)
  case (Cons x m)
  then have "fst x \<notin> mkeys acc" by auto
  then show ?case using Cons by (cases x) (auto simp: mput_fresh)
qed simp

lemma import_any_strs: "wf_map m \<Longrightarrow> import_tags (map (\<lambda>(k, v). (k, AnyStr v)) m) = m"
proof -
  assume "wf_map m"
  then have "fold (\<lambda>(k, v) res. AList.update k v res) m [] = m" using fold_mput_id [of "[]" m] by simp
  moreover have "import_tags (map (\<lambda>(k, v). (k, AnyStr v)) m) = fold (\<lambda>(k, v) res. AList.update k v res) m []"
    unfolding import_tags_def fold_map by (rule fold_cong) (auto split: prod.split)
  ultimately show ?thesis by simp
qed

lemma through_json_Export: "through_json (Export p) = Export p"
  by (auto simp: Export_def any_strs_def comp_def)

definition tag_step :: "TagPlugin \<Rightarrow> ActionContext \<Rightarrow> TagPlugin" where
  "tag_step p ctx = snd (tag_handleAction ctx p)"

lemma tag_inv_step: "tag_inv p \<Longrightarrow> tag_inv (tag_step p ctx)"
  using tag_inv_DeleteTag by (auto simp: tag_step_def tag_handleAction_def Let_def tag_inv_SetTag split: prod.split bool.split)
    (metis snd_conv)+

interpretation tag_actions: invariant_run tag_step tag_inv "\<lambda>_. True"
  by unfold_locales (rule tag_inv_step)

text \<open>Tags survive in \<open>persist.json\<close>: after any run of actions on a new plugin, importing what was
  exported, written and read back as JSON gives exactly the tags, whatever the importing plugin held.\<close>

lemma tag_import_export:
  assumes "p = foldl tag_step tag_New ctxs"
  shows "tp_tags (Import (through_json (Export p)) q) = tp_tags p"
proof -
  have "tag_inv tag_New" by (simp add: tag_inv_def tag_New_def)
  then have inv: "tag_inv p" using tag_actions.run_inv assms by (simp add: list_all_iff)
  have wf: "wf_map tags" if "(c, tags) \<in> set (tp_tags p)" for c tags
    using inv that unfolding tag_inv_def by (metis mget_in_set)
  have "fold (\<lambda>(clientID, tagsRaw) res. case tagsRaw of AnyMap tagsMap \<Rightarrow> mput res clientID (import_tags tagsMap) | _ \<Rightarrow> res)
      (map (\<lambda>(k, v). (k, any_strs v)) (tp_tags p)) [] = fold (\<lambda>(k, v) res. AList.update k v res) (tp_tags p) []"
    unfolding fold_map by (rule fold_cong) (auto simp: any_strs_def import_any_strs wf)
  also have "\<dots> = tp_tags p" using fold_mput_id [of "[]" "tp_tags p"] inv by (simp add: tag_inv_def)
  finally have "tp_tags (Import (Export p) q) = tp_tags p" by (simp add: Import_def Export_def)
  then show ?thesis by (simp add: through_json_Export)
qed

section \<open>Properties\<close>

definition tag_set :: "string \<Rightarrow> string \<Rightarrow> string \<Rightarrow> ActionContext" where
  "tag_set c k v = \<lparr>ac_Action = ''tag.set'', ac_Params = [(''client_id'', AnyStr c), (''key'', AnyStr k), (''value'', AnyStr v)]\<rparr>"

lemma tag_set_step: "c \<noteq> [] \<Longrightarrow> k \<noteq> [] \<Longrightarrow> v \<noteq> [] \<Longrightarrow> tag_step p (tag_set c k v) = SetTag c k v p"
  by (simp add: tag_step_def tag_handleAction_def tag_set_def str_or_def get_str_def)

text \<open>\<open>tag.list\<close> with \<open>key=value\<close> lists exactly the clients whose tag has that value, with all
  their tags, and a tag set by \<open>tag.set\<close> is the one found there.\<close>

theorem tag_list_filter:
  assumes "tag_inv p" and "CHR ''='' \<notin> set k" and "k \<noteq> ''''" and "v \<noteq> ''''"
  shows "(c, tags) \<in> set (ListByTag p (k @ ''='' @ v)) \<longleftrightarrow> GetTags p c = Some tags \<and> tag_of p (c, k) = Some v"
proof -
  have "split_filter (k @ ''='' @ v) = (k, v)" using assms(2) by (simp add: split_filter_def)
  moreover have "GetTags p c = Some tags \<longleftrightarrow> (c, tags) \<in> set (tp_tags p)"
    using assms(1) mget_in_set [of "tp_tags p" c tags] by (simp add: tag_inv_def GetTags_def)
  ultimately show ?thesis
    using assms(3,4) by (auto simp: ListByTag_def tag_matches_def tag_of_def split: option.splits)
qed

theorem tag_list_filter_witness:
  "(''c'', [(''os'', ''linux'')]) \<in> set (ListByTag (tag_step tag_New (tag_set ''c'' ''os'' ''linux'')) (''os'' @ ''='' @ ''linux''))"
proof -
  let ?p = "tag_step tag_New (tag_set ''c'' ''os'' ''linux'')"
  have "tag_inv ?p" by (rule tag_inv_step) (simp add: tag_inv_def tag_New_def)
  from tag_list_filter [OF this, of "''os''" "''linux''" "''c''" "[(''os'', ''linux'')]"] show ?thesis
    by (simp add: tag_set_step SetTag_def tag_New_def mget_or_def GetTags_def tag_of_def)
qed

text \<open>The clean-up of the latency table drops exactly the records older than five minutes.\<close>

theorem latency_cleanup:
  assumes "wf_map (lp_latencyMap p)"
  shows "GetLatency (cleanupExpired now p) c = (case GetLatency p c of None \<Rightarrow> None
     | Some r \<Rightarrow> if now - lr_UpdatedAt r \<le> expiry then Some r else None)"
  using assms by (auto simp: GetLatency_def cleanupExpired_def Let_def mget_mfilter split: option.split)

theorem latency_cleanup_witness:
  "GetLatency (cleanupExpired (expiry + 2) \<lparr>lp_latencyMap = [(''c'', \<lparr>lr_ClientID = ''c'', lr_Latency = 5, lr_UpdatedAt = 1\<rparr>)]\<rparr>) ''c'' = None"
  using latency_cleanup [of "\<lparr>lp_latencyMap = [(''c'', \<lparr>lr_ClientID = ''c'', lr_Latency = 5, lr_UpdatedAt = 1\<rparr>)]\<rparr>" "expiry + 2" "''c''"]
  by (simp add: GetLatency_def)

end
