(* ===== verification/Persist_Plugin.thy ===== *)
theory Persist_Plugin
  imports Runtime_Core Plugins
begin

text \<open>
  \<open>plugins/persist/persist.go\<close> and \<open>common/persist/provider.go\<close>: what the server does with its data
  directory at start, and the debounced writing of \<open>persist.json\<close>.

  The file holds a JSON object or cannot be read. A provider is a pair of functions on the state of
  the plugin it belongs to. Identifiers and the clock of the restored events are arguments.
\<close>

section \<open>Restoring\<close>

definition parseProxy :: "any \<Rightarrow> ProxyState option" where
  "parseProxy raw = (case raw of
      AnyMap m \<Rightarrow> Some \<lparr>ps_ClientID = str_or '''' m ''client_id'', ps_RemotePort = int_or 0 m ''remote_port'',
        ps_LocalPort = int_or 0 m ''local_port'', ps_LocalIP = str_or '''' m ''local_ip'',
        ps_Protocol = str_or '''' m ''protocol'', ps_BindAddr = str_or '''' m ''bind_addr''\<rparr>
    | _ \<Rightarrow> None)"

definition parseRelay :: "any \<Rightarrow> RelaySession option" where
  "parseRelay raw = (case raw of
      AnyMap m \<Rightarrow> Some (zero_RelaySession\<lparr>rs_ID := str_or '''' m ''session_id'', rs_SourceClient := str_or '''' m ''source_client'',
        rs_TargetClient := str_or '''' m ''target_client'', rs_Protocol := str_or '''' m ''protocol'',
        rs_SourcePort := int_or 0 m ''source_port'', rs_TargetPort := int_or 0 m ''target_port'',
        rs_TargetLocalIP := str_or '''' m ''target_local_ip'', rs_SourceLocalIP := str_or '''' m ''source_local_ip'',
        rs_Token := str_or '''' m ''token''\<rparr>)
    | _ \<Rightarrow> None)"

definition restored_event :: "(string \<Rightarrow> string) \<Rightarrow> int \<Rightarrow> string \<Rightarrow> string \<Rightarrow> string \<Rightarrow> any \<Rightarrow> GenericEvent" where
  "restored_event gid t metaKey typ name payload =
     NewGenericEvent (gid metaKey) t \<lparr>rk_Type = typ, rk_Namespace = NamespaceDefault, rk_Name = name\<rparr> EventAdded payload"

definition restore_meta_proxy :: "(string \<Rightarrow> string) \<Rightarrow> int \<Rightarrow> string \<times> any \<Rightarrow> Core \<Rightarrow> Core" where
  "restore_meta_proxy gid t e k =
     (case ParseResourceKey (fst e) of
        Inl _ \<Rightarrow> k
      | Inr rk \<Rightarrow>
          (case parseProxy (snd e) of
             None \<Rightarrow> k
           | Some proxy \<Rightarrow>
               if ps_ClientID proxy = '''' \<or> ps_RemotePort proxy = 0 then k
               else core_Publish (restored_event gid t (fst e) ResourceTypeProxy (rk_Name rk) (AnyProxy proxy)) k))"

definition restore_meta_relay :: "(string \<Rightarrow> string) \<Rightarrow> int \<Rightarrow> string \<times> any \<Rightarrow> Core \<Rightarrow> Core" where
  "restore_meta_relay gid t e k =
     (case ParseResourceKey (fst e) of
        Inl _ \<Rightarrow> k
      | Inr rk \<Rightarrow>
          (case parseRelay (snd e) of
             None \<Rightarrow> k
           | Some relay \<Rightarrow> core_Publish (restored_event gid t (fst e) ResourceTypeRelay (rk_Name rk) (AnyRelay relay)) k))"

definition restoreFromMetaStore :: "(string \<Rightarrow> string) \<Rightarrow> int \<Rightarrow> Core \<Rightarrow> Core" where
  "restoreFromMetaStore gid t k =
     (case co_storage k of
        None \<Rightarrow> k
      | Some st \<Rightarrow>
          fold (restore_meta_relay gid t) (meta_List (sm_meta st) ''relay'')
            (fold (restore_meta_proxy gid t) (meta_List (sm_meta st) ''proxy'') k))"

definition restoreSnapshot :: "Core \<Rightarrow> Core" where
  "restoreSnapshot k =
     (case co_storage k of
        None \<Rightarrow> k
      | Some st \<Rightarrow>
          if \<not> HasSnapshot (sm_snapshots st) then k
          else case snapshot_Load (sm_snapshots st) of
              Inl _ \<Rightarrow> k
            | Inr sn \<Rightarrow> k\<lparr>co_stateStore := Restore (map (\<lambda>(key, v). (key, AnyMap v)) (sn_State sn)) (co_stateStore k)\<rparr>)"

section \<open>The providers and their file\<close>

record 's StateProvider =
  sv_Export :: "'s \<Rightarrow> any"
  sv_Import :: "any \<Rightarrow> 's \<Rightarrow> 's"

definition persist_Register :: "string \<Rightarrow> 's StateProvider \<Rightarrow> (string, 's StateProvider) gomap \<Rightarrow> (string, 's StateProvider) gomap" where
  "persist_Register name provider registry = mput registry name provider"

type_synonym persist_file = "(string, json) gomap option"

definition loadFromDisk :: "persist_file \<Rightarrow> (string, any) gomap" where
  "loadFromDisk f = (case f of None \<Rightarrow> [] | Some m \<Rightarrow> map (map_prod id unmarshal_any) m)"

definition restoreAll :: "(string, 's StateProvider) gomap \<Rightarrow> persist_file \<Rightarrow> 's \<Rightarrow> 's" where
  "restoreAll registry f s =
     fold (\<lambda>(name, data) s. case mget registry name of None \<Rightarrow> s | Some p \<Rightarrow> sv_Import p data s) (loadFromDisk f) s"

text \<open>A write that fails leaves the file as the outcome says.\<close>

definition flushAll :: "persist_file option \<Rightarrow> (string, 's StateProvider) gomap \<Rightarrow> 's \<Rightarrow> persist_file \<Rightarrow> persist_file" where
  "flushAll writeErr registry s f =
     (let existing = fold (\<lambda>(name, p) m. mput m name (sv_Export p s)) registry (loadFromDisk f) in
      case writeErr of Some left \<Rightarrow> left | None \<Rightarrow> Some (map (map_prod id marshal) existing))"

section \<open>The run loop\<close>

record PersistPlugin =
  pp_dirty :: bool
  pp_stopped :: bool
  pp_done :: bool
  pp_file :: persist_file

definition NotifyDirty :: "PersistPlugin \<Rightarrow> PersistPlugin" where
  "NotifyDirty p = p\<lparr>pp_dirty := True\<rparr>"

definition persist_Stop :: "PersistPlugin \<Rightarrow> PersistPlugin" where
  "persist_Stop p = p\<lparr>pp_stopped := True\<rparr>"

text \<open>The ways the loop can wake up: it sees the stop, it takes the dirty mark (and writes a second later,
  or at the stop), or a tick finds the mark.\<close>

datatype persist_wake = SeesStop | TakesDirty | Tick

definition persist_loop :: "persist_file option \<Rightarrow> (string, 's StateProvider) gomap \<Rightarrow> 's \<Rightarrow> persist_wake \<Rightarrow> PersistPlugin \<Rightarrow> PersistPlugin" where
  "persist_loop writeErr registry s w p =
     (let flushed = flushAll writeErr registry s (pp_file p) in
      if pp_done p then p
      else case w of
          SeesStop \<Rightarrow> if pp_stopped p then p\<lparr>pp_file := flushed, pp_done := True\<rparr> else p
        | TakesDirty \<Rightarrow>
            if pp_dirty p then
              (let p1 = p\<lparr>pp_dirty := False, pp_file := flushed\<rparr> in
               if pp_stopped p then p1\<lparr>pp_done := True\<rparr> else p1)
            else p
        | Tick \<Rightarrow> if pp_dirty p then p\<lparr>pp_dirty := False, pp_file := flushed\<rparr> else p)"

text \<open>The start of \<open>Run\<close>, up to the loop: what it does to the core, and with the providers' states beside it.\<close>

definition persist_restore :: "(string \<Rightarrow> string) \<Rightarrow> int \<Rightarrow> Core \<Rightarrow> Core" where
  "persist_restore gid t k =
     (let k1 = restoreFromMetaStore gid t (SetRestoring True k);
          k2 = (case co_storage k1 of
                  None \<Rightarrow> k1
                | Some st \<Rightarrow> if HasSnapshot (sm_snapshots st) then restoreSnapshot k1 else k1) in
      SetRestoring False k2)"

definition persist_Run_start :: "(string \<Rightarrow> string) \<Rightarrow> int \<Rightarrow> (string, 's StateProvider) gomap \<Rightarrow> PersistPlugin \<Rightarrow> Core \<times> 's \<Rightarrow> Core \<times> 's" where
  "persist_Run_start gid t registry p ks = (persist_restore gid t (fst ks), restoreAll registry (pp_file p) (snd ks))"

section \<open>Set-up and the status action\<close>

definition persist_New :: "persist_file \<Rightarrow> PersistPlugin" where
  "persist_New f = \<lparr>pp_dirty = False, pp_stopped = False, pp_done = False, pp_file = f\<rparr>"

text \<open>The data directory of the configuration; the subscriptions, all with the closure that calls
  \<open>NotifyDirty\<close> (its code address is 4); and the registration of the one action.\<close>

definition persist_dataDir :: "(string, any) gomap \<Rightarrow> string" where
  "persist_dataDir config = (let dir = str_or '''' config ''data_dir'' in if dir \<noteq> '''' then dir else ''data'')"

definition dirty_sub :: EventHandler where "dirty_sub = \<lparr>eh_code = 4, eh_env = 0\<rparr>"

definition persist_Schema :: "ActionSchema list" where
  "persist_Schema = [\<lparr>as_Name = ''persist.status'', as_Description = ''persistence status'', as_Params = []\<rparr>]"

definition persist_handleAction :: "string \<Rightarrow> (string, 's StateProvider) gomap \<Rightarrow> 's ActionHandler" where
  "persist_handleAction dataDir registry ctx s =
     (if ac_Action ctx = ''persist.status'' then
        (result 200 '''' (AnyMap [(''data_dir'', AnyStr dataDir), (''providers'', AnyList (map (AnyStr \<circ> fst) registry))]), s)
      else (result 404 ''unknown action'' AnyNil, s))"

definition persist_Init ::
  "(string, any) gomap \<Rightarrow> (string, 's StateProvider) gomap \<Rightarrow> Core \<times> ('s, 'p, 'r) CapabilityRegistryImpl \<Rightarrow> Core \<times> ('s, 'p, 'r) CapabilityRegistryImpl" where
  "persist_Init config registry kc =
     ((fst kc)\<lparr>co_eventBus := fold (\<lambda>rt. Subscribe rt dirty_sub)
         [ResourceTypeClient, ResourceTypeProxy, ResourceTypeRelay, ResourceTypeNamespace] (co_eventBus (fst kc))\<rparr>,
      register_schema persist_Schema (persist_handleAction (persist_dataDir config) registry) (snd kc))"

definition tag_provider :: "TagPlugin StateProvider" where
  "tag_provider = \<lparr>sv_Export = Export, sv_Import = Import\<rparr>"

declare map_of_eq_Some_iff [simp del]

section \<open>What a restart publishes\<close>

definition restored_proxy :: "(string \<Rightarrow> string) \<Rightarrow> int \<Rightarrow> string \<times> any \<Rightarrow> GenericEvent option" where
  "restored_proxy gid t e = (case ParseResourceKey (fst e) of Inl _ \<Rightarrow> None | Inr rk \<Rightarrow>
     (case parseProxy (snd e) of None \<Rightarrow> None | Some p \<Rightarrow> if ps_ClientID p = '''' \<or> ps_RemotePort p = 0 then None
        else Some (restored_event gid t (fst e) ResourceTypeProxy (rk_Name rk) (AnyProxy p))))"

definition proxy_events :: "(string \<Rightarrow> string) \<Rightarrow> int \<Rightarrow> (string, any) gomap \<Rightarrow> GenericEvent list" where
  "proxy_events gid t es = List.map_filter (restored_proxy gid t) es"

lemma set_map_filter: "e \<in> set (List.map_filter f xs) \<longleftrightarrow> (\<exists>x \<in> set xs. f x = Some e)"
  by (force simp: map_filter_def)

definition relay_events :: "(string \<Rightarrow> string) \<Rightarrow> int \<Rightarrow> (string, any) gomap \<Rightarrow> GenericEvent list" where
  "relay_events gid t es = List.map_filter (\<lambda>e. case ParseResourceKey (fst e) of Inl _ \<Rightarrow> None | Inr rk \<Rightarrow>
     (case parseRelay (snd e) of None \<Rightarrow> None | Some r \<Rightarrow> Some (restored_event gid t (fst e) ResourceTypeRelay (rk_Name rk) (AnyRelay r)))) es"

lemma fold_restore_proxy:
  "fold (restore_meta_proxy gid t) es k = k\<lparr>co_eventBus := fold Publish (proxy_events gid t es) (co_eventBus k)\<rparr>"
proof (induction es arbitrary: k)
  case (Cons e es)
  then show ?case
    by (simp add: restore_meta_proxy_def proxy_events_def restored_proxy_def core_Publish_def map_filter_simps split: sum.split option.split)
qed (simp add: proxy_events_def map_filter_simps)

lemma fold_restore_relay:
  "fold (restore_meta_relay gid t) es k = k\<lparr>co_eventBus := fold Publish (relay_events gid t es) (co_eventBus k)\<rparr>"
proof (induction es arbitrary: k)
  case (Cons e es)
  then show ?case
    by (simp add: restore_meta_relay_def relay_events_def core_Publish_def map_filter_simps split: sum.split option.split)
qed (simp add: relay_events_def map_filter_simps)

lemma length_map_filter: "length (List.map_filter f xs) \<le> length xs"
  by (simp add: map_filter_def)

lemma proxy_events_type: "e \<in> set (proxy_events gid t es) \<Longrightarrow> ev_type e = ''proxy''"
proof -
  have "ev_type e = ''proxy''" if "restored_proxy gid t x = Some e" for x
    using that by (auto simp: restored_proxy_def restored_event_def NewGenericEvent_def split: sum.splits option.splits if_splits)
  then show "e \<in> set (proxy_events gid t es) \<Longrightarrow> ev_type e = ''proxy''" by (auto simp: proxy_events_def set_map_filter)
qed

lemma relay_events_type: "e \<in> set (relay_events gid t es) \<Longrightarrow> ev_type e = ''relay''"
  by (auto simp: relay_events_def map_filter_def restored_event_def NewGenericEvent_def split: sum.splits option.splits)

lemma takes_New: "takes ''proxy'' (co_eventBus (NewCore ip st))" "queued u (co_eventBus (NewCore ip st)) = []"
  by (simp_all add: takes_def NewCore_def bus_inv_Subscribe bus_inv_New queued_def)
    (simp_all add: NewEventBus_def Subscribe_def)

lemma fold_Publish_takes: "takes u b \<Longrightarrow> takes u (fold Publish es b)"
  by (induction es arbitrary: b) (simp_all add: takes_Publish)

lemma fold_Publish_subs: "eb_typeSubs (fold Publish es b) = eb_typeSubs b"
  by (induction es arbitrary: b) simp_all

text \<open>After the restore the proxy queue holds the restored proxies, if they fit.\<close>

lemma restored_queue:
  assumes "co_storage k0 = Some st" "co_eventBus k0 = co_eventBus (NewCore ip s0)" "length (meta_List (sm_meta st) ''proxy'') \<le> queueCap"
  shows "map unseq (queued ''proxy'' (co_eventBus (restoreFromMetaStore gid t k0))) = map unseq (proxy_events gid t (meta_List (sm_meta st) ''proxy''))"
    "takes ''proxy'' (co_eventBus (restoreFromMetaStore gid t k0))" "wired (co_eventBus (restoreFromMetaStore gid t k0))"
    "co_stateStore (restoreFromMetaStore gid t k0) = co_stateStore k0" "co_storage (restoreFromMetaStore gid t k0) = co_storage k0"
proof -
  let ?P = "proxy_events gid t (meta_List (sm_meta st) ''proxy'')" and ?R = "relay_events gid t (meta_List (sm_meta st) ''relay'')"
  let ?b0 = "co_eventBus (NewCore ip s0)"
  have bus: "co_eventBus (restoreFromMetaStore gid t k0) = fold Publish ?R (fold Publish ?P ?b0)"
    using assms(1,2) by (simp add: restoreFromMetaStore_def fold_restore_proxy fold_restore_relay)
  have len: "length ?P \<le> queueCap"
    using assms(3) length_map_filter order_trans unfolding proxy_events_def by blast
  have P: "takes ''proxy'' (fold Publish ?P ?b0)" "map unseq (queued ''proxy'' (fold Publish ?P ?b0)) = map unseq ?P"
    using queued_batch [OF takes_New(1), of ?P ip s0] takes_New(2) [of _ ip s0] len proxy_events_type by simp_all
  have "queued ''proxy'' (fold Publish ?R (fold Publish ?P ?b0)) = queued ''proxy'' (fold Publish ?P ?b0)"
    using P(1) by (intro queued_batch_other) (auto simp: takes_def dest: relay_events_type)
  then show "map unseq (queued ''proxy'' (co_eventBus (restoreFromMetaStore gid t k0))) = map unseq ?P" using P(2) bus by simp
  show "takes ''proxy'' (co_eventBus (restoreFromMetaStore gid t k0))" using P(1) by (simp add: bus fold_Publish_takes)
  show "wired (co_eventBus (restoreFromMetaStore gid t k0))"
    using wired_New [of ip s0] by (simp add: bus wired_cong [OF fold_Publish_subs])
  show "co_stateStore (restoreFromMetaStore gid t k0) = co_stateStore k0" "co_storage (restoreFromMetaStore gid t k0) = co_storage k0"
    using assms(1) by (simp_all add: restoreFromMetaStore_def fold_restore_proxy fold_restore_relay)
qed

section \<open>Applying what agrees\<close>

text \<open>A store holds no proxy but those of \<open>F\<close>.\<close>

definition within :: "(string \<Rightarrow> ProxyState option) \<Rightarrow> StateStoreImpl \<Rightarrow> bool" where
  "within F s \<longleftrightarrow> (\<forall>n p. mget (ss_proxies s) n = Some p \<longrightarrow> F n = Some p)"

definition adds :: "(string \<Rightarrow> ProxyState option) \<Rightarrow> GenericEvent \<Rightarrow> bool" where
  "adds F e \<longleftrightarrow> ev_type e = ''proxy'' \<and> ev_EventType e = ''ADDED'' \<and>
     (\<exists>p. ev_Payload e = AnyProxy p \<and> F (proxyKey (ps_ClientID p) (ps_RemotePort p)) = Some p)"

lemma Apply_adds:
  assumes "adds F e" "within F s"
  shows "within F (Apply now e s)" "dom (mget (ss_proxies s)) \<subseteq> dom (mget (ss_proxies (Apply now e s)))"
    "ev_Payload e = AnyProxy p \<Longrightarrow> proxyKey (ps_ClientID p) (ps_RemotePort p) \<in> dom (mget (ss_proxies (Apply now e s)))"
  using assms by (auto simp: adds_def within_def Apply_def applyProxyEvent_def parseProxyFromPayload_def Let_def split: if_splits)

lemma fold_Apply_adds:
  assumes "list_all (adds F) es" "within F s"
  shows "within F (fold (Apply now) es s) \<and> dom (mget (ss_proxies s)) \<subseteq> dom (mget (ss_proxies (fold (Apply now) es s))) \<and>
     (\<forall>e \<in> set es. \<forall>p. ev_Payload e = AnyProxy p \<longrightarrow> proxyKey (ps_ClientID p) (ps_RemotePort p) \<in> dom (mget (ss_proxies (fold (Apply now) es s))))"
  using assms
proof (induction es arbitrary: s)
  case (Cons e es)
  then have "adds F e" by simp
  note a = Apply_adds [OF this Cons.prems(2)]
  have "within F (fold (Apply now) es (Apply now e s)) \<and> dom (mget (ss_proxies (Apply now e s))) \<subseteq> dom (mget (ss_proxies (fold (Apply now) es (Apply now e s)))) \<and>
     (\<forall>e' \<in> set es. \<forall>p. ev_Payload e' = AnyProxy p \<longrightarrow> proxyKey (ps_ClientID p) (ps_RemotePort p) \<in> dom (mget (ss_proxies (fold (Apply now) es (Apply now e s)))))"
    using Cons.prems by (intro Cons.IH a(1)) simp_all
  then show ?case using a(2) a(3) [where now = now] unfolding fold_Cons comp_apply list.set by blast
qed simp

section \<open>The server after a restart\<close>

lemma core_inv_New:
  assumes "NewStorageManager dec (clean_start t) config empty_disk = Inr st"
  shows "core_inv dec (NewCore ip (Some st))"
proof -
  have "ms_resources (sm_meta st) = []"
    using assms by (auto simp: NewStorageManager_def clean_start_def empty_disk_def NewMetaStore_def loadAll_def split: sum.splits)
  then have "proxies_persisted (NewStateStore ip) (sm_meta st)"
    by (auto simp: proxies_persisted_def mget_or_def NewStateStore_def split: sum.split)
  moreover have "bus_inv (co_eventBus (NewCore ip (Some st)))" "eb_accepted (co_eventBus (NewCore ip (Some st))) = []"
    by (simp_all add: NewCore_def bus_inv_Subscribe bus_inv_New) (simp add: NewEventBus_def)
  ultimately show ?thesis
    using wired_New [of ip "Some st"] storage_inv_fresh [OF assms]
    by (simp add: core_inv_def store_inv_New) (simp add: NewCore_def store_inv_New)
qed

lemma core_reach_inv: "core_reach enc k0 k \<Longrightarrow> core_inv dec k0 \<Longrightarrow> \<forall>e. codec_ok enc dec e \<Longrightarrow> core_inv dec k"
  by (induction rule: core_reach.induct) (simp_all add: core_inv_step)

lemma parseProxy_json:
  assumes "proxy_storable (desired_of_proxy p)"
  shows "parseProxy (through_json (AnyProxy p)) = Some p"
proof -
  have j: "through_json (AnyProxy p) = AnyMap (any_entries (proxy_json p))" by (simp add: through_json_def any_entries_def)
  have "parseProxyFromMap (any_entries (proxy_json p)) = p"
    using assms by (intro parseProxyFromMap_json) (simp_all add: proxy_storable_def desired_of_proxy_def)
  then show ?thesis unfolding j parseProxy_def by (simp add: parseProxyFromMap_def)
qed

text \<open>The restored events add exactly the proxies of the old store.\<close>

lemma restored_events:
  assumes "core_inv dec k" "co_storage k = Some st" and F: "F = mget (ss_proxies (co_stateStore k))"
    and storable: "\<forall>n p. F n = Some p \<longrightarrow> proxy_storable (desired_of_proxy p)"
    and es: "es = map (map_prod id through_json) (meta_proxies (sm_meta st))"
  shows "list_all (adds F) (proxy_events gid t es)"
    "F n = Some p \<Longrightarrow> \<exists>e \<in> set (proxy_events gid t es). ev_Payload e = AnyProxy p"
proof -
  have inv: "proxies_persisted (co_stateStore k) (sm_meta st)" "store_inv (co_stateStore k)" "meta_wf (sm_meta st)"
    using assms(1,2) by (simp_all add: core_inv_def storage_inv_def)
  have wf: "wf_map (meta_proxies (sm_meta st))" using inv(3) by (auto simp: meta_wf_def mget_or_def dest: wf_mget split: option.split)
  have keyed: "n = proxyKey (ps_ClientID p) (ps_RemotePort p)" if "F n = Some p" for n p
    using inv(2) that by (simp add: F store_inv_defs)
  have ev: "\<exists>p. restored_proxy gid t (key, raw) = Some (restored_event gid t key ResourceTypeProxy (proxyKey (ps_ClientID p) (ps_RemotePort p)) (AnyProxy p)) \<and>
       F (proxyKey (ps_ClientID p) (ps_RemotePort p)) = Some p \<and>
       ParseResourceKey key = Inr \<lparr>rk_Type = ''proxy'', rk_Namespace = ''default'', rk_Name = proxyKey (ps_ClientID p) (ps_RemotePort p)\<rparr>"
    if "(key, raw) \<in> set es" for key raw
  proof -
    obtain v where v: "(key, v) \<in> set (meta_proxies (sm_meta st))" "raw = through_json v" using \<open>(key, raw) \<in> set es\<close> by (auto simp: es)
    then have "mget (meta_proxies (sm_meta st)) key = Some v" using mget_in_set [OF wf] by blast
    then obtain rk p where rk: "ParseResourceKey key = Inr rk" "rk_Type rk = ''proxy''" "rk_Namespace rk = ''default''" "F (rk_Name rk) = Some p" "v = AnyProxy p"
      using inv(1) by (auto simp: proxies_persisted_def F split: sum.splits if_splits)
    have st: "proxy_storable (desired_of_proxy p)" using storable rk(4) by blast
    then have "\<not> (ps_ClientID p = '''' \<or> ps_RemotePort p = 0)" by (simp add: proxy_storable_def desired_of_proxy_def)
    moreover have "rk = \<lparr>rk_Type = ''proxy'', rk_Namespace = ''default'', rk_Name = proxyKey (ps_ClientID p) (ps_RemotePort p)\<rparr>"
      using rk keyed [OF rk(4)] by (cases rk) simp
    ultimately show ?thesis using rk parseProxy_json [OF st] v(2) keyed [OF rk(4)] by (intro exI [of _ p]) (simp add: restored_proxy_def)
  qed
  show "list_all (adds F) (proxy_events gid t es)"
    unfolding list_all_iff
  proof
    fix e assume "e \<in> set (proxy_events gid t es)"
    then obtain key raw where "(key, raw) \<in> set es" and some: "restored_proxy gid t (key, raw) = Some e"
      by (auto simp: proxy_events_def set_map_filter)
    from ev [OF this(1)] some show "adds F e" by (auto simp: adds_def restored_event_def NewGenericEvent_def)
  qed
  show "\<exists>e \<in> set (proxy_events gid t es). ev_Payload e = AnyProxy p" if "F n = Some p"
  proof -
    let ?rk = "\<lparr>rk_Type = ''proxy'', rk_Namespace = ''default'', rk_Name = n\<rparr>"
    have "n \<noteq> ''''" using keyed [OF that] by (simp add: proxyKey_def)
    then have "wf_key ?rk" by (simp add: wf_key_def)
    then have parse: "ParseResourceKey (ResourceKey_String ?rk) = Inr ?rk" by (rule ParseResourceKey_String)
    then have "mget (meta_proxies (sm_meta st)) (ResourceKey_String ?rk) = Some (AnyProxy p)"
      using inv(1) that by (simp add: proxies_persisted_def F)
    then have "(ResourceKey_String ?rk, through_json (AnyProxy p)) \<in> set es" using mget_in_set [OF wf] by (force simp: es)
    moreover from ev [OF this] parse obtain q where q: "n = proxyKey (ps_ClientID q) (ps_RemotePort q)" "F n = Some q" and
      e: "restored_proxy gid t (ResourceKey_String ?rk, through_json (AnyProxy p)) = Some (restored_event gid t (ResourceKey_String ?rk) ResourceTypeProxy n (AnyProxy q))"
      by auto
    ultimately have e: "restored_event gid t (ResourceKey_String ?rk) ResourceTypeProxy n (AnyProxy q) \<in> set (proxy_events gid t es)"
      by (auto simp: proxy_events_def set_map_filter)
    show ?thesis using that q(2) by (intro bexI [OF _ e]) (simp add: restored_event_def NewGenericEvent_def)
  qed
qed

text \<open>Every proxy a snapshot would restore is one of \<open>F\<close>.\<close>

definition snapshot_current :: "(string \<Rightarrow> ProxyState option) \<Rightarrow> SnapshotRec \<Rightarrow> bool" where
  "snapshot_current F sn \<longleftrightarrow> (\<forall>m name mm. mget (sn_State sn) ''desired_proxies'' = Some m \<longrightarrow> (name, AnyMap mm) \<in> set m \<longrightarrow>
     (let p = parseProxyFromMap mm in ps_ClientID p = '''' \<or> ps_RemotePort p = 0 \<or> F (proxyKey (ps_ClientID p) (ps_RemotePort p)) = Some p))"

lemma proxy_of_desired_of [simp]: "proxy_of_desired (desired_of_proxy p) = p"
  by (simp add: proxy_of_desired_def desired_of_proxy_def)

lemma restore_entries_within:
  assumes "\<forall>name mm. (name, AnyMap mm) \<in> set m \<longrightarrow>
     (let p = parseProxyFromMap mm in ps_ClientID p = '''' \<or> ps_RemotePort p = 0 \<or> F (proxyKey (ps_ClientID p) (ps_RemotePort p)) = Some p)"
    "within F s"
  shows "within F (fold restore_proxy_entry m s)"
  using assms
proof (induction m arbitrary: s)
  case (Cons e m)
  have "within F (restore_proxy_entry e s)"
  proof (cases "\<exists>name mm. e = (name, AnyMap mm)")
    case True
    then obtain name mm where e: "e = (name, AnyMap mm)" by blast
    define p where "p = parseProxyFromMap mm"
    have "ps_ClientID p = '''' \<or> ps_RemotePort p = 0 \<or> F (proxyKey (ps_ClientID p) (ps_RemotePort p)) = Some p"
      using Cons.prems(1) e by (auto simp: p_def Let_def)
    moreover have "pd_ClientID (desired_of_proxy p) = ps_ClientID p" "pd_RemotePort (desired_of_proxy p) = ps_RemotePort p"
      by (simp_all add: desired_of_proxy_def)
    ultimately show ?thesis
      using Cons.prems(2) by (auto simp: e restore_proxy_entry_def restore_proxy_def within_def Let_def simp flip: p_def split: if_splits)
  next
    case False
    then show ?thesis using Cons.prems(2) by (cases e) (auto simp: restore_proxy_entry_def split: any.split)
  qed
  then show ?case using Cons by simp
qed simp

lemma fold_restore_relay_proxies: "ss_proxies (fold restore_relay_entry m s) = ss_proxies s"
  by (induction m arbitrary: s) (simp_all add: restore_relay_entry_def Let_def split: any.split)

lemma restoreSnapshot_within:
  assumes "co_storage k = Some st" "\<forall>sn. snapshot_Load (sm_snapshots st) = Inr sn \<longrightarrow> snapshot_current F sn" "within F (co_stateStore k)"
  shows "within F (co_stateStore (restoreSnapshot k))"
proof (cases "snapshot_Load (sm_snapshots st)")
  case (Inl e)
  then show ?thesis using assms(1,3) by (simp add: restoreSnapshot_def)
next
  case (Inr sn)
  let ?data = "map (\<lambda>(key, v). (key, AnyMap v)) (sn_State sn)"
  have d: "mget ?data ''desired_proxies'' = map_option AnyMap (mget (sn_State sn) ''desired_proxies'')" by (rule map_of_map_val)
  define s1 where "s1 = (case mget ?data ''desired_proxies'' of Some (AnyMap m) \<Rightarrow> fold restore_proxy_entry m (co_stateStore k) | _ \<Rightarrow> co_stateStore k)"
  have "within F s1"
  proof (cases "mget (sn_State sn) ''desired_proxies''")
    case None
    then show ?thesis using assms(3) by (simp add: s1_def d)
  next
    case (Some m)
    have "snapshot_current F sn" using assms(2) Inr by blast
    then have "within F (fold restore_proxy_entry m (co_stateStore k))"
      by (intro restore_entries_within assms(3)) (simp add: snapshot_current_def Some)
    then show ?thesis by (simp add: s1_def d Some)
  qed
  moreover have "ss_proxies (Restore ?data (co_stateStore k)) = ss_proxies s1"
    unfolding Restore_def Let_def s1_def [symmetric] by (simp add: fold_restore_relay_proxies split: option.split any.split)
  ultimately have "within F (Restore ?data (co_stateStore k))" by (simp only: within_def)
  then show ?thesis using assms(1,3) Inr by (simp add: restoreSnapshot_def)
qed

lemma restoreSnapshot_other [simp]:
  "co_eventBus (restoreSnapshot k) = co_eventBus k" "co_storage (restoreSnapshot k) = co_storage k"
  by (simp_all add: restoreSnapshot_def split: option.split sum.split)

lemma persist_restore_eq:
  assumes "co_storage k = Some st"
  shows "persist_restore gid t k = SetRestoring False (restoreSnapshot (restoreFromMetaStore gid t (SetRestoring True k)))"
proof -
  have "co_storage (restoreFromMetaStore gid t (SetRestoring True k)) = Some st"
    using assms by (simp add: restoreFromMetaStore_def SetRestoring_def fold_restore_proxy fold_restore_relay)
  then show ?thesis by (simp add: persist_restore_def Let_def) (simp add: restoreSnapshot_def)
qed

section \<open>Properties\<close>

text \<open>The lookups of a restarted server.\<close>

lemma restart_lookup:
  assumes "\<forall>e. codec_ok enc dec e" and "NewStorageManager dec (clean_start t0) config empty_disk = Inr st0"
    and "core_reach enc (NewCore ip (Some st0)) k" and "co_storage k = Some st"
    and "\<forall>n p. mget (ss_proxies (co_stateStore k)) n = Some p \<longrightarrow> proxy_storable (desired_of_proxy p)"
    and "meta_Count (sm_meta st) ''proxy'' \<le> 256" and "\<forall>f \<in> mkeys (dk_events (disk_of st)). f \<le> fmt_int t1 @ ''.jsonl''"
  shows "\<exists>st'. NewStorageManager dec (clean_start t1) config' (disk_of st) = Inr st' \<and>
     ((\<forall>sn. snapshot_Load (sm_snapshots st') = Inr sn \<longrightarrow> snapshot_current (mget (ss_proxies (co_stateStore k))) sn) \<longrightarrow>
      GetProxy (co_stateStore (drain enc' now v ''proxy'' (persist_restore gid t (NewCore ip' (Some st'))))) c q = GetProxy (co_stateStore k) c q)"
proof -
  define F where "F = mget (ss_proxies (co_stateStore k))"
  have inv: "core_inv dec k" by (rule core_reach_inv [OF assms(3) core_inv_New [OF assms(2)] assms(1)])
  then have "storage_inv dec st" using assms(4) by (simp add: core_inv_def)
  from storage_reload [OF this assms(7)] obtain st' where st': "NewStorageManager dec (clean_start t1) config' (disk_of st) = Inr st'"
    "\<forall>t. mget (ms_resources (sm_meta st')) t = map_option (map (map_prod id through_json)) (mget (ms_resources (sm_meta st)) t)"
    by blast
  define es where "es = map (map_prod id through_json) (meta_proxies (sm_meta st))"
  have es: "meta_List (sm_meta st') ''proxy'' = es"
    using st'(2) by (simp add: meta_List_def es_def mget_or_def split: option.split)
  have len: "length (meta_List (sm_meta st') ''proxy'') \<le> queueCap"
    using assms(6) by (simp add: es) (simp add: es_def queueCap_def meta_Count_def)
  have "\<forall>n p. F n = Some p \<longrightarrow> proxy_storable (desired_of_proxy p)" using assms(5) by (simp add: F_def)
  note ev = restored_events [where gid = gid and t = t, OF inv assms(4) F_def this es_def]
  let ?k0 = "SetRestoring True (NewCore ip' (Some st'))"
  have k0: "co_storage ?k0 = Some st'" "co_eventBus ?k0 = co_eventBus (NewCore ip' (Some st'))" "co_stateStore ?k0 = NewStateStore ip'"
    by (simp_all add: SetRestoring_def NewCore_def)
  note rq = restored_queue [OF k0(1,2) len, of gid t]
  define k2 where "k2 = persist_restore gid t (NewCore ip' (Some st'))"
  have k2: "k2 = SetRestoring False (restoreSnapshot (restoreFromMetaStore gid t ?k0))"
    unfolding k2_def by (rule persist_restore_eq) (simp add: NewCore_def)
  have bus: "co_eventBus k2 = co_eventBus (restoreFromMetaStore gid t ?k0)" by (simp add: k2 SetRestoring_def)
  have "GetProxy (co_stateStore (drain enc' now v ''proxy'' k2)) c q = GetProxy (co_stateStore k) c q"
    if cur: "\<forall>sn. snapshot_Load (sm_snapshots st') = Inr sn \<longrightarrow> snapshot_current F sn"
  proof -
    have "within F (co_stateStore (restoreFromMetaStore gid t ?k0))" by (simp add: rq(4) k0(3) within_def NewStateStore_def)
    then have w: "within F (co_stateStore k2)"
      using restoreSnapshot_within [OF _ cur, of "restoreFromMetaStore gid t ?k0"] rq(5) k0(1) by (simp add: k2 SetRestoring_def)
    have "co_stateStore (drain enc' now v ''proxy'' k2) = fold (Apply now) (queued ''proxy'' (co_eventBus k2)) (co_stateStore k2)"
      using rq(2,3) by (intro drain_store) (simp_all add: bus takes_def)
    also have "\<dots> = fold (Apply now) (map unseq (proxy_events gid t es)) (co_stateStore k2)"
      using rq(1) fold_Apply_unseq [of now "queued ''proxy'' (co_eventBus k2)"] by (simp add: bus es)
    finally have s: "co_stateStore (drain enc' now v ''proxy'' k2) = fold (Apply now) (proxy_events gid t es) (co_stateStore k2)"
      by (simp add: fold_Apply_unseq)
    note fa = fold_Apply_adds [OF ev(1) w, of now, folded s]
    have "mget (ss_proxies (co_stateStore (drain enc' now v ''proxy'' k2))) n = F n" for n
    proof (cases "F n")
      case None
      then show ?thesis using fa unfolding within_def by (metis option.exhaust_sel option.distinct(1))
    next
      case (Some p)
      then have "n = proxyKey (ps_ClientID p) (ps_RemotePort p)" using inv by (simp add: F_def core_inv_def store_inv_defs)
      then have "n \<in> dom (mget (ss_proxies (co_stateStore (drain enc' now v ''proxy'' k2))))" using fa ev(2) [OF Some] by blast
      then show ?thesis using fa unfolding within_def by fastforce
    qed
    then show ?thesis by (simp add: GetProxy_proxyKey F_def)
  qed
  then show ?thesis using st'(1) unfolding k2_def F_def by blast
qed

text \<open>Proxies survive a restart of the server. From a fresh data directory, let any sequence of
  published events, subscriptions and worker turns run, with every persisted event acknowledged by the
  storage; then let the server stop at any moment. A new server on the same files starts, and after its
  restore phase and once its proxy queue is drained it answers every proxy lookup as the old one did,
  provided there are at most 256 proxies (the capacity of the queue) and the latest snapshot restores no
  proxy that has been deleted or changed since.\<close>

theorem restart_restores_proxies:
  assumes "\<forall>e. codec_ok enc dec e" and "NewStorageManager dec (clean_start t0) config empty_disk = Inr st0"
    and "core_reach enc (NewCore ip (Some st0)) k" and "co_storage k = Some st"
    and "\<forall>n p. mget (ss_proxies (co_stateStore k)) n = Some p \<longrightarrow> proxy_storable (desired_of_proxy p)"
    and "meta_Count (sm_meta st) ''proxy'' \<le> 256" and "\<forall>f \<in> mkeys (dk_events (disk_of st)). f \<le> fmt_int t1 @ ''.jsonl''"
  shows "\<exists>st'. NewStorageManager dec (clean_start t1) config' (disk_of st) = Inr st' \<and>
     ((\<forall>sn. snapshot_Load (sm_snapshots st') = Inr sn \<longrightarrow> snapshot_current (mget (ss_proxies (co_stateStore k))) sn) \<longrightarrow>
      GetProxy (co_stateStore (drain enc' now v ''proxy'' (persist_restore gid t (NewCore ip' (Some st'))))) c q = GetProxy (co_stateStore k) c q)"
  using assms by (rule restart_lookup)

definition px_event :: GenericEvent where
  "px_event = (proxy_added sample_proxy)\<lparr>ev_Sequence := 1, ev_Timestamp := 7\<rparr>"

definition px_enc :: "GenericEvent \<Rightarrow> byte list option" where
  "px_enc e = (if e = px_event then Some [65] else None)"

definition px_dec :: "byte list \<Rightarrow> GenericEvent option" where
  "px_dec d = (if d = [65] then Some (reload_event px_event) else None)"

lemma px_codec: "codec_ok px_enc px_dec e"
  by (simp add: codec_ok_def px_enc_def px_dec_def newline_def)

lemmas px_event_defs = px_event_def proxy_added_def proxy_event_def NewGenericEvent_def

lemma px_published:
  assumes "k1 = core_Publish (proxy_added sample_proxy) (NewCore ip (Some st0))"
  shows "eb_chans (co_eventBus k1) = [\<lparr>cn_type = ''proxy'', cn_buf = [(proxy_added sample_proxy)\<lparr>ev_Sequence := 1\<rparr>], cn_closed = False\<rparr>]"
    "co_storage k1 = Some st0" "co_stateStore k1 = NewStateStore ip" "wired (co_eventBus k1)" "\<not> co_restoring k1"
proof -
  show "eb_chans (co_eventBus k1) = [\<lparr>cn_type = ''proxy'', cn_buf = [(proxy_added sample_proxy)\<lparr>ev_Sequence := 1\<rparr>], cn_closed = False\<rparr>]"
    by (simp add: assms core_Publish_def NewCore_def Publish_def publish_begin_def publish_queue_def publish_send_def Subscribe_def
        NewEventBus_def mget_or_def wrap64_def Let_def queueCap_def px_event_defs)
  show "wired (co_eventBus k1)" using wired_New [of ip "Some st0"] by (simp add: assms core_Publish_def wired_cong [OF Publish_frame(1)])
qed (simp_all add: assms core_Publish_def NewCore_def)

lemma px_turn:
  assumes "sm_events st0 = \<lparr>es_files = [(''5.jsonl'', [])], es_file = Some ''5.jsonl'', es_events = [], es_sequence = 0\<rparr>"
    "sm_meta st0 = \<lparr>ms_resources = [], ms_files = []\<rparr>" "sm_snapshotInterval st0 = 2" "sm_eventCount st0 = 0"
    "sm_snapshots st0 = \<lparr>sp_files = [], sp_latest = None\<rparr>"
  defines "e \<equiv> (proxy_added sample_proxy)\<lparr>ev_Sequence := 1\<rparr>"
  shows "persist_result px_enc sample_env e st0 = None"
    "mkeys (es_files (sm_events (persisted px_enc sample_env e st0))) = {''5.jsonl''}"
    "meta_Count (sm_meta (persisted px_enc sample_env e st0)) ''proxy'' = 1"
    "sp_files (sm_snapshots (persisted px_enc sample_env e st0)) = []"
proof -
  have "stamp 1 7 e = px_event" by (simp add: e_def stamp_def px_event_defs)
  then have ap: "Append px_enc WriteOK 7 e (sm_events st0) =
      (None, \<lparr>es_files = [(''5.jsonl'', [65, newline])], es_file = Some ''5.jsonl'', es_events = [px_event], es_sequence = 1\<rparr>)"
    by (simp add: Append_def assms(1) wrap64_def Let_def px_enc_def write_file_def mget_or_def)
  have e: "ev_EventType e = ''ADDED''" "ev_Payload e = AnyProxy sample_proxy" "rk_Type (ev_Resource e) = ''proxy''"
    by (simp_all add: e_def px_event_defs)
  have cnt: "wrap64 1 = 1" by (simp add: wrap64_def)
  have st: "AppendEventAndSave px_enc sample_env e (AnyProxy sample_proxy) st0 = (None, persisted px_enc sample_env e st0)"
    "persisted px_enc sample_env e st0 = st0\<lparr>sm_events := \<lparr>es_files = [(''5.jsonl'', [65, newline])], es_file = Some ''5.jsonl'', es_events = [px_event], es_sequence = 1\<rparr>,
       sm_eventCount := 1, sm_meta := snd (meta_Put None (ev_Resource e) (AnyProxy sample_proxy) (sm_meta st0))\<rparr>"
    by (simp_all add: persisted_def e AppendEventAndSave_def sample_env_def ap Let_def count_event_def assms(3,4) cnt meta_Put_def saveType_def)
  show "persist_result px_enc sample_env e st0 = None" using st(1) e by (simp add: persist_result_def)
  show "mkeys (es_files (sm_events (persisted px_enc sample_env e st0))) = {''5.jsonl''}" by (simp add: st(2))
  show "meta_Count (sm_meta (persisted px_enc sample_env e st0)) ''proxy'' = 1"
    using e(3) by (simp add: st(2) meta_Put_def saveType_def Let_def assms(2) mget_or_def meta_Count_def)
  show "sp_files (sm_snapshots (persisted px_enc sample_env e st0)) = []" by (simp add: st(2) assms(5))
qed

text \<open>A run that creates one proxy.\<close>

lemma px_run:
  obtains st0 k1 k st where "NewStorageManager px_dec (clean_start 5) \<lparr>sc_SnapshotInterval = 2\<rparr> empty_disk = Inr st0"
    "k1 = core_Publish (proxy_added sample_proxy) (NewCore ''ip'' (Some st0))" "event_ok (proxy_added sample_proxy)"
    "k = core_turn px_enc 3 sample_env 0 k1" "0 < length (eb_chans (co_eventBus k1))" "turn_ok px_enc sample_env 0 k1"
    "co_storage k = Some st" "GetProxy (co_stateStore k) ''c1'' 8080 = Some sample_proxy"
    "\<forall>n p. mget (ss_proxies (co_stateStore k)) n = Some p \<longrightarrow> proxy_storable (desired_of_proxy p)"
    "meta_Count (sm_meta st) ''proxy'' \<le> 256" "\<forall>f \<in> mkeys (dk_events (disk_of st)). f \<le> fmt_int 9 @ ''.jsonl''"
    "sp_files (sm_snapshots st) = []"
proof -
  obtain st0 where st0: "NewStorageManager px_dec (clean_start 5) \<lparr>sc_SnapshotInterval = 2\<rparr> empty_disk = Inr st0"
    "sm_events st0 = \<lparr>es_files = [(''5.jsonl'', [])], es_file = Some ''5.jsonl'', es_events = [], es_sequence = 0\<rparr>"
    "sm_meta st0 = \<lparr>ms_resources = [], ms_files = []\<rparr>" "sm_snapshotInterval st0 = 2" "sm_eventCount st0 = 0"
    "sm_snapshots st0 = \<lparr>sp_files = [], sp_latest = None\<rparr>"
    using sample_start [of px_dec] by blast
  define k1 where "k1 = core_Publish (proxy_added sample_proxy) (NewCore ''ip'' (Some st0))"
  define k where "k = core_turn px_enc 3 sample_env 0 k1"
  define e where "e = (proxy_added sample_proxy)\<lparr>ev_Sequence := 1\<rparr>"
  define st where "st = persisted px_enc sample_env e st0"
  note pub = px_published [OF k1_def, folded e_def]
  note tn = px_turn [OF st0(2-6), folded e_def, folded st_def]
  have ok: "event_ok (proxy_added sample_proxy)" by (simp add: event_ok_def px_event_defs proxyKey_def)
  have turn: "turn_ok px_enc sample_env 0 k1"
    using tn(1) st0(2) by (simp add: turn_ok_def pub env_ok_def sample_env_def clean_def)
  have k: "k = on_resource px_enc 3 sample_env e (k1\<lparr>co_eventBus := worker_turn 0 (co_eventBus k1)\<rparr>)"
    unfolding k_def using core_turn_event [OF pub(4), of 0 e "[]" "''proxy''" px_enc 3 sample_env] pub(1) by simp
  have store: "co_stateStore k = Apply 3 e (NewStateStore ''ip'')" "co_storage k = Some st"
    by (simp_all add: k on_resource_storage pub st_def)
  have px: "ss_proxies (co_stateStore k) = [(proxyKey ''c1'' 8080, sample_proxy)]"
    by (simp add: store(1) e_def px_event_defs Apply_def applyProxyEvent_def parseProxyFromPayload_def Let_def NewStateStore_def) (simp add: sample_proxy_def)
  have g: "GetProxy (co_stateStore k) ''c1'' 8080 = Some sample_proxy" by (simp add: GetProxy_proxyKey px)
  have storable: "\<forall>n p. mget (ss_proxies (co_stateStore k)) n = Some p \<longrightarrow> proxy_storable (desired_of_proxy p)"
    by (simp add: px proxy_storable_def desired_of_proxy_def small_int_def sample_proxy_def)
  have names: "\<forall>f \<in> mkeys (dk_events (disk_of st)). f \<le> fmt_int 9 @ ''.jsonl''" using tn(2) by (simp add: disk_of_def)
  have cnt: "meta_Count (sm_meta st) ''proxy'' \<le> 256" using tn(3) by simp
  show thesis using that [OF st0(1) k1_def ok k_def _ turn store(2) g storable cnt names tn(4)] pub(1) by simp
qed

text \<open>Without a snapshot file there is nothing a snapshot could bring back.\<close>

lemma px_no_snapshot:
  assumes "NewStorageManager px_dec (clean_start 9) \<lparr>sc_SnapshotInterval = 2\<rparr> (disk_of st) = Inr st'" "sp_files (sm_snapshots st) = []"
  shows "snapshot_Load (sm_snapshots st') \<noteq> Inr sn"
proof -
  have "sm_snapshots st' = \<lparr>sp_files = [], sp_latest = None\<rparr>"
    using assms by (auto simp: NewStorageManager_def disk_of_def NewSnapshotStore_def loadLatest_def clean_start_def split: sum.splits)
  then show ?thesis by (simp add: snapshot_Load_def)
qed

theorem restart_restores_proxies_witness:
  "\<exists>(k :: Core) (st :: StorageManager) st'. co_storage k = Some st \<and> NewStorageManager px_dec (clean_start 9) \<lparr>sc_SnapshotInterval = 2\<rparr> (disk_of st) = Inr st' \<and>
     GetProxy (co_stateStore k) ''c1'' 8080 = Some sample_proxy \<and>
     GetProxy (co_stateStore (drain px_enc 3 sample_env ''proxy'' (persist_restore (\<lambda>_. ''id'') 4 (NewCore ''ip'' (Some st'))))) ''c1'' 8080 = Some sample_proxy"
proof -
  obtain st0 k1 k st where run: "NewStorageManager px_dec (clean_start 5) \<lparr>sc_SnapshotInterval = 2\<rparr> empty_disk = Inr st0"
    "k1 = core_Publish (proxy_added sample_proxy) (NewCore ''ip'' (Some st0))" "event_ok (proxy_added sample_proxy)"
    "k = core_turn px_enc 3 sample_env 0 k1" "0 < length (eb_chans (co_eventBus k1))" "turn_ok px_enc sample_env 0 k1"
    and k: "co_storage k = Some st" "GetProxy (co_stateStore k) ''c1'' 8080 = Some sample_proxy"
    "\<forall>n p. mget (ss_proxies (co_stateStore k)) n = Some p \<longrightarrow> proxy_storable (desired_of_proxy p)"
    "meta_Count (sm_meta st) ''proxy'' \<le> 256" "\<forall>f \<in> mkeys (dk_events (disk_of st)). f \<le> fmt_int 9 @ ''.jsonl''"
    "sp_files (sm_snapshots st) = []" by (rule px_run)
  have reach: "core_reach px_enc (NewCore ''ip'' (Some st0)) k"
    using cr_step [OF cr_step [OF cr_init cs_publish [OF run(3)]], of px_enc "NewCore ''ip'' (Some st0)"] cs_turn [OF run(5,6), where now = 3]
    by (simp add: run(2,4))
  from restart_restores_proxies [OF _ run(1) reach k(1,3-5),
      where config' = "\<lparr>sc_SnapshotInterval = 2\<rparr>" and enc' = px_enc and now = 3 and v = sample_env and gid = "\<lambda>_. ''id''" and t = 4 and ip' = "''ip''"
        and c = "''c1''" and q = 8080] px_codec
  show ?thesis using px_no_snapshot [OF _ k(6)] k(1,2) by metis
qed

section \<open>Plugin state across a restart\<close>

lemma mget_map_prod: "mget (map (map_prod id f) m) k = map_option f (mget m k)"
  by (induction m) auto

lemma mkeys_map_prod: "map fst (map (map_prod id f) m) = map fst m"
  by simp

lemma wf_fold_mput: "wf_map m \<Longrightarrow> wf_map (fold (\<lambda>(n, p) m. mput m n (f p)) reg m)"
  by (induction reg arbitrary: m) auto

lemma fold_mput_other: "name \<notin> fst ` set reg \<Longrightarrow> mget (fold (\<lambda>(n, p) m. mput m n (f p)) reg m) name = mget m name"
  by (induction reg arbitrary: m) auto

lemma fold_mput_get: "wf_map reg \<Longrightarrow> mget reg name = Some p \<Longrightarrow> mget (fold (\<lambda>(n, p) m. mput m n (f p)) reg m) name = Some (f p)"
  by (induction reg arbitrary: m) (auto simp: fold_mput_other image_iff split: if_splits)

text \<open>What a flush leaves in the file for a registered provider, and what a restore makes of it when
  that provider is the only registered one.\<close>

lemma loadFromDisk_flushAll:
  "loadFromDisk (flushAll None reg s f) = map (map_prod id through_json) (fold (\<lambda>(n, p) m. mput m n (sv_Export p s)) reg (loadFromDisk f))"
proof -
  have "(\<lambda>x. unmarshal_any (marshal x)) = through_json" by (rule ext) (simp add: through_json_def)
  then show ?thesis by (simp add: flushAll_def loadFromDisk_def Let_def prod.map_comp comp_def id_def)
qed

lemma import_fold:
  "wf_map m \<Longrightarrow> fold (\<lambda>(name, data) s. case mget [(n, p)] name of None \<Rightarrow> s | Some p \<Rightarrow> sv_Import p data s) m s
     = (case mget m n of None \<Rightarrow> s | Some d \<Rightarrow> sv_Import p d s)"
proof (induction m arbitrary: s)
  case (Cons x m)
  have "fold (\<lambda>(name, data) s. case mget [(n, p)] name of None \<Rightarrow> s | Some p \<Rightarrow> sv_Import p data s) m s = s" if "n \<notin> fst ` set m" for s
    using that by (induction m) auto
  then show ?case using Cons by (cases x) (auto simp: map_of_eq_None_iff split: option.split)
qed simp

lemma restore_after_flush:
  assumes "wf_map (loadFromDisk f)" "reg = [(n, p)]"
  shows "restoreAll reg (flushAll None reg s f) q = sv_Import p (through_json (sv_Export p s)) q"
proof -
  have g: "mget (loadFromDisk (flushAll None reg s f)) n = Some (through_json (sv_Export p s))"
    by (simp add: loadFromDisk_flushAll mget_map_prod assms(2))
  have "wf_map (fold (\<lambda>(n, p) m. mput m n (sv_Export p s)) reg (loadFromDisk f))" using assms(1) by (rule wf_fold_mput)
  then have "wf_map (loadFromDisk (flushAll None reg s f))" by (simp add: loadFromDisk_flushAll)
  from import_fold [OF this, of n p q] show ?thesis by (simp add: restoreAll_def assms(2) g [unfolded assms(2)])
qed



end
