(* ===== verification/System_Run.thy ===== *)
theory System_Run
  imports Http_Api Persist_Plugin
begin

text \<open>
  The running server: sessions, tunnel loops, the management interface and the workers of the bus take their
  steps in any order on one core and one registry. The proofs only combine what the components promise: a
  session or a request changes the core as \<open>core_step\<close> allows and the registry through its operations.
\<close>

section \<open>Runs\<close>

inductive system_step :: "crypto \<Rightarrow> (GenericEvent \<Rightarrow> byte list option) \<Rightarrow> Server \<Rightarrow> Server \<Rightarrow> bool" for cr enc where
  sy_session: "session_step s s' \<Longrightarrow> system_step cr enc s s'"
| sy_http: "he_crypto v = cr \<Longrightarrow> system_step cr enc s (snd (http_serve v ver rt r s))"
| sy_turn: "c < length (eb_chans (co_eventBus (srv_core s))) \<Longrightarrow> turn_ok enc v c (srv_core s) \<Longrightarrow>
    system_step cr enc s (s\<lparr>srv_core := core_turn enc now v c (srv_core s)\<rparr>)"
| sy_provider: "system_step cr enc s (s\<lparr>srv_provider := pv\<rparr>)"

inductive system_reach :: "crypto \<Rightarrow> (GenericEvent \<Rightarrow> byte list option) \<Rightarrow> Server \<Rightarrow> Server \<Rightarrow> bool" for cr enc s0 where
  syr_init: "system_reach cr enc s0 s0"
| syr_step: "system_reach cr enc s0 s \<Longrightarrow> system_step cr enc s s' \<Longrightarrow> system_reach cr enc s0 s'"

section \<open>Lemmas\<close>

lemma core_reach_trans: "core_reach enc k1 k2 \<Longrightarrow> core_reach enc k0 k1 \<Longrightarrow> core_reach enc k0 k2"
  by (induction rule: core_reach.induct) (auto intro: core_reach.intros)

lemma core_reach_step: "core_step enc k k' \<Longrightarrow> core_reach enc k k'"
  by (rule cr_step [OF cr_init])

lemma client_event_ok [simp]: "event_ok (newClientEvent gid t c a h)" "event_ok (newClientModifiedEvent gid t c l)" "event_ok (newClientDeletedEvent gid t c)"
  by (simp_all add: event_ok_def newClientEvent_def newClientModifiedEvent_def newClientDeletedEvent_def client_key_def NewGenericEvent_def)

lemma core_reach_publish: "event_ok e \<Longrightarrow> core_reach enc k (core_Publish e k)"
  by (rule core_reach_step [OF cs_publish])

lemma core_reach_register:
  assumes "event_ok e"
  shows "core_reach enc k ((core_Publish e k)\<lparr>co_stateStore := SetClientConn (co_stateStore (core_Publish e k)) now c i\<rparr>)"
  by (rule cr_step [OF core_reach_publish [OF assms] cs_connect])

lemma message_core:
  assumes "i < length (srv_heap s)"
  shows "core_reach enc (srv_core s) (srv_core (handleMessage parse o' gid t now i msg s))"
  using assms
proof (cases rule: handleMessage_cases [where msg = msg and parse = parse and o' = o' and gid = gid and t = t and now = now])
  case (accepted c ns host f)
  then show ?thesis using core_reach_register by (simp add: complete_register_core Let_def)
next
  case pong
  then show ?thesis
    by (cases "ws_Data msg") (simp_all add: handlePong_def Let_def core_reach_publish cr_init split: option.split)
qed (simp_all add: cr_init)

lemma message_auth:
  assumes "i < length (srv_heap s)"
  shows "auth_moves cr (srv_auth s) (srv_auth (handleMessage parse o' gid t now i msg s))"
  using assms
proof (cases rule: handleMessage_cases [where msg = msg and parse = parse and o' = o' and gid = gid and t = t and now = now])
  case (accepted c ns host f)
  then show ?thesis by (simp add: complete_register_def Let_def)
qed (simp_all add: handlePong_frame [OF assms])

lemma Close_core: "core_reach enc (srv_core s) (srv_core (session_Close gid t i s))"
  by (simp add: session_Close_def Let_def core_reach_publish cr_init)

lemma Close_auth [simp]: "srv_auth (session_Close gid t i s) = srv_auth s"
  by (simp add: session_Close_def Let_def)

lemma track_known_frame [simp]: "srv_core (track_known i s) = srv_core s" "srv_auth (track_known i s) = srv_auth s"
proof -
  have "srv_auth (snd (SendToClient c m s)) = srv_auth s" "srv_auth (startTunnelLoop p s) = srv_auth s" for c m p s
    by (simp_all add: SendToClient_def startTunnelLoop_def Let_def split: option.split)
  then have "srv_auth (sync_proxy p s) = srv_auth s" "srv_auth (sync_relay c r s) = srv_auth s" "srv_auth (snd (SendToClient c m s)) = srv_auth s" for c m p r s
    by (simp_all add: sync_proxy_def notifyProxyClient_def sync_relay_def split: prod.split)
  then show "srv_auth (track_known i s) = srv_auth s" "srv_core (track_known i s) = srv_core s"
    by (simp_all add: track_known_def Let_def deliverPendingRelaySignals_def syncClientRelays_def syncClientProxies_def
        fold_keeps [where g = srv_auth] fold_keeps [where g = srv_core])
qed

lemma event_frame [simp]: "srv_core (session_handleProxyEvent e s) = srv_core s" "srv_auth (session_handleProxyEvent e s) = srv_auth s"
proof -
  have "srv_auth (snd (SendToClient c m s)) = srv_auth s" "srv_auth (startTunnelLoop p s) = srv_auth s" for c m p s
    by (simp_all add: SendToClient_def startTunnelLoop_def Let_def split: option.split)
  then show "srv_auth (session_handleProxyEvent e s) = srv_auth s" "srv_core (session_handleProxyEvent e s) = srv_core s"
    by (simp_all add: session_handleProxyEvent_def session_handleProxyAdded_def session_handleProxyDeleted_def notifyProxyClient_def
        split: option.split any.split)
qed

text \<open>Sessions and requests refine the runs of the core and of the registry.\<close>

lemma session_refines: "session_step s s' \<Longrightarrow> core_reach enc (srv_core s) (srv_core s') \<and> auth_moves cr (srv_auth s) (srv_auth s')"
proof (induction rule: session_step.induct)
  case (sv_timeout i s gid t)
  then show ?case by (simp add: track_timeout_def Close_core cr_init)
qed (simp_all add: message_core message_auth Close_core cr_init,
    simp_all add: Handle_def HandleTemp_def writePump_take_def track_end_def tunnel_loop_end_def cr_init split: list.split)

lemma http_refines: "he_crypto v = cr \<Longrightarrow> core_reach enc (srv_core s) (srv_core (snd (http_serve v ver rt r s))) \<and>
    auth_moves cr (srv_auth s) (srv_auth (snd (http_serve v ver rt r s)))"
  using http_publishes [of s v ver rt r] http_moves_auth [of v cr s ver rt r] by (auto simp: publishes_def cr_init core_reach_publish)

lemma system_step_refines: "system_step cr enc s s' \<Longrightarrow> core_reach enc (srv_core s) (srv_core s') \<and> auth_moves cr (srv_auth s) (srv_auth s')"
proof (induction rule: system_step.induct)
  case (sy_session s s')
  then show ?case by (rule session_refines)
next
  case (sy_http v ver rt r s)
  then show ?case by (rule http_refines)
next
  case (sy_turn c s v now)
  then show ?case by (simp add: core_reach_step [OF cs_turn])
next
  case (sy_provider s pv)
  then show ?case by (simp add: cr_init)
qed

lemma system_refines: "system_reach cr enc s0 s \<Longrightarrow> core_reach enc (srv_core s0) (srv_core s) \<and> auth_moves cr (srv_auth s0) (srv_auth s)"
proof (induction rule: system_reach.induct)
  case (syr_step s s')
  then show ?case using system_step_refines core_reach_trans auth_moves_trans by blast
qed (simp add: cr_init)

lemma system_server_inv: "system_reach cr enc s0 s \<Longrightarrow> server_inv s0 \<Longrightarrow> server_inv s"
proof (induction rule: system_reach.induct)
  case (syr_step s s')
  from syr_step(2) syr_step.IH [OF syr_step.prems] show ?case
    by (induction rule: system_step.induct) (simp_all add: server_inv_session_step http_server_inv)
qed

section \<open>Theorems\<close>



definition sample_proxy_body :: json where
  "sample_proxy_body = JObj [(''client_id'', JStr ''c1''), (''remote_port'', JInt 8080), (''local_port'', JInt 80)]"

definition sample_api_request :: HttpRequest where
  "sample_api_request = (sample_http sample_proxy_body)\<lparr>hr_apiKey := ''k''\<rparr>"

definition sample_system_env :: http_env where
  "sample_system_env = sample_http_env\<lparr>he_eventID := '''', he_eventTime := 0\<rparr>"

text \<open>The run of one request and one turn.\<close>

lemma sample_request_publishes:
  assumes "srv_auth s = toy_manager"
  shows "snd (http_serve sample_system_env ''v'' PostProxies sample_api_request s) = s\<lparr>srv_core := core_Publish (proxy_added sample_proxy) (srv_core s)\<rparr>"
proof -
  have b: "bind_proxy sample_api_request = Some \<lparr>ps_ClientID = ''c1'', ps_RemotePort = 8080, ps_LocalPort = 80, ps_LocalIP = '''', ps_Protocol = '''', ps_BindAddr = ''''\<rparr>"
    by (simp add: bind_proxy_def sample_api_request_def sample_http_def sample_proxy_body_def bind_object_def bind_str_def bind_int_def)
  have "requireJWT sample_system_env toy_manager sample_api_request = Inr (Some ''k'')"
    by (simp add: requireJWT_def sample_api_request_def sample_http_def ValidateAPIKey_def)
  then show ?thesis using assms b
    by (simp add: http_serve_def on_core_def handleCreateProxy_def port_ok_def or_default_def Let_def sample_system_env_def sample_proxy_def
        proxy_added_def proxy_event_def proxy_key_def)
qed

lemma sample_system_run:
  obtains st0 s st where "NewStorageManager px_dec (clean_start 5) \<lparr>sc_SnapshotInterval = 2\<rparr> empty_disk = Inr st0"
    "system_reach toy_crypto px_enc (NewServer (NewCore ''ip'' (Some st0)) 7000 toy_manager None) s"
    "co_storage (srv_core s) = Some st" "GetProxy (co_stateStore (srv_core s)) ''c1'' 8080 = Some sample_proxy"
    "\<forall>n p. mget (ss_proxies (co_stateStore (srv_core s))) n = Some p \<longrightarrow> proxy_storable (desired_of_proxy p)"
    "meta_Count (sm_meta st) ''proxy'' \<le> 256" "\<forall>f \<in> mkeys (dk_events (disk_of st)). f \<le> fmt_int 9 @ ''.jsonl''"
    "sp_files (sm_snapshots st) = []"
proof -
  obtain st0 k1 k st where run: "NewStorageManager px_dec (clean_start 5) \<lparr>sc_SnapshotInterval = 2\<rparr> empty_disk = Inr st0"
    "k1 = core_Publish (proxy_added sample_proxy) (NewCore ''ip'' (Some st0))" "event_ok (proxy_added sample_proxy)"
    "k = core_turn px_enc 3 sample_env 0 k1" "0 < length (eb_chans (co_eventBus k1))" "turn_ok px_enc sample_env 0 k1"
    and k: "co_storage k = Some st" "GetProxy (co_stateStore k) ''c1'' 8080 = Some sample_proxy"
    "\<forall>n p. mget (ss_proxies (co_stateStore k)) n = Some p \<longrightarrow> proxy_storable (desired_of_proxy p)"
    "meta_Count (sm_meta st) ''proxy'' \<le> 256" "\<forall>f \<in> mkeys (dk_events (disk_of st)). f \<le> fmt_int 9 @ ''.jsonl''"
    "sp_files (sm_snapshots st) = []" by (rule px_run)
  define s0 where "s0 = NewServer (NewCore ''ip'' (Some st0)) 7000 toy_manager None"
  define s1 where "s1 = snd (http_serve sample_system_env ''v'' PostProxies sample_api_request s0)"
  have s1: "srv_core s1 = k1" using sample_request_publishes [of s0] by (simp add: s1_def s0_def NewServer_def run(2))
  have "system_step toy_crypto px_enc s0 s1" unfolding s1_def by (rule sy_http) (simp add: sample_system_env_def)
  moreover have "system_step toy_crypto px_enc s1 (s1\<lparr>srv_core := k\<rparr>)" using sy_turn [of 0 s1 px_enc sample_env toy_crypto 3] run(4-6) by (simp add: s1)
  ultimately have "system_reach toy_crypto px_enc s0 (s1\<lparr>srv_core := k\<rparr>)" by (blast intro: system_reach.intros)
  then show thesis using that [OF run(1), of "s1\<lparr>srv_core := k\<rparr>" st] k unfolding s0_def by simp
qed



end
