(* ===== verification/File_Plugin.thy ===== *)
theory File_Plugin
  imports Http_Api "HOL-Library.List_Lexorder" "HOL-Library.Char_ord"
begin

text \<open>
  \<open>plugins/file/file.go\<close>: files of the clients below one directory of the server, with the lexical part of
  \<open>path/filepath\<close> it rests on (slash-separated paths).

  The file system maps absolute paths, as lists of names, to contents; the root is a directory, and so is
  every path in \<open>fs_dirs\<close>. There are no symbolic links: a path means what its lexical form says. \<open>cwd\<close> is
  the working directory. A reader is the bytes it gives before it ends or fails.
\<close>

section \<open>Paths\<close>

fun path_split :: "string \<Rightarrow> string list" where
  "path_split [] = [[]]"
| "path_split (c # s) = (if c = CHR ''/'' then [] # path_split s
     else case path_split s of [] \<Rightarrow> [[c]] | x # xs \<Rightarrow> (c # x) # xs)"

fun path_join :: "string list \<Rightarrow> string" where
  "path_join [] = ''''"
| "path_join [x] = x"
| "path_join (x # xs) = x @ ''/'' @ path_join xs"

text \<open>The names of a path, read from the left: empty names and dots vanish, two dots take the last name back,
  unless there is none.\<close>

fun clean_step :: "bool \<Rightarrow> string \<Rightarrow> string list \<Rightarrow> string list" where
  "clean_step rooted x names =
     (if x = '''' \<or> x = ''.'' then names
      else if x = ''..'' then
        (case names of
           [] \<Rightarrow> (if rooted then [] else [''..''])
         | y # ys \<Rightarrow> (if y = ''..'' then ''..'' # names else ys))
      else x # names)"

definition clean_names :: "bool \<Rightarrow> string list \<Rightarrow> string list" where
  "clean_names rooted xs = rev (fold (clean_step rooted) xs [])"

definition IsAbs :: "string \<Rightarrow> bool" where
  "IsAbs p = HasPrefix p ''/''"

definition path_Clean :: "string \<Rightarrow> string" where
  "path_Clean p =
     (let names = clean_names (IsAbs p) (path_split p) in
      if IsAbs p then ''/'' @ path_join names else if names = [] then ''.'' else path_join names)"

text \<open>\<open>filepath.Join\<close> passes over empty elements at the front.\<close>

definition path_Join :: "string list \<Rightarrow> string" where
  "path_Join elems = (case dropWhile (\<lambda>e. e = '''') elems of [] \<Rightarrow> '''' | es \<Rightarrow> path_Clean (path_join es))"

definition path_Abs :: "string \<Rightarrow> string \<Rightarrow> string" where
  "path_Abs cwd p = (if IsAbs p then path_Clean p else path_Join [cwd, p])"

definition path_Dir :: "string \<Rightarrow> string" where
  "path_Dir p = path_Clean (rev (dropWhile (\<lambda>c. c \<noteq> CHR ''/'') (rev p)))"

definition path_Base :: "string \<Rightarrow> string" where
  "path_Base p =
     (if p = '''' then ''.''
      else let q = rev (dropWhile (\<lambda>c. c = CHR ''/'') (rev p)); b = last (path_split q) in
        if b = '''' then ''/'' else b)"

text \<open>What the kernel makes of a path.\<close>

definition resolve :: "string \<Rightarrow> string \<Rightarrow> string list" where
  "resolve cwd p = clean_names True (path_split (path_Abs cwd p))"

section \<open>The file system\<close>

record FileSystem =
  fs_files :: "(string list, byte list) gomap"
  fs_dirs :: "string list list"

definition is_dir :: "FileSystem \<Rightarrow> string list \<Rightarrow> bool" where
  "is_dir fs p \<longleftrightarrow> p = [] \<or> p \<in> set (fs_dirs fs)"

text \<open>\<open>fault\<close> is an error of the system beside those that follow from what is there.\<close>

definition os_MkdirAll :: "string option \<Rightarrow> string list \<Rightarrow> FileSystem \<Rightarrow> string option \<times> FileSystem" where
  "os_MkdirAll fault p fs =
     (let parts = map (\<lambda>n. take (Suc n) p) [0..<length p] in
      case fault of Some e \<Rightarrow> (Some e, fs)
      | None \<Rightarrow>
          if list_ex (\<lambda>q. mget (fs_files fs) q \<noteq> None) parts then (Some ''not a directory'', fs)
          else (None, fs\<lparr>fs_dirs := fs_dirs fs @ filter (\<lambda>q. q \<notin> set (fs_dirs fs)) parts\<rparr>))"

definition os_Create :: "string option \<Rightarrow> string list \<Rightarrow> FileSystem \<Rightarrow> string option \<times> FileSystem" where
  "os_Create fault p fs =
     (case fault of Some e \<Rightarrow> (Some e, fs)
      | None \<Rightarrow>
          if is_dir fs p then (Some ''is a directory'', fs)
          else if \<not> is_dir fs (butlast p) then (Some ''no such file or directory'', fs)
          else (None, fs\<lparr>fs_files := mput (fs_files fs) p []\<rparr>))"

definition os_Remove :: "string option \<Rightarrow> string list \<Rightarrow> FileSystem \<Rightarrow> string option \<times> FileSystem" where
  "os_Remove fault p fs =
     (case fault of Some e \<Rightarrow> (Some e, fs)
      | None \<Rightarrow>
          if mget (fs_files fs) p \<noteq> None then (None, fs\<lparr>fs_files := mdel (fs_files fs) p\<rparr>)
          else if p \<noteq> [] \<and> p \<in> set (fs_dirs fs) \<and> \<not> list_ex (\<lambda>q. q \<noteq> [] \<and> butlast q = p) (map fst (fs_files fs) @ fs_dirs fs)
            then (None, fs\<lparr>fs_dirs := filter (\<lambda>q. q \<noteq> p) (fs_dirs fs)\<rparr>)
          else (Some ''remove failed'', fs))"

datatype opened = OpenFile "byte list" | OpenDir

definition os_Open :: "string option \<Rightarrow> string list \<Rightarrow> FileSystem \<Rightarrow> string + opened" where
  "os_Open fault p fs =
     (case fault of Some e \<Rightarrow> Inl e
      | None \<Rightarrow>
          (case mget (fs_files fs) p of
             Some bs \<Rightarrow> Inr (OpenFile bs)
           | None \<Rightarrow> if is_dir fs p then Inr OpenDir else Inl ''no such file or directory''))"

section \<open>The plugin\<close>

record FilePlugin =
  fp_dataDir :: string

record file_env =
  fe_cwd :: string
  fe_mkdir :: "string option"
  fe_create :: "string option"
  fe_writeErr :: "(nat \<times> string) option"
  fe_open :: "string option"
  fe_remove :: "string option"
  fe_readDir :: "string list \<Rightarrow> string option"
  fe_size :: "string list \<Rightarrow> int"
  fe_modTime :: "string list \<Rightarrow> string"
  fe_infoErr :: "string list \<Rightarrow> bool"

record Reader =
  rd_bytes :: "byte list"
  rd_err :: "string option"

record FileContext = ActionContext +
  fc_file :: "Reader option"

record FileResult = ActionResult +
  fr_Body :: "opened option"
  fr_BodyName :: string
  fr_BodySize :: int

definition file_result :: "int \<Rightarrow> string \<Rightarrow> any \<Rightarrow> FileResult" where
  "file_result code msg data = \<lparr>ar_Code = code, ar_Msg = msg, ar_Data = data, fr_Body = None, fr_BodyName = '''', fr_BodySize = 0\<rparr>"

definition file_Init :: "(string, any) gomap \<Rightarrow> FilePlugin" where
  "file_Init config = \<lparr>fp_dataDir = (let dir = str_or '''' config ''data_dir'' in if dir \<noteq> '''' then dir else ''data'')\<rparr>"

definition file_Schema :: "ActionSchema list" where
  "file_Schema =
     [\<lparr>as_Name = ''file.push'', as_Description = ''upload'', as_Params = [\<lparr>pm_Name = ''path'', pm_Type = ''string'', pm_Required = True, pm_Default = '''', pm_Description = ''''\<rparr>]\<rparr>,
      \<lparr>as_Name = ''file.pull'', as_Description = ''download'', as_Params = [\<lparr>pm_Name = ''path'', pm_Type = ''string'', pm_Required = True, pm_Default = '''', pm_Description = ''''\<rparr>]\<rparr>,
      \<lparr>as_Name = ''file.list'', as_Description = ''list'', as_Params = [\<lparr>pm_Name = ''path'', pm_Type = ''string'', pm_Required = False, pm_Default = '''', pm_Description = ''''\<rparr>]\<rparr>]"

text \<open>The check that \<open>SaveFile\<close> writes out and \<open>safePath\<close> shares with the other operations.\<close>

definition safePath :: "file_env \<Rightarrow> FilePlugin \<Rightarrow> string \<Rightarrow> string + string" where
  "safePath v p subPath =
     (let fullPath = path_Join [fp_dataDir p, subPath]; absDataDir = path_Abs (fe_cwd v) (fp_dataDir p); absFullPath = path_Abs (fe_cwd v) fullPath in
      if \<not> HasPrefix absFullPath (absDataDir @ ''/'') then Inl (''path traversal detected: '' @ subPath) else Inr fullPath)"

text \<open>\<open>io.Copy\<close> into the new file: what arrives before the reader or the disk fails.\<close>

definition io_Copy_file :: "file_env \<Rightarrow> string list \<Rightarrow> Reader \<Rightarrow> FileSystem \<Rightarrow> string option \<times> FileSystem" where
  "io_Copy_file v q r fs =
     (case fe_writeErr v of
        None \<Rightarrow> (rd_err r, fs\<lparr>fs_files := mput (fs_files fs) q (rd_bytes r)\<rparr>)
      | Some (n, e) \<Rightarrow> (Some e, fs\<lparr>fs_files := mput (fs_files fs) q (take n (rd_bytes r))\<rparr>))"

definition write_below :: "file_env \<Rightarrow> string \<Rightarrow> Reader \<Rightarrow> FileSystem \<Rightarrow> string option \<times> FileSystem" where
  "write_below v fullPath r fs =
     (case os_MkdirAll (fe_mkdir v) (resolve (fe_cwd v) (path_Dir fullPath)) fs of
        (Some e, fs1) \<Rightarrow> (Some e, fs1)
      | (None, fs1) \<Rightarrow>
          (case os_Create (fe_create v) (resolve (fe_cwd v) fullPath) fs1 of
             (Some e, fs2) \<Rightarrow> (Some e, fs2)
           | (None, fs2) \<Rightarrow> io_Copy_file v (resolve (fe_cwd v) fullPath) r fs2))"

definition SaveFile :: "file_env \<Rightarrow> FilePlugin \<Rightarrow> string \<Rightarrow> Reader \<Rightarrow> FileSystem \<Rightarrow> string option \<times> FileSystem" where
  "SaveFile v p path r fs = (case safePath v p path of Inl e \<Rightarrow> (Some e, fs) | Inr fullPath \<Rightarrow> write_below v fullPath r fs)"

definition file_WriteFile :: "file_env \<Rightarrow> FilePlugin \<Rightarrow> string \<Rightarrow> byte list \<Rightarrow> FileSystem \<Rightarrow> string option \<times> FileSystem" where
  "file_WriteFile v p path data fs =
     (case safePath v p path of Inl e \<Rightarrow> (Some e, fs) | Inr fullPath \<Rightarrow> write_below v fullPath \<lparr>rd_bytes = data, rd_err = None\<rparr> fs)"

definition LoadFile :: "file_env \<Rightarrow> FilePlugin \<Rightarrow> string \<Rightarrow> FileSystem \<Rightarrow> string + opened" where
  "LoadFile v p path fs = (case safePath v p path of Inl e \<Rightarrow> Inl e | Inr fullPath \<Rightarrow> os_Open (fe_open v) (resolve (fe_cwd v) fullPath) fs)"

definition DeleteFile :: "file_env \<Rightarrow> FilePlugin \<Rightarrow> string \<Rightarrow> FileSystem \<Rightarrow> string option \<times> FileSystem" where
  "DeleteFile v p path fs =
     (case safePath v p path of Inl e \<Rightarrow> (Some e, fs) | Inr fullPath \<Rightarrow> os_Remove (fe_remove v) (resolve (fe_cwd v) fullPath) fs)"

definition FileExists :: "file_env \<Rightarrow> FilePlugin \<Rightarrow> string \<Rightarrow> FileSystem \<Rightarrow> bool" where
  "FileExists v p path fs =
     (case safePath v p path of Inl _ \<Rightarrow> False
      | Inr fullPath \<Rightarrow> (let q = resolve (fe_cwd v) fullPath in mget (fs_files fs) q \<noteq> None \<or> is_dir fs q))"

definition GetFilePath :: "FilePlugin \<Rightarrow> string \<Rightarrow> string" where
  "GetFilePath p subPath = path_Join [fp_dataDir p, subPath]"

definition file_MkdirAll :: "file_env \<Rightarrow> FilePlugin \<Rightarrow> string \<Rightarrow> FileSystem \<Rightarrow> string option \<times> FileSystem" where
  "file_MkdirAll v p path fs = os_MkdirAll (fe_mkdir v) (resolve (fe_cwd v) (path_Join [fp_dataDir p, path])) fs"

definition file_ReadFile :: "file_env \<Rightarrow> FilePlugin \<Rightarrow> string \<Rightarrow> FileSystem \<Rightarrow> string + byte list" where
  "file_ReadFile v p path fs =
     (case os_Open (fe_open v) (resolve (fe_cwd v) (path_Join [fp_dataDir p, path])) fs of
        Inl e \<Rightarrow> Inl e | Inr (OpenFile bs) \<Rightarrow> Inr bs | Inr OpenDir \<Rightarrow> Inl ''is a directory'')"

section \<open>Actions\<close>

definition handlePush :: "file_env \<Rightarrow> FilePlugin \<Rightarrow> FileContext \<Rightarrow> FileSystem \<Rightarrow> FileResult \<times> FileSystem" where
  "handlePush v p ctx fs =
     (let filename = str_or '''' (ac_Params ctx) ''filename''; clientID = str_or '''' (ac_Params ctx) ''client_id'';
          fileType = str_or '''' (ac_Params ctx) ''type'' in
      if filename = '''' then (file_result 400 ''missing filename'' AnyNil, fs)
      else
        let savePath = (if clientID \<noteq> '''' then
                          (if fileType \<noteq> '''' then path_Join [clientID, fileType @ ''s'', filename] else path_Join [clientID, filename])
                        else filename) in
        case fc_file ctx of
          None \<Rightarrow> (file_result 400 ''missing file content'' AnyNil, fs)
        | Some file \<Rightarrow>
            (case SaveFile v p savePath file fs of
               (Some e, fs1) \<Rightarrow> (file_result 500 (''failed to save file: '' @ e) AnyNil, fs1)
             | (None, fs1) \<Rightarrow> (file_result 200 ''file uploaded successfully''
                 (AnyMap [(''filename'', AnyStr filename), (''path'', AnyStr savePath)]), fs1)))"

definition handlePull :: "file_env \<Rightarrow> FilePlugin \<Rightarrow> FileContext \<Rightarrow> FileSystem \<Rightarrow> FileResult" where
  "handlePull v p ctx fs =
     (let filename = str_or '''' (ac_Params ctx) ''path'' in
      if filename = '''' then file_result 400 ''missing path parameter'' AnyNil
      else
        let q = resolve (fe_cwd v) (path_Join [fp_dataDir p, filename]) in
        case os_Open (fe_open v) q fs of
          Inl _ \<Rightarrow> file_result 404 ''file not found'' AnyNil
        | Inr file \<Rightarrow> \<lparr>ar_Code = 200, ar_Msg = '''', ar_Data = AnyNil, fr_Body = Some file, fr_BodyName = path_Base filename,
            fr_BodySize = (case file of OpenFile bs \<Rightarrow> int (length bs) | OpenDir \<Rightarrow> fe_size v q)\<rparr>)"

text \<open>\<open>os.ReadDir\<close> lists a directory by name.\<close>

definition dir_names :: "FileSystem \<Rightarrow> string list \<Rightarrow> string list" where
  "dir_names fs dir = sort (remdups (map last (filter (\<lambda>q. q \<noteq> [] \<and> butlast q = dir) (map fst (fs_files fs) @ fs_dirs fs))))"

definition os_ReadDir :: "file_env \<Rightarrow> string list \<Rightarrow> FileSystem \<Rightarrow> string + string list" where
  "os_ReadDir v dir fs =
     (case fe_readDir v dir of Some e \<Rightarrow> Inl e
      | None \<Rightarrow> if is_dir fs dir then Inr (dir_names fs dir) else Inl ''no such file or directory'')"

definition file_entry :: "string \<Rightarrow> bool \<Rightarrow> int \<Rightarrow> string \<Rightarrow> any" where
  "file_entry path isDir sz modTime =
     AnyMap [(''path'', AnyStr path), (''is_dir'', AnyBool isDir), (''size'', AnyInt64 sz), (''modTime'', AnyStr modTime)]"

definition fs_depth :: "FileSystem \<Rightarrow> nat" where
  "fs_depth fs = Max (insert 0 (length ` set (fs_dirs fs)))"

lemma fs_depth_ge: "q \<in> set (fs_dirs fs) \<Longrightarrow> length q \<le> fs_depth fs"
  by (simp add: fs_depth_def)

function walkEntries :: "file_env \<Rightarrow> FileSystem \<Rightarrow> string list \<Rightarrow> string \<Rightarrow> string list \<Rightarrow> any list" where
  "walkEntries v fs dir prefix entries =
     concat (map (\<lambda>name. let q = dir @ [name]; relPath = prefix @ name in
       if fe_infoErr v q then []
       else if q \<in> set (fs_dirs fs) then
         file_entry (relPath @ ''/'') True (fe_size v q) (fe_modTime v q) #
           walkEntries v fs q (relPath @ ''/'') (case os_ReadDir v q fs of Inl _ \<Rightarrow> [] | Inr subEntries \<Rightarrow> subEntries)
       else [file_entry relPath False (int (length (mget_or [] (fs_files fs) q))) (fe_modTime v q)]) entries)"
  by pat_completeness auto

termination
  by (relation "measure (\<lambda>(v, fs, dir, prefix, entries). Suc (fs_depth fs) - length dir)")
    (auto dest: fs_depth_ge)

declare walkEntries.simps [simp del]

definition listFiles :: "file_env \<Rightarrow> string \<Rightarrow> FileSystem \<Rightarrow> FileResult" where
  "listFiles v dir fs =
     (let q = resolve (fe_cwd v) dir in
      case os_ReadDir v q fs of
        Inl e \<Rightarrow> file_result 500 e AnyNil
      | Inr entries \<Rightarrow> file_result 200 '''' (AnyMap [(''files'', AnyList (walkEntries v fs q '''' entries))]))"

definition file_handleAction :: "file_env \<Rightarrow> FilePlugin \<Rightarrow> FileContext \<Rightarrow> FileSystem \<Rightarrow> FileResult \<times> FileSystem" where
  "file_handleAction v p ctx fs =
     (if ac_Action ctx = ''file.push'' then handlePush v p ctx fs
      else if ac_Action ctx = ''file.pull'' then (handlePull v p ctx fs, fs)
      else if ac_Action ctx = ''file.list'' then
        (let sub = str_or '''' (ac_Params ctx) ''path'' in
         (listFiles v (if sub \<noteq> '''' then path_Join [fp_dataDir p, sub] else fp_dataDir p) fs, fs))
      else (file_result 404 ''unknown action'' AnyNil, fs))"

section \<open>Lemmas on paths\<close>

declare map_of_eq_Some_iff [simp del]

definition nice :: "string \<Rightarrow> bool" where
  "nice x \<longleftrightarrow> x \<noteq> '''' \<and> x \<noteq> ''.'' \<and> CHR ''/'' \<notin> set x"

definition proper :: "string \<Rightarrow> bool" where
  "proper x \<longleftrightarrow> nice x \<and> x \<noteq> ''..''"

lemma path_split_not_Nil [simp]: "path_split s \<noteq> []"
  by (cases s) (auto split: list.split)

lemma path_split_plain [simp]: "CHR ''/'' \<notin> set x \<Longrightarrow> path_split x = [x]"
  by (induction x) auto

lemma path_split_append: "path_split (a @ CHR ''/'' # b) = path_split a @ path_split b"
  by (induction a) (auto split: list.split)

lemma path_join_Cons: "xs \<noteq> [] \<Longrightarrow> path_join (x # xs) = x @ ''/'' @ path_join xs"
  by (cases xs) simp_all

lemma path_split_join: "xs \<noteq> [] \<Longrightarrow> \<forall>x \<in> set xs. CHR ''/'' \<notin> set x \<Longrightarrow> path_split (path_join xs) = xs"
proof (induction xs)
  case (Cons x xs)
  then show ?case by (cases "xs = []") (simp_all add: path_join_Cons path_split_append)
qed simp

lemma path_join_append: "xs \<noteq> [] \<Longrightarrow> ys \<noteq> [] \<Longrightarrow> path_join (xs @ ys) = path_join xs @ ''/'' @ path_join ys"
proof (induction xs)
  case (Cons x xs)
  then show ?case by (cases "xs = []") (simp_all add: path_join_Cons)
qed simp

lemma path_split_no_slash: "\<forall>x \<in> set (path_split s). CHR ''/'' \<notin> set x"
  by (induction s) (auto split: list.splits)

text \<open>The stack of names while a path is read.\<close>

declare clean_step.simps [simp del]

lemma clean_step_set: "set (clean_step r x st) \<subseteq> insert x (set st)"
  by (cases st) (auto simp: clean_step.simps)

lemma clean_step_push: "proper x \<Longrightarrow> clean_step r x st = x # st"
  by (simp add: clean_step.simps proper_def nice_def)

lemma clean_step_skip: "x = '''' \<or> x = ''.'' \<Longrightarrow> clean_step r x st = st"
  by (simp add: clean_step.simps)

lemma clean_step_up: "clean_step True ''..'' st = (case st of [] \<Rightarrow> [] | y # ys \<Rightarrow> if y = ''..'' then ''..'' # st else ys)"
  by (simp add: clean_step.simps)

lemma name_cases:
  assumes "CHR ''/'' \<notin> set x"
  obtains (skip) "x = '''' \<or> x = ''.''" | (up) "x = ''..''" | (name) "proper x"
  using assms unfolding proper_def nice_def by blast

lemma clean_step_proper:
  assumes "\<forall>y \<in> set st. proper y" "CHR ''/'' \<notin> set x"
  shows "\<forall>y \<in> set (clean_step True x st). proper y"
  using assms(2)
proof (cases rule: name_cases)
  case up
  have "\<not> proper ''..''" by (simp add: proper_def)
  then show ?thesis using assms(1) up by (cases st) (auto simp: clean_step_up)
qed (use assms in \<open>simp_all add: clean_step_skip clean_step_push\<close>)

lemma clean_fold_proper: "\<forall>y \<in> set st. proper y \<Longrightarrow> \<forall>x \<in> set xs. CHR ''/'' \<notin> set x \<Longrightarrow> \<forall>y \<in> set (fold (clean_step True) xs st). proper y"
proof (induction xs arbitrary: st)
  case (Cons x xs)
  then show ?case using clean_step_proper [of st x] by simp
qed simp

lemma clean_fold_push: "\<forall>y \<in> set xs. proper y \<Longrightarrow> fold (clean_step r) xs st = rev xs @ st"
  by (induction xs arbitrary: st) (simp_all add: clean_step_push)

lemma clean_names_proper [simp]: "\<forall>x \<in> set (clean_names True (path_split p)). proper x"
  using clean_fold_proper [of "[]" "path_split p"] path_split_no_slash by (simp add: clean_names_def)

lemma proper_noslash: "\<forall>x \<in> set xs. proper x \<Longrightarrow> \<forall>x \<in> set xs. CHR ''/'' \<notin> set x"
  by (simp add: proper_def nice_def)

text \<open>The absolute form of a path and the names it resolves to.\<close>

lemma IsAbs_split: "IsAbs p \<longleftrightarrow> (\<exists>q. p = CHR ''/'' # q)"
  by (auto simp: IsAbs_def HasPrefix_append)

lemma path_Abs_names:
  assumes "IsAbs cwd"
  shows "\<exists>xs. path_Abs cwd p = ''/'' @ path_join xs \<and> (\<forall>x \<in> set xs. proper x)"
proof (cases "IsAbs p")
  case True
  then show ?thesis by (auto simp: path_Abs_def path_Clean_def Let_def intro!: exI [of _ "clean_names True (path_split p)"])
next
  case False
  obtain q where q: "cwd = CHR ''/'' # q" using assms IsAbs_split by blast
  then have "path_Abs cwd p = path_Clean (cwd @ ''/'' @ p)" "IsAbs (cwd @ ''/'' @ p)" using False by (simp_all add: path_Abs_def path_Join_def IsAbs_split)
  then show ?thesis by (auto simp: path_Clean_def Let_def intro!: exI [of _ "clean_names True (path_split (cwd @ ''/'' @ p))"])
qed

lemma clean_names_abs:
  assumes "\<forall>x \<in> set xs. proper x"
  shows "clean_names True (path_split (''/'' @ path_join xs)) = xs"
proof (cases "xs = []")
  case False
  then have "path_split (path_join xs) = xs" using path_split_join proper_noslash [OF assms] by blast
  then show ?thesis using clean_fold_push [OF assms, of True "[]"] by (simp add: clean_names_def clean_step_skip)
qed (simp add: clean_names_def clean_step_skip)

lemma path_Abs_resolve:
  assumes "IsAbs cwd"
  shows "path_Abs cwd p = ''/'' @ path_join (resolve cwd p)" "\<forall>x \<in> set (resolve cwd p). proper x"
proof -
  obtain xs where xs: "path_Abs cwd p = ''/'' @ path_join xs" "\<forall>x \<in> set xs. proper x" using path_Abs_names [OF assms] by blast
  then show "path_Abs cwd p = ''/'' @ path_join (resolve cwd p)" "\<forall>x \<in> set (resolve cwd p). proper x"
    using clean_names_abs [OF xs(2)] by (simp_all add: resolve_def)
qed

definition below :: "string list \<Rightarrow> string list \<Rightarrow> bool" where
  "below d q \<longleftrightarrow> (\<exists>n ns. q = d @ n # ns)"

text \<open>The check on the texts is the check on the names, except that the root has nothing below it.\<close>

lemma HasPrefix_below:
  assumes "\<forall>x \<in> set d. proper x" "\<forall>x \<in> set q. proper x"
  shows "HasPrefix (''/'' @ path_join q) ((''/'' @ path_join d) @ ''/'') \<longleftrightarrow> d \<noteq> [] \<and> below d q"
proof (cases "d = []")
  case True
  have "path_join q \<noteq> CHR ''/'' # t" for t
  proof
    assume t: "path_join q = CHR ''/'' # t"
    then have "path_split (path_join q) = [] # path_split t" by simp
    moreover have "q \<noteq> []" using t by auto
    ultimately have "q = [] # path_split t" using path_split_join proper_noslash [OF assms(2)] by metis
    then show False using assms(2) by (simp add: proper_def nice_def)
  qed
  then show ?thesis using True by (auto simp: HasPrefix_append)
next
  case False
  have "below d q" if "path_join q = path_join d @ CHR ''/'' # t" for t
  proof -
    have "q \<noteq> []" using that by auto
    then have "q = path_split (path_join q)" using path_split_join proper_noslash [OF assms(2)] by metis
    also have "\<dots> = d @ path_split t" using that path_split_join [OF False proper_noslash [OF assms(1)]] by (simp add: path_split_append)
    finally show ?thesis by (cases "path_split t") (auto simp: below_def)
  qed
  moreover have "path_join q = path_join d @ ''/'' @ path_join (n # ns)" if "q = d @ n # ns" for n ns
    using that path_join_append [OF False, of "n # ns"] by simp
  ultimately show ?thesis using False by (auto simp: HasPrefix_append below_def)
qed

lemma safePath_below:
  assumes "IsAbs (fe_cwd v)"
  shows "safePath v p s = (if resolve (fe_cwd v) (fp_dataDir p) \<noteq> [] \<and>
       below (resolve (fe_cwd v) (fp_dataDir p)) (resolve (fe_cwd v) (path_Join [fp_dataDir p, s]))
     then Inr (path_Join [fp_dataDir p, s]) else Inl (''path traversal detected: '' @ s))"
  unfolding safePath_def Let_def path_Abs_resolve(1) [OF assms]
  using HasPrefix_below [OF path_Abs_resolve(2) [OF assms] path_Abs_resolve(2) [OF assms]] by simp

text \<open>The stack of a relative path is names over a number of steps up; on an absolute stack it means to go up
  that often and then down those names.\<close>

definition up_down :: "string list \<Rightarrow> nat \<Rightarrow> string list" where
  "up_down ys k = ys @ replicate k ''..''"

lemma clean_step_shape:
  assumes "CHR ''/'' \<notin> set x" "\<forall>y \<in> set ys. proper y"
  shows "\<exists>ys' k'. clean_step False x (up_down ys k) = up_down ys' k' \<and> k \<le> k' \<and> (\<forall>y \<in> set ys'. proper y) \<and>
     (\<forall>st. (\<forall>y \<in> set st. proper y) \<longrightarrow> clean_step True x (ys @ drop k st) = ys' @ drop k' st)"
  using assms(1)
proof (cases rule: name_cases)
  case up
  have np: "\<not> proper ''..''" by (simp add: proper_def)
  show ?thesis
  proof (cases ys)
    case Nil
    have "clean_step True ''..'' (drop k st) = drop (Suc k) st" if "\<forall>y \<in> set st. proper y" for st
    proof (cases "drop k st")
      case (Cons y zs)
      then have "proper y" using that by (metis in_set_dropD list.set_intros(1))
      then have "y \<noteq> ''..''" using np by blast
      moreover have "drop (Suc k) st = zs" using Cons by (metis drop_Suc list.sel(3) tl_drop)
      ultimately show ?thesis using Cons by (simp add: clean_step_up)
    qed (simp add: clean_step_up)
    moreover have "clean_step False ''..'' (up_down [] k) = up_down [] (Suc k)"
      by (cases k) (simp_all add: clean_step.simps up_down_def)
    ultimately show ?thesis using up Nil by (intro exI [of _ "[]"] exI [of _ "Suc k"]) simp
  next
    case (Cons y zs)
    then have "y \<noteq> ''..''" using assms(2) np by auto
    then have "clean_step r ''..'' (ys @ t) = zs @ t" for r t using Cons by (simp add: clean_step.simps)
    then show ?thesis using up Cons assms(2) by (intro exI [of _ zs] exI [of _ k]) (simp add: up_down_def)
  qed
next
  case name
  then show ?thesis using assms(2) by (intro exI [of _ "x # ys"] exI [of _ k]) (simp add: up_down_def clean_step_push)
qed (use assms in \<open>auto simp: clean_step_skip\<close>)

lemma clean_fold_shape:
  assumes "\<forall>x \<in> set xs. CHR ''/'' \<notin> set x" "\<forall>y \<in> set ys. proper y"
  shows "\<exists>ys' k'. fold (clean_step False) xs (up_down ys k) = up_down ys' k' \<and> k \<le> k' \<and> (\<forall>y \<in> set ys'. proper y) \<and>
     (\<forall>st. (\<forall>y \<in> set st. proper y) \<longrightarrow> fold (clean_step True) xs (ys @ drop k st) = ys' @ drop k' st)"
  using assms
proof (induction xs arbitrary: ys k)
  case (Cons x xs)
  obtain ys1 k1 where 1: "clean_step False x (up_down ys k) = up_down ys1 k1" "k \<le> k1" "\<forall>y \<in> set ys1. proper y"
    "\<And>st. \<forall>y \<in> set st. proper y \<Longrightarrow> clean_step True x (ys @ drop k st) = ys1 @ drop k1 st"
    using clean_step_shape [of x ys k] Cons.prems by auto
  obtain ys' k' where "fold (clean_step False) xs (up_down ys1 k1) = up_down ys' k'" "k1 \<le> k'" "\<forall>y \<in> set ys'. proper y"
    "\<forall>st. (\<forall>y \<in> set st. proper y) \<longrightarrow> fold (clean_step True) xs (ys1 @ drop k1 st) = ys' @ drop k' st"
    using Cons.IH [of ys1 k1] Cons.prems(1) 1(3) by auto
  then show ?case using 1 by (intro exI [of _ ys'] exI [of _ k']) simp
qed auto

lemma clean_fold_rev:
  assumes "\<forall>y \<in> set ys. proper y" "\<forall>y \<in> set st. proper y"
  shows "fold (clean_step True) (rev (up_down ys k)) st = ys @ drop k st"
proof -
  have "fold (clean_step True) (replicate k ''..'') st = drop k st" using assms(2)
  proof (induction k arbitrary: st)
    case (Suc k)
    then show ?case by (cases st) (auto simp: clean_step_up proper_def)
  qed simp
  then show ?thesis using clean_fold_push [of "rev ys" True] assms(1) by (simp add: up_down_def)
qed

text \<open>Cleaning changes neither what a path resolves to nor whether it is absolute.\<close>

definition start_of :: "string \<Rightarrow> string \<Rightarrow> string list" where
  "start_of cwd p = (if IsAbs p then [] else fold (clean_step True) (path_split cwd) [])"

lemma start_of_proper: "\<forall>y \<in> set (start_of cwd p). proper y"
proof -
  have "\<forall>y \<in> set []. proper y" by simp
  from clean_fold_proper [OF this path_split_no_slash] show ?thesis unfolding start_of_def by (cases "IsAbs p") simp_all
qed

lemma relative_names:
  obtains ys k where "fold (clean_step False) (path_split p) [] = up_down ys k" "\<forall>y \<in> set ys. proper y"
    "\<forall>st. (\<forall>y \<in> set st. proper y) \<longrightarrow> fold (clean_step True) (path_split p) st = ys @ drop k st"
proof -
  have "\<forall>y \<in> set []. proper y" by simp
  from clean_fold_shape [OF path_split_no_slash [of p] this, of 0] show thesis
  proof (elim exE conjE)
    fix ys k
    assume a: "fold (clean_step False) (path_split p) (up_down [] 0) = up_down ys k" "\<forall>y \<in> set ys. proper y"
      "\<forall>st. (\<forall>y \<in> set st. proper y) \<longrightarrow> fold (clean_step True) (path_split p) ([] @ drop 0 st) = ys @ drop k st"
    show thesis by (rule that [of ys k]) (use a in \<open>simp_all add: up_down_def\<close>)
  qed
qed

lemma up_down_names: "\<forall>y \<in> set ys. proper y \<Longrightarrow> x \<in> set (rev (up_down ys k)) \<Longrightarrow> CHR ''/'' \<notin> set x \<and> x \<noteq> ''''"
proof -
  assume a: "\<forall>y \<in> set ys. proper y" and x: "x \<in> set (rev (up_down ys k))"
  from x have "x \<in> set ys \<or> x = ''..''" by (auto simp: up_down_def)
  then show ?thesis
  proof
    assume "x \<in> set ys"
    with a have "proper x" by blast
    then show ?thesis unfolding proper_def nice_def by blast
  qed simp
qed

lemma clean_relative:
  assumes "\<not> IsAbs p" "fold (clean_step False) (path_split p) [] = up_down ys k" "\<forall>y \<in> set ys. proper y"
  shows "path_Clean p = (if up_down ys k = [] then ''.'' else path_join (rev (up_down ys k)))"
    "path_split (path_Clean p) = (if up_down ys k = [] then [''.''] else rev (up_down ys k))" "\<not> IsAbs (path_Clean p)"
proof -
  show c: "path_Clean p = (if up_down ys k = [] then ''.'' else path_join (rev (up_down ys k)))"
    using assms(1,2) by (simp add: path_Clean_def clean_names_def Let_def)
  show s: "path_split (path_Clean p) = (if up_down ys k = [] then [''.''] else rev (up_down ys k))"
  proof (cases "up_down ys k = []")
    case False
    then have "rev (up_down ys k) \<noteq> []" by simp
    then have "path_split (path_join (rev (up_down ys k))) = rev (up_down ys k)"
      by (rule path_split_join) (use up_down_names [OF assms(3)] in blast)
    then show ?thesis unfolding c using False by simp
  qed (simp add: c)
  show "\<not> IsAbs (path_Clean p)"
  proof
    assume "IsAbs (path_Clean p)"
    then obtain q where "path_Clean p = CHR ''/'' # q" by (auto simp: IsAbs_split)
    then have e: "[] # path_split q = path_split (path_Clean p)" by simp
    show False
    proof (cases "up_down ys k = []")
      case False
      then have "[] \<in> set (rev (up_down ys k))" using e s by (metis list.set_intros(1))
      then show False using up_down_names [OF assms(3)] by blast
    qed (use e s in simp)
  qed
qed

lemma Clean_abs [simp]: "IsAbs (path_Clean p) = IsAbs p"
proof (cases "IsAbs p")
  case True
  then show ?thesis by (simp add: path_Clean_def Let_def IsAbs_split)
next
  case False
  show ?thesis by (rule relative_names [of p]) (metis clean_relative(3) [OF False] False)
qed

lemma Clean_fold: "fold (clean_step True) (path_split (path_Clean p)) (start_of cwd p) = fold (clean_step True) (path_split p) (start_of cwd p)"
proof (cases "IsAbs p")
  case True
  then have "path_Clean p = ''/'' @ path_join (clean_names True (path_split p))" by (simp add: path_Clean_def Let_def)
  then have "clean_names True (path_split (path_Clean p)) = clean_names True (path_split p)" using clean_names_abs by simp
  then show ?thesis using True by (simp add: start_of_def clean_names_def)
next
  case False
  obtain ys k where s: "fold (clean_step False) (path_split p) [] = up_down ys k" "\<forall>y \<in> set ys. proper y"
    "\<forall>st. (\<forall>y \<in> set st. proper y) \<longrightarrow> fold (clean_step True) (path_split p) st = ys @ drop k st"
    using relative_names [of p] by blast
  show ?thesis
    using clean_relative(2) [OF False s(1,2)] mp [OF spec [OF s(3)] start_of_proper, of cwd p] clean_fold_rev [OF s(2) start_of_proper, of k cwd p]
    by (cases "up_down ys k = []") (simp_all add: clean_step_skip)
qed

lemma resolve_fold:
  assumes "IsAbs cwd"
  shows "resolve cwd p = rev (fold (clean_step True) (path_split p) (start_of cwd p))"
proof (cases "IsAbs p")
  case True
  then show ?thesis using Clean_fold [of p cwd] by (simp add: resolve_def path_Abs_def clean_names_def start_of_def)
next
  case False
  have "cwd \<noteq> ''''" "IsAbs (cwd @ CHR ''/'' # p)" using assms by (auto simp: IsAbs_split)
  then have "path_Abs cwd p = path_Clean (cwd @ CHR ''/'' # p)" using False by (simp add: path_Abs_def path_Join_def)
  then show ?thesis
    using Clean_fold [of "cwd @ CHR ''/'' # p" cwd] False \<open>IsAbs (cwd @ CHR ''/'' # p)\<close>
    by (simp add: resolve_def clean_names_def start_of_def path_split_append)
qed

lemma start_of_Clean [simp]: "start_of cwd (path_Clean p) = start_of cwd p"
  by (simp add: start_of_def)

lemma resolve_Clean: "IsAbs cwd \<Longrightarrow> resolve cwd (path_Clean p) = resolve cwd p"
  using Clean_fold [of p cwd] by (simp add: resolve_fold)

lemma Join_Clean: "a \<noteq> '''' \<Longrightarrow> path_Join [a, b] = path_Clean (a @ CHR ''/'' # b)"
  by (simp add: path_Join_def)

lemma start_of_append [simp]: "a \<noteq> '''' \<Longrightarrow> start_of cwd (a @ b) = start_of cwd a"
  by (cases a) (simp_all add: start_of_def IsAbs_split)

lemma resolve_Join:
  assumes "IsAbs cwd" "a \<noteq> ''''"
  shows "resolve cwd (path_Join [a, b]) = rev (fold (clean_step True) (path_split b) (rev (resolve cwd a)))"
  unfolding Join_Clean [OF assms(2)] resolve_Clean [OF assms(1)]
  using assms by (simp add: resolve_fold path_split_append)

text \<open>The directory of a path below the data directory.\<close>

lemma Dir_strip:
  assumes "CHR ''/'' \<notin> set n"
  shows "path_Dir (u @ CHR ''/'' # n) = path_Clean (u @ ''/'')" "path_Dir n = path_Clean ''''"
proof -
  have 1: "dropWhile (\<lambda>c. c \<noteq> CHR ''/'') (rev n @ t) = dropWhile (\<lambda>c. c \<noteq> CHR ''/'') t" for t
    using assms by (intro dropWhile_append2) auto
  show "path_Dir (u @ CHR ''/'' # n) = path_Clean (u @ ''/'')" "path_Dir n = path_Clean ''''"
    using 1 [of "CHR ''/'' # rev u"] arg_cong [OF 1 [of "[]"], of "\<lambda>x. path_Clean (rev x)"] by (simp_all add: path_Dir_def del: dropWhile_eq_Nil_conv)
qed

lemma start_of_slash: "start_of cwd (u @ CHR ''/'' # v) = start_of cwd (u @ CHR ''/'' # w)"
  by (cases u) (simp_all add: start_of_def IsAbs_split)

lemma resolve_Dir_slash:
  assumes "IsAbs cwd" "proper n"
  shows "resolve cwd (path_Dir (u @ CHR ''/'' # n)) = butlast (resolve cwd (u @ CHR ''/'' # n))"
proof -
  have n: "CHR ''/'' \<notin> set n" using assms(2) by (simp add: proper_def nice_def)
  have "resolve cwd (path_Dir (u @ CHR ''/'' # n)) = resolve cwd (u @ ''/'')" by (simp only: Dir_strip(1) [OF n] resolve_Clean [OF assms(1)])
  then show ?thesis
    using start_of_slash [of cwd u n "[]"] n assms(2) by (simp add: resolve_fold [OF assms(1)] path_split_append clean_step_skip clean_step_push)
qed

lemma resolve_Dir_name:
  assumes "IsAbs cwd" "proper n"
  shows "resolve cwd (path_Dir n) = butlast (resolve cwd n)"
proof -
  have n: "CHR ''/'' \<notin> set n" using assms(2) by (simp add: proper_def nice_def)
  then have "start_of cwd n = start_of cwd ''''" by (auto simp: start_of_def IsAbs_split)
  moreover have "resolve cwd (path_Dir n) = resolve cwd ''''" by (simp only: Dir_strip(2) [OF n] resolve_Clean [OF assms(1)])
  ultimately show ?thesis using assms(2) n by (simp add: resolve_fold [OF assms(1)] clean_step_skip clean_step_push)
qed

lemma relative_below:
  assumes "IsAbs cwd" "a \<noteq> ''''" "\<not> IsAbs a" "length (resolve cwd a) < length (resolve cwd (path_Join [a, b]))"
  shows "\<exists>ms n. proper n \<and> path_Join [a, b] = path_join (ms @ [n])"
proof -
  have base: "start_of cwd p = start_of cwd ''''" if "\<not> IsAbs p" for p using that by (simp add: start_of_def IsAbs_split)
  have ns: "\<not> IsAbs (a @ CHR ''/'' # b)" using assms(2,3) by (cases a) (auto simp: IsAbs_split)
  obtain ys k where s: "fold (clean_step False) (path_split a) [] = up_down ys k" "\<forall>y \<in> set ys. proper y"
    "\<forall>st. (\<forall>y \<in> set st. proper y) \<longrightarrow> fold (clean_step True) (path_split a) st = ys @ drop k st"
    using relative_names [of a] by blast
  obtain ys' k' where s': "fold (clean_step False) (path_split b) (up_down ys k) = up_down ys' k'" "k \<le> k'" "\<forall>y \<in> set ys'. proper y"
    "\<forall>st. (\<forall>y \<in> set st. proper y) \<longrightarrow> fold (clean_step True) (path_split b) (ys @ drop k st) = ys' @ drop k' st"
    using clean_fold_shape [OF path_split_no_slash s(2)] by blast
  have p: "\<forall>y \<in> set (start_of cwd ''''). proper y" by (rule start_of_proper)
  have A: "resolve cwd a = rev (ys @ drop k (start_of cwd ''''))"
    using mp [OF spec [OF s(3)] p] by (simp add: resolve_fold [OF assms(1)] base [OF assms(3)])
  have "resolve cwd (path_Join [a, b]) = rev (ys' @ drop k' (start_of cwd ''''))"
    using mp [OF spec [OF s'(4)] p] by (simp add: resolve_Join [OF assms(1,2)] A)
  then have "length (ys @ drop k (start_of cwd '''')) < length (ys' @ drop k' (start_of cwd ''''))"
    using assms(4) A by (simp del: append_Nil)
  then have "ys' \<noteq> []" using s'(2) by auto
  then obtain n zs where ys': "ys' = n # zs" by (cases ys') auto
  have fa: "fold (clean_step False) (path_split (a @ CHR ''/'' # b)) [] = up_down ys' k'"
    using s(1) s'(1) by (simp add: path_split_append)
  have "up_down ys' k' \<noteq> []" "rev (up_down ys' k') = rev (up_down zs k') @ [n]" by (simp_all add: ys' up_down_def)
  then have "path_Join [a, b] = path_join (rev (up_down zs k') @ [n])"
    using clean_relative(1) [OF ns fa s'(3)] by (simp add: Join_Clean [OF assms(2)])
  then show ?thesis using s'(3) ys' by auto
qed

lemma resolve_Dir:
  assumes "IsAbs cwd" "a \<noteq> ''''" "below (resolve cwd a) (resolve cwd (path_Join [a, b]))"
  shows "resolve cwd (path_Dir (path_Join [a, b])) = butlast (resolve cwd (path_Join [a, b]))"
proof (cases "IsAbs a")
  case True
  let ?z = "a @ CHR ''/'' # b"
  have z: "IsAbs ?z" using True by (auto simp: IsAbs_split)
  define names where "names = clean_names True (path_split ?z)"
  have full: "path_Join [a, b] = ''/'' @ path_join names" using z by (simp add: Join_Clean [OF assms(2)] path_Clean_def names_def Let_def)
  have pr: "\<forall>x \<in> set names. proper x" by (simp add: names_def)
  have "IsAbs (path_Join [a, b])" by (simp add: full IsAbs_split)
  then have "resolve cwd (path_Join [a, b]) = names"
    using clean_names_abs [OF pr] by (simp add: resolve_fold [OF assms(1)] start_of_def clean_names_def full)
  then have "names \<noteq> []" using assms(3) by (auto simp: below_def)
  then obtain ms n where n: "names = ms @ [n]" by (metis rev_exhaust)
  have "\<exists>u. path_Join [a, b] = u @ CHR ''/'' # n"
  proof (cases "ms = []")
    case True
    then show ?thesis using full n by (intro exI [of _ "''''"]) simp
  next
    case False
    then show ?thesis using full n path_join_append [OF False, of "[n]"] by (intro exI [of _ "''/'' @ path_join ms"]) simp
  qed
  then show ?thesis using resolve_Dir_slash [OF assms(1)] pr n by auto
next
  case False
  have "length (resolve cwd a) < length (resolve cwd (path_Join [a, b]))" using assms(3) by (auto simp: below_def)
  then obtain ms n where n: "proper n" "path_Join [a, b] = path_join (ms @ [n])" using relative_below [OF assms(1,2) False] by blast
  show ?thesis
  proof (cases "ms = []")
    case True
    then show ?thesis using resolve_Dir_name [OF assms(1) n(1)] n(2) by simp
  next
    case False
    then show ?thesis using resolve_Dir_slash [OF assms(1) n(1), of "path_join ms"] n(2) path_join_append [OF False, of "[n]"] by simp
  qed
qed

section \<open>Properties\<close>

definition confined :: "string list \<Rightarrow> FileSystem \<Rightarrow> FileSystem \<Rightarrow> bool" where
  "confined d fs fs' \<longleftrightarrow> (\<forall>q. \<not> below d q \<longrightarrow> mget (fs_files fs') q = mget (fs_files fs) q) \<and>
     (\<forall>q. is_dir fs q \<noteq> is_dir fs' q \<longrightarrow> below d q \<or> (\<exists>n. q = take n d) \<and> is_dir fs' q)"

lemma confined_refl [simp]: "confined d fs fs"
  by (simp add: confined_def)

lemma confined_trans: "confined d fs fs1 \<Longrightarrow> confined d fs1 fs2 \<Longrightarrow> confined d fs fs2"
  unfolding confined_def by metis

lemma confined_file:
  assumes "below d q" "fs_files fs' = mput (fs_files fs) q bs \<or> fs_files fs' = mdel (fs_files fs) q \<or> fs_files fs' = fs_files fs" "fs_dirs fs' = fs_dirs fs"
  shows "confined d fs fs'"
  using assms by (auto simp: confined_def is_dir_def)

lemma below_take: "below d q \<Longrightarrow> below d (take n q) \<or> (\<exists>m. take n q = take m d)"
proof -
  assume "below d q"
  then obtain x xs where q: "q = d @ x # xs" by (auto simp: below_def)
  show ?thesis
  proof (cases "n \<le> length d")
    case True
    then show ?thesis using q by auto
  next
    case False
    then have "take n q = d @ take (n - length d) (x # xs)" "take (n - length d) (x # xs) \<noteq> []" using q by simp_all
    then show ?thesis by (cases "take (n - length d) (x # xs)") (auto simp: below_def)
  qed
qed

lemma confined_dirs:
  assumes "fs_files fs' = fs_files fs" "set (fs_dirs fs') = set (fs_dirs fs) \<union> A" "\<And>q. q \<in> A \<Longrightarrow> below d q \<or> (\<exists>n. q = take n d)"
  shows "confined d fs fs'"
  unfolding confined_def is_dir_def assms(1,2) using assms(3) by blast

lemma confined_MkdirAll:
  assumes "below d q"
  shows "confined d fs (snd (os_MkdirAll fault (butlast q) fs))"
proof -
  define parts where "parts = map (\<lambda>n. take (Suc n) (butlast q)) [0..<length (butlast q)]"
  have e: "snd (os_MkdirAll fault (butlast q) fs) = fs \<or>
      snd (os_MkdirAll fault (butlast q) fs) = fs\<lparr>fs_dirs := fs_dirs fs @ filter (\<lambda>q. q \<notin> set (fs_dirs fs)) parts\<rparr>"
    by (simp add: os_MkdirAll_def parts_def Let_def split: option.split)
  have "confined d fs (fs\<lparr>fs_dirs := fs_dirs fs @ filter (\<lambda>q. q \<notin> set (fs_dirs fs)) parts\<rparr>)"
  proof (rule confined_dirs [where A = "set parts"])
    fix x assume "x \<in> set parts"
    then obtain n where "x = take (Suc n) (butlast q)" by (auto simp: parts_def)
    then have "x = take (min (Suc n) (length q - 1)) q" by (simp add: butlast_conv_take)
    then show "below d x \<or> (\<exists>n. x = take n d)" using below_take [OF assms] by simp
  qed auto
  then show ?thesis using e by (elim disjE) simp_all
qed

lemma confined_put: "below d q \<Longrightarrow> confined d fs (fs\<lparr>fs_files := mput (fs_files fs) q bs\<rparr>)"
  by (rule confined_file [where q = q and bs = bs]) simp_all

lemma confined_Create: "below d q \<Longrightarrow> confined d fs (snd (os_Create fault q fs))"
  by (auto simp: os_Create_def confined_put split: option.split)

lemma confined_Copy: "below d q \<Longrightarrow> confined d fs (snd (io_Copy_file v q r fs))"
  by (auto simp: io_Copy_file_def confined_put split: option.split)

lemma confined_Remove: "below d q \<Longrightarrow> confined d fs (snd (os_Remove fault q fs))"
  by (auto simp: os_Remove_def confined_def is_dir_def split: option.split)

lemma confined_write_below:
  assumes "IsAbs (fe_cwd v)" "fp_dataDir p \<noteq> ''''" "safePath v p s = Inr full"
  shows "confined (resolve (fe_cwd v) (fp_dataDir p)) fs (snd (write_below v full r fs))"
proof -
  let ?d = "resolve (fe_cwd v) (fp_dataDir p)"
  let ?q = "resolve (fe_cwd v) full"
  have q: "below ?d ?q" "full = path_Join [fp_dataDir p, s]" using assms(3) by (auto simp: safePath_below [OF assms(1)] split: if_splits)
  then have d: "resolve (fe_cwd v) (path_Dir full) = butlast ?q" using resolve_Dir [OF assms(1,2)] by simp
  obtain e1 fs1 where 1: "os_MkdirAll (fe_mkdir v) (butlast ?q) fs = (e1, fs1)" by fastforce
  obtain e2 fs2 where 2: "os_Create (fe_create v) ?q fs1 = (e2, fs2)" by fastforce
  have c1: "confined ?d fs fs1" using confined_MkdirAll [OF q(1), of fs "fe_mkdir v"] 1 by simp
  have c2: "confined ?d fs fs2" using confined_trans [OF c1] confined_Create [OF q(1), of fs1 "fe_create v"] 2 by simp
  have "confined ?d fs (snd (io_Copy_file v ?q r fs2))" by (rule confined_trans [OF c2 confined_Copy [OF q(1)]])
  then show ?thesis using c1 c2 by (simp add: write_below_def d 1 2 split: option.split)
qed

lemma confined_ops:
  assumes "IsAbs (fe_cwd v)" "fp_dataDir p \<noteq> ''''"
  shows "confined (resolve (fe_cwd v) (fp_dataDir p)) fs (snd (SaveFile v p path r fs))"
    "confined (resolve (fe_cwd v) (fp_dataDir p)) fs (snd (file_WriteFile v p path data fs))"
    "confined (resolve (fe_cwd v) (fp_dataDir p)) fs (snd (DeleteFile v p path fs))"
proof -
  show "confined (resolve (fe_cwd v) (fp_dataDir p)) fs (snd (SaveFile v p path r fs))"
    "confined (resolve (fe_cwd v) (fp_dataDir p)) fs (snd (file_WriteFile v p path data fs))"
    using confined_write_below [OF assms] by (simp_all add: SaveFile_def file_WriteFile_def split: sum.split)
  show "confined (resolve (fe_cwd v) (fp_dataDir p)) fs (snd (DeleteFile v p path fs))"
    using confined_Remove safePath_below [OF assms(1), of p path] by (simp add: DeleteFile_def split: sum.split)
qed

text \<open>C11. Nothing the file plugin is asked to store or delete touches a file outside its data directory: whatever
  names, identifiers and contents a request carries, the files that change and the directories that come or
  go are below the data directory, or are on the way to it.\<close>

theorem file_writes_confined:
  assumes "IsAbs (fe_cwd v)" and "fp_dataDir p \<noteq> ''''"
  shows "confined (resolve (fe_cwd v) (fp_dataDir p)) fs (snd (file_handleAction v p ctx fs)) \<and>
     confined (resolve (fe_cwd v) (fp_dataDir p)) fs (snd (file_WriteFile v p path data fs)) \<and>
     confined (resolve (fe_cwd v) (fp_dataDir p)) fs (snd (DeleteFile v p path fs))"
proof -
  let ?d = "resolve (fe_cwd v) (fp_dataDir p)"
  have "confined ?d fs (snd (handlePush v p ctx fs))"
    using confined_ops(1) [OF assms] by (auto simp: handlePush_def Let_def split: option.split prod.split) (metis snd_conv)+
  then show ?thesis using confined_ops [OF assms] by (simp add: file_handleAction_def Let_def)
qed

definition sample_files :: FileSystem where
  "sample_files = \<lparr>fs_files = [([''srv'', ''secret''], [1, 2])], fs_dirs = [[''srv'']]\<rparr>"

definition sample_file_env :: file_env where
  "sample_file_env = \<lparr>fe_cwd = ''/srv'', fe_mkdir = None, fe_create = None, fe_writeErr = None, fe_open = None, fe_remove = None,
     fe_readDir = (\<lambda>_. None), fe_size = (\<lambda>_. 4096), fe_modTime = (\<lambda>_. ''''), fe_infoErr = (\<lambda>_. False)\<rparr>"

definition push_request :: "string \<Rightarrow> string \<Rightarrow> byte list \<Rightarrow> FileContext" where
  "push_request c name bs = \<lparr>ac_Action = ''file.push'', ac_Params = [(''client_id'', AnyStr c), (''filename'', AnyStr name)],
     fc_file = Some \<lparr>rd_bytes = bs, rd_err = None\<rparr>\<rparr>"

definition pull_request :: "string \<Rightarrow> FileContext" where
  "pull_request path = \<lparr>ac_Action = ''file.pull'', ac_Params = [(''path'', AnyStr path)], fc_file = None\<rparr>"

theorem file_writes_confined_witness:
  "mget (fs_files (snd (file_handleAction sample_file_env (file_Init []) (push_request ''..'' ''../secret'' [9]) sample_files))) [''srv'', ''secret''] = Some [1, 2]"
proof -
  have a: "IsAbs (fe_cwd sample_file_env)" "fp_dataDir (file_Init []) \<noteq> ''''"
    by (simp_all add: sample_file_env_def IsAbs_def HasPrefix_def file_Init_def str_or_def get_str_def)
  have d: "resolve (fe_cwd sample_file_env) (fp_dataDir (file_Init [])) = [''srv'', ''data'']" by code_simp
  have n: "\<not> below [''srv'', ''data''] [''srv'', ''secret'']" by (simp add: below_def)
  have "mget (fs_files sample_files) [''srv'', ''secret''] = Some [1, 2]" by (simp add: sample_files_def)
  then show ?thesis
    using conjunct1 [OF file_writes_confined [OF a], of sample_files "push_request ''..'' ''../secret'' [9]"] n by (simp add: confined_def d)
qed

lemma path_Clean_nonempty: "path_Clean p \<noteq> ''''"
proof (cases "IsAbs p")
  case True
  then show ?thesis by (simp add: path_Clean_def Let_def)
next
  case False
  obtain ys k where s: "fold (clean_step False) (path_split p) [] = up_down ys k" "\<forall>y \<in> set ys. proper y"
    by (rule relative_names [of p])
  note c = clean_relative(2) [OF False s]
  show ?thesis
  proof
    assume "path_Clean p = ''''"
    then have e: "[[]] = (if up_down ys k = [] then [''.''] else rev (up_down ys k))" unfolding c [symmetric] by simp
    then have "[] \<in> set (rev (up_down ys k))" by (cases "up_down ys k = []") (simp, metis list.set_intros(1))
    then show False using up_down_names [OF s(2)] by blast
  qed
qed

lemma path_Join_nonempty: "x \<noteq> '''' \<Longrightarrow> path_Join (x # xs) \<noteq> ''''"
  by (simp add: path_Join_def path_Clean_nonempty)

lemma SaveFile_success:
  assumes "SaveFile v p path r fs = (None, fs')"
  shows "safePath v p path = Inr (path_Join [fp_dataDir p, path]) \<and>
     mget (fs_files fs') (resolve (fe_cwd v) (path_Join [fp_dataDir p, path])) = Some (rd_bytes r)"
proof -
  obtain full where f: "safePath v p path = Inr full" "write_below v full r fs = (None, fs')"
    using assms by (cases "safePath v p path") (simp_all add: SaveFile_def)
  have "full = path_Join [fp_dataDir p, path]" using f(1) by (simp add: safePath_def Let_def split: if_splits)
  moreover have "mget (fs_files fs') (resolve (fe_cwd v) full) = Some (rd_bytes r)"
    using f(2) by (auto simp: write_below_def io_Copy_file_def split: prod.splits option.splits)
  ultimately show ?thesis using f(1) by simp
qed

lemma get_str_single [simp]: "str_or d [(k, AnyStr x)] k = x"
  by (simp add: str_or_def get_str_def)

text \<open>C1. A file that was uploaded can be downloaded: the path an accepted upload answers with is one that a
  download takes, and what it returns is exactly what was uploaded; and that path is below the data directory.\<close>

theorem file_push_pull:
  assumes "IsAbs (fe_cwd v)" and "handlePush v p ctx fs = (res, fs')" and "ar_Code res = 200" and "fc_file ctx = Some r" and "fe_open v = None"
  shows "\<exists>path. ar_Data res = AnyMap [(''filename'', AnyStr (str_or '''' (ac_Params ctx) ''filename'')), (''path'', AnyStr path)] \<and>
     below (resolve (fe_cwd v) (fp_dataDir p)) (resolve (fe_cwd v) (path_Join [fp_dataDir p, path])) \<and>
     handlePull v p (pull_request path) fs' =
       \<lparr>ar_Code = 200, ar_Msg = '''', ar_Data = AnyNil, fr_Body = Some (OpenFile (rd_bytes r)), fr_BodyName = path_Base path,
        fr_BodySize = int (length (rd_bytes r))\<rparr>"
proof -
  define name where "name = str_or '''' (ac_Params ctx) ''filename''"
  define c where "c = str_or '''' (ac_Params ctx) ''client_id''"
  define ty where "ty = str_or '''' (ac_Params ctx) ''type''"
  define path where "path = (if c \<noteq> '''' then (if ty \<noteq> '''' then path_Join [c, ty @ ''s'', name] else path_Join [c, name]) else name)"
  have n: "name \<noteq> ''''" using assms(2,3) by (auto simp: handlePush_def Let_def name_def file_result_def)
  then have ne: "path \<noteq> ''''" by (simp add: path_def path_Join_nonempty)
  have h: "handlePush v p ctx fs = (case SaveFile v p path r fs of
        (Some e, fs1) \<Rightarrow> (file_result 500 (''failed to save file: '' @ e) AnyNil, fs1)
      | (None, fs1) \<Rightarrow> (file_result 200 ''file uploaded successfully'' (AnyMap [(''filename'', AnyStr name), (''path'', AnyStr path)]), fs1))"
    using n unfolding handlePush_def Let_def name_def [symmetric] c_def [symmetric] ty_def [symmetric] assms(4) path_def [symmetric] by simp
  then have ok: "SaveFile v p path r fs = (None, fs')" "ar_Data res = AnyMap [(''filename'', AnyStr name), (''path'', AnyStr path)]"
    using assms(2,3) by (auto simp: file_result_def split: prod.splits option.splits)
  note s = SaveFile_success [OF ok(1)]
  have b: "below (resolve (fe_cwd v) (fp_dataDir p)) (resolve (fe_cwd v) (path_Join [fp_dataDir p, path]))"
    using s safePath_below [OF assms(1), of p path] by (simp split: if_splits)
  have "handlePull v p (pull_request path) fs' =
       \<lparr>ar_Code = 200, ar_Msg = '''', ar_Data = AnyNil, fr_Body = Some (OpenFile (rd_bytes r)), fr_BodyName = path_Base path,
        fr_BodySize = int (length (rd_bytes r))\<rparr>"
    using s ne assms(5) by (simp add: handlePull_def pull_request_def os_Open_def)
  then show ?thesis using ok(2) b by (auto simp: name_def)
qed

theorem file_push_pull_witness:
  "fr_Body (handlePull sample_file_env (file_Init []) (pull_request ''c/f'') (snd (handlePush sample_file_env (file_Init []) (push_request ''c'' ''f'' [7, 8]) sample_files))) =
     Some (OpenFile [7, 8])"
proof -
  let ?x = "handlePush sample_file_env (file_Init []) (push_request ''c'' ''f'' [7, 8]) sample_files"
  have "ar_Code (fst ?x) = 200" "ar_Data (fst ?x) = AnyMap [(''filename'', AnyStr ''f''), (''path'', AnyStr ''c/f'')]" by code_simp+
  moreover have "IsAbs (fe_cwd sample_file_env)" by (simp add: sample_file_env_def IsAbs_def HasPrefix_def)
  ultimately show ?thesis
    using file_push_pull [of sample_file_env "file_Init []" "push_request ''c'' ''f'' [7, 8]" sample_files "fst ?x" "snd ?x" "\<lparr>rd_bytes = [7, 8], rd_err = None\<rparr>"]
    by (auto simp: push_request_def sample_file_env_def)
qed

text \<open>Downloads are not checked like uploads: every file the server process can read, wherever it is, has a
  path under which a download returns it.\<close>

theorem pull_reads_any_file:
  assumes "IsAbs (fe_cwd v)" and "fp_dataDir p \<noteq> ''''" and "\<forall>x \<in> set q. proper x" and "q \<noteq> []" and "mget (fs_files fs) q = Some bs" and "fe_open v = None"
  shows "\<exists>path. fr_Body (fst (file_handleAction v p (pull_request path) fs)) = Some (OpenFile bs)"
proof -
  let ?d = "resolve (fe_cwd v) (fp_dataDir p)"
  let ?names = "replicate (length ?d) ''..'' @ q"
  have "proper x \<or> x = ''..''" if "x \<in> set ?names" for x using assms(3) that by auto
  then have "\<forall>x \<in> set ?names. CHR ''/'' \<notin> set x" by (fastforce simp: proper_def nice_def)
  then have "path_split (path_join ?names) = ?names" using path_split_join [of ?names] assms(4) by blast
  moreover have "fold (clean_step True) (replicate (length ?d) ''..'') (rev ?d) = []"
    using clean_fold_rev [of "[]" "rev ?d" "length ?d"] path_Abs_resolve(2) [OF assms(1)] by (simp add: up_down_def)
  ultimately have r: "resolve (fe_cwd v) (path_Join [fp_dataDir p, path_join ?names]) = q"
    using clean_fold_push [OF assms(3), of True "[]"] by (simp add: resolve_Join [OF assms(1,2)])
  have "path_join ?names \<noteq> ''''"
  proof
    assume "path_join ?names = ''''"
    then have "?names = [[]]" using \<open>path_split (path_join ?names) = ?names\<close> by simp
    then show False using assms(3,4) by (cases ?d) (auto simp: proper_def nice_def append_eq_Cons_conv)
  qed
  then have "fr_Body (fst (file_handleAction v p (pull_request (path_join ?names)) fs)) = Some (OpenFile bs)"
    using r assms(5,6) by (simp add: file_handleAction_def handlePull_def os_Open_def pull_request_def)
  then show ?thesis by blast
qed

theorem pull_reads_any_file_witness:
  "\<exists>path. fr_Body (fst (file_handleAction sample_file_env (file_Init []) (pull_request path) sample_files)) = Some (OpenFile [1, 2])"
  by (rule pull_reads_any_file [where q = "[''srv'', ''secret'']"])
    (simp_all add: sample_file_env_def sample_files_def IsAbs_def HasPrefix_def file_Init_def str_or_def get_str_def proper_def nice_def)

text \<open>The plugin and the registry of the clients are given the same data directory, so the key of the
  certificate authority is one of the plugin's files.\<close>

theorem pull_reads_ca_key:
  assumes "IsAbs (fe_cwd v)" and "fp_dataDir p \<noteq> ''''" and "fe_open v = None"
    and "mget (fs_files fs) (resolve (fe_cwd v) (path_Join [fp_dataDir p, ''ca.key''])) = Some key"
  shows "fr_Body (fst (file_handleAction v p (pull_request ''ca.key'') fs)) = Some (OpenFile key)"
  using assms by (simp add: file_handleAction_def handlePull_def os_Open_def pull_request_def)

end
