(* ===== verification/Client_Handler.thy ===== *)
theory Client_Handler
  imports File_Plugin
begin

text \<open>
  \<open>BBgrid_Client/handler\<close>: how the agent on a client answers the messages of the server. \<open>handler.go\<close> keeps
  the proxies it was told of and the contexts of their tunnels, opens a connection to the server for every
  tunnel request, and receives updates of the program; \<open>relay.go\<close> keeps the relay sessions; \<open>temp.go\<close> is the
  handler of temporary clients.

  A context is an index into the list of the contexts ever made, with the flag that says it was cancelled;
  all of them end with the base context. A goroutine that carries a tunnel is a task, or a dial when it is
  started for one request; what it does on its sockets is not modelled, only how it ends. The sender is the
  list of the messages it took. \<open>parse\<close> is the JSON parser on texts. The script that restarts the program is
  the one for Unix.
\<close>

section \<open>Message data\<close>

text \<open>The decimal text of an integral \<open>float64\<close>: beyond 53 bits the shortest one that is read back as the same
  number, with zeros behind it.\<close>

fun shortest_decimal :: "nat \<Rightarrow> nat \<Rightarrow> nat" where
  "shortest_decimal v 0 = v"
| "shortest_decimal v (Suc k) =
     (let c = (v + 5 * 10 ^ k) div 10 ^ Suc k * 10 ^ Suc k in
      if f64_trunc (f64_of_int (int c)) = int v then c else shortest_decimal v k)"

definition f64_integral :: "float64 \<Rightarrow> bool" where
  "f64_integral f \<longleftrightarrow> 0 \<le> fexp f \<or> 2 ^ nat (- fexp f) dvd fmant f"

definition decimal_of_f64 :: "float64 \<Rightarrow> int" where
  "decimal_of_f64 f = (let v = f64_trunc f in if \<bar>v\<bar> \<le> 2 ^ 53 then v else sgn v * int (shortest_decimal (nat \<bar>v\<bar>) 21))"

text \<open>The number a float is once it has been written: below \<open>10 ^ 21\<close> an integral one has no fraction and no
  exponent, so an \<open>int\<close> field takes it.\<close>

definition number_text :: "json \<Rightarrow> json" where
  "number_text j = (case j of JFloat f \<Rightarrow> (if f64_integral f \<and> \<bar>f64_trunc f\<bar> < 10 ^ 21 then JInt (decimal_of_f64 f) else j) | _ \<Rightarrow> j)"

definition json_object :: "json \<Rightarrow> (string \<times> json) list option" where
  "json_object j = (case j of JObj m \<Rightarrow> Some m | JNull \<Rightarrow> Some [] | _ \<Rightarrow> None)"

definition unmarshalData :: "(string \<Rightarrow> json option) \<Rightarrow> any \<Rightarrow> (string \<times> json) list option" where
  "unmarshalData parse data =
     (case data of AnyStr v \<Rightarrow> Option.bind (parse v) json_object
      | _ \<Rightarrow> map_option (map (map_prod id number_text)) (json_object (marshal data)))"

record CommandData =
  cd_RequestID :: string
  cd_RemotePort :: int
  cd_LocalPort :: int
  cd_Protocol :: string
  cd_BindAddr :: string
  cd_Command :: string
  cd_ServerHost :: string
  cd_TunnelPort :: int
  cd_Token :: string
  cd_LocalIP :: string

definition read_CommandData :: "(string \<times> json) list \<Rightarrow> CommandData option" where
  "read_CommandData m = do {
     requestID \<leftarrow> bind_str m ''request_id''; remotePort \<leftarrow> bind_int m ''remote_port''; localPort \<leftarrow> bind_int m ''local_port'';
     protocol \<leftarrow> bind_str m ''protocol''; bindAddr \<leftarrow> bind_str m ''bind_addr''; command \<leftarrow> bind_str m ''command'';
     serverHost \<leftarrow> bind_str m ''server_host''; tunnelPort \<leftarrow> bind_int m ''tunnel_port''; token \<leftarrow> bind_str m ''token'';
     localIP \<leftarrow> bind_str m ''local_ip'';
     Some \<lparr>cd_RequestID = requestID, cd_RemotePort = remotePort, cd_LocalPort = localPort, cd_Protocol = protocol, cd_BindAddr = bindAddr,
       cd_Command = command, cd_ServerHost = serverHost, cd_TunnelPort = tunnelPort, cd_Token = token, cd_LocalIP = localIP\<rparr> }"

text \<open>\<open>net.JoinHostPort\<close>.\<close>

definition JoinHostPort :: "string \<Rightarrow> string \<Rightarrow> string" where
  "JoinHostPort host port = (if CHR '':'' \<in> set host then ''['' @ host @ '']:'' @ port else host @ '':'' @ port)"

section \<open>State\<close>

datatype tunnel_task =
    TaskWS string nat string string int string
  | TaskUDP string nat string int string int string
  | TaskOutbound string nat string string string

fun task_key :: "tunnel_task \<Rightarrow> string" where
  "task_key (TaskWS key _ _ _ _ _) = key"
| "task_key (TaskUDP key _ _ _ _ _ _) = key"
| "task_key (TaskOutbound key _ _ _ _) = key"

fun task_ctx :: "tunnel_task \<Rightarrow> nat" where
  "task_ctx (TaskWS _ c _ _ _ _) = c"
| "task_ctx (TaskUDP _ c _ _ _ _ _) = c"
| "task_ctx (TaskOutbound _ c _ _ _) = c"

record Dial =
  di_ctx :: "nat option"
  di_tunnelAddr :: string
  di_localAddr :: string
  di_token :: string

record UpdateState =
  up_data :: "byte list"
  up_MD5 :: string
  up_size :: int
  up_chunksN :: int

record ClientHandler =
  hd_ClientID :: string
  hd_sender :: "WSMessage list option"
  hd_baseDone :: bool
  hd_ctxs :: "bool list"
  hd_tunnelCtxs :: "(string, nat) gomap"
  hd_proxyInfo :: "(string, CommandData) gomap"
  hd_tunnelContexts :: "(string, nat) gomap"
  hd_tasks :: "tunnel_task list"
  hd_dials :: "Dial list"
  hd_update :: UpdateState
  hd_files :: "(string, byte list) gomap"
  hd_exited :: bool

definition handler_New :: "string \<Rightarrow> ClientHandler" where
  "handler_New clientID = \<lparr>hd_ClientID = clientID, hd_sender = None, hd_baseDone = False, hd_ctxs = [], hd_tunnelCtxs = [], hd_proxyInfo = [],
     hd_tunnelContexts = [], hd_tasks = [], hd_dials = [], hd_update = \<lparr>up_data = [], up_MD5 = '''', up_size = 0, up_chunksN = 0\<rparr>,
     hd_files = [], hd_exited = False\<rparr>"

definition SetSender :: "ClientHandler \<Rightarrow> ClientHandler" where
  "SetSender h = h\<lparr>hd_sender := Some []\<rparr>"

definition handler_send :: "WSMessage \<Rightarrow> ClientHandler \<Rightarrow> ClientHandler" where
  "handler_send msg h = h\<lparr>hd_sender := map_option (\<lambda>ms. ms @ [msg]) (hd_sender h)\<rparr>"

definition ctx_live :: "ClientHandler \<Rightarrow> nat \<Rightarrow> bool" where
  "ctx_live h c \<longleftrightarrow> \<not> hd_baseDone h \<and> c < length (hd_ctxs h) \<and> \<not> hd_ctxs h ! c"

definition cancel_ctx :: "nat \<Rightarrow> ClientHandler \<Rightarrow> ClientHandler" where
  "cancel_ctx c h = h\<lparr>hd_ctxs := (hd_ctxs h)[c := True]\<rparr>"

section \<open>Tunnels\<close>

text \<open>\<open>context.WithCancel\<close> followed by \<open>registerTunnel\<close>: the new context is the last one.\<close>

definition registerTunnel :: "string \<Rightarrow> nat \<Rightarrow> ClientHandler \<Rightarrow> ClientHandler" where
  "registerTunnel key c h = h\<lparr>hd_tunnelCtxs := mput (hd_tunnelCtxs h) key c\<rparr>"

definition new_tunnel :: "string \<Rightarrow> ClientHandler \<Rightarrow> nat \<times> ClientHandler" where
  "new_tunnel key h = (let c = length (hd_ctxs h) in (c, registerTunnel key c (h\<lparr>hd_ctxs := hd_ctxs h @ [False]\<rparr>)))"

definition stopTunnel :: "string \<Rightarrow> ClientHandler \<Rightarrow> ClientHandler" where
  "stopTunnel key h =
     (case mget (hd_tunnelCtxs h) key of
        None \<Rightarrow> h
      | Some c \<Rightarrow> (cancel_ctx c h)\<lparr>hd_tunnelCtxs := mdel (hd_tunnelCtxs h) key\<rparr>)"

definition start_task :: "tunnel_task \<Rightarrow> ClientHandler \<Rightarrow> ClientHandler" where
  "start_task t h = h\<lparr>hd_tasks := hd_tasks h @ [t]\<rparr>"

definition client_handleProxy :: "(string \<Rightarrow> json option) \<Rightarrow> any \<Rightarrow> ClientHandler \<Rightarrow> ClientHandler" where
  "client_handleProxy parse data h =
     (case Option.bind (unmarshalData parse data) read_CommandData of
        None \<Rightarrow> h
      | Some cmd0 \<Rightarrow>
          let cmd = cmd0\<lparr>cd_LocalIP := or_default ''127.0.0.1'' (cd_LocalIP cmd0)\<rparr>;
              key = hd_ClientID h @ ''-'' @ fmt_int (cd_RemotePort cmd);
              (c, h1) = new_tunnel key h in
          if cd_Protocol cmd = ''websocket'' then
            start_task (TaskWS key c (cd_ServerHost cmd) (cd_Token cmd) (cd_LocalPort cmd) (cd_LocalIP cmd)) h1
          else if cd_Protocol cmd = ''udp'' then
            start_task (TaskUDP key c (cd_ServerHost cmd) (cd_RemotePort cmd) (cd_Token cmd) (cd_LocalPort cmd) (cd_LocalIP cmd)) h1
          else h1\<lparr>hd_proxyInfo := mput (hd_proxyInfo h1) key cmd, hd_tunnelContexts := mput (hd_tunnelContexts h1) key c\<rparr>)"

definition client_handleProxyClosed :: "(string \<Rightarrow> json option) \<Rightarrow> any \<Rightarrow> ClientHandler \<Rightarrow> ClientHandler" where
  "client_handleProxyClosed parse data h =
     (case Option.bind (unmarshalData parse data) (\<lambda>m. bind_str m ''key'') of
        None \<Rightarrow> h
      | Some key \<Rightarrow>
          let h1 = stopTunnel key h;
              h2 = h1\<lparr>hd_proxyInfo := mdel (hd_proxyInfo h1) key, hd_tunnelContexts := mdel (hd_tunnelContexts h1) key\<rparr> in
          handler_send \<lparr>ws_Type = ''proxy_close_ack'', ws_Data = AnyStr key\<rparr> h2)"

definition read_outbound :: "(string \<times> json) list \<Rightarrow> (string \<times> int \<times> string \<times> int) option" where
  "read_outbound m = do {
     serverHost \<leftarrow> bind_str m ''server_host''; tunnelPort \<leftarrow> bind_int m ''tunnel_port'';
     token \<leftarrow> bind_str m ''token''; localPort \<leftarrow> bind_int m ''local_port'';
     Some (serverHost, tunnelPort, token, localPort) }"

definition client_handleProxyOutbound :: "(string \<Rightarrow> json option) \<Rightarrow> any \<Rightarrow> ClientHandler \<Rightarrow> ClientHandler" where
  "client_handleProxyOutbound parse data h =
     (case Option.bind (unmarshalData parse data) read_outbound of
        None \<Rightarrow> h
      | Some (serverHost, tunnelPort, token, localPort) \<Rightarrow>
          let tunnelAddr = JoinHostPort serverHost (fmt_int tunnelPort);
              localAddr = JoinHostPort ''127.0.0.1'' (fmt_int localPort);
              key = ''outbound-'' @ fmt_int localPort;
              (c, h1) = new_tunnel key h in
          start_task (TaskOutbound key c tunnelAddr localAddr token) h1)"

definition read_tunnel_request :: "(string \<times> json) list \<Rightarrow> (string \<times> string) option" where
  "read_tunnel_request m = do { key \<leftarrow> bind_str m ''key''; token \<leftarrow> bind_str m ''token''; Some (key, token) }"

text \<open>\<open>connectAndPipe\<close> starts: a connection of the client to the server's tunnel port, and then one to the service.\<close>

definition dial_for :: "CommandData \<Rightarrow> nat option \<Rightarrow> string \<Rightarrow> Dial" where
  "dial_for info ctx token = \<lparr>di_ctx = ctx, di_tunnelAddr = JoinHostPort (cd_ServerHost info) (fmt_int (cd_TunnelPort info)),
     di_localAddr = JoinHostPort (cd_LocalIP info) (fmt_int (cd_LocalPort info)), di_token = token\<rparr>"

definition client_handleTunnelRequest :: "(string \<Rightarrow> json option) \<Rightarrow> any \<Rightarrow> ClientHandler \<Rightarrow> ClientHandler" where
  "client_handleTunnelRequest parse data h =
     (case Option.bind (unmarshalData parse data) read_tunnel_request of
        None \<Rightarrow> h
      | Some (key, token) \<Rightarrow>
          (case mget (hd_proxyInfo h) key of
             None \<Rightarrow> h
           | Some info \<Rightarrow> h\<lparr>hd_dials := hd_dials h @ [dial_for info (mget (hd_tunnelContexts h) key) token]\<rparr>))"

definition client_handlePing :: "any \<Rightarrow> ClientHandler \<Rightarrow> ClientHandler" where
  "client_handlePing data h = handler_send \<lparr>ws_Type = ''pong'', ws_Data = data\<rparr> h"

text \<open>The deferred \<open>stopTunnel\<close> of a goroutine that ends.\<close>

definition task_end :: "nat \<Rightarrow> ClientHandler \<Rightarrow> ClientHandler" where
  "task_end j h = stopTunnel (task_key (hd_tasks h ! j)) (h\<lparr>hd_tasks := drop_nth j (hd_tasks h)\<rparr>)"

definition handler_Stop :: "ClientHandler \<Rightarrow> ClientHandler" where
  "handler_Stop h = h\<lparr>hd_baseDone := True\<rparr>"

section \<open>Updates\<close>

definition b64_alphabet :: string where
  "b64_alphabet = ''ABCDEFGHIJKLMNOPQRSTUVWXYZabcdefghijklmnopqrstuvwxyz0123456789+/''"

definition b64_value :: "char \<Rightarrow> nat option" where
  "b64_value c = (let i = length (takeWhile (\<lambda>d. d \<noteq> c) b64_alphabet) in if i < 64 then Some i else None)"

text \<open>\<open>base64.StdEncoding\<close>: groups of four with padding; line ends are passed over.\<close>

fun b64_groups :: "string \<Rightarrow> byte list option" where
  "b64_groups [] = Some []"
| "b64_groups (a # b # c # d # rest) =
     (case (b64_value a, b64_value b) of
        (Some w, Some x) \<Rightarrow>
          if c = CHR ''='' then (if d = CHR ''='' \<and> rest = [] then Some [of_nat (w * 4 + x div 16)] else None)
          else (case b64_value c of
              None \<Rightarrow> None
            | Some y \<Rightarrow>
                if d = CHR ''='' then (if rest = [] then Some [of_nat (w * 4 + x div 16), of_nat (x mod 16 * 16 + y div 4)] else None)
                else (case b64_value d of
                    None \<Rightarrow> None
                  | Some z \<Rightarrow> map_option (\<lambda>bs. of_nat (w * 4 + x div 16) # of_nat (x mod 16 * 16 + y div 4) # of_nat (y mod 4 * 64 + z) # bs)
                      (b64_groups rest)))
      | _ \<Rightarrow> None)"
| "b64_groups _ = None"

definition b64_DecodeString :: "string \<Rightarrow> byte list option" where
  "b64_DecodeString s = b64_groups (filter (\<lambda>c. c \<noteq> CHR 0x0A \<and> c \<noteq> CHR 0x0D) s)"

record update_env =
  ue_md5 :: "byte list \<Rightarrow> byte list"
  ue_execPath :: "string option"
  ue_tmpFault :: "nat option"
  ue_scriptFault :: "nat option"

definition as_object :: "any \<Rightarrow> (string, any) gomap option" where
  "as_object data = (case data of AnyMap m \<Rightarrow> Some m | _ \<Rightarrow> None)"

text \<open>\<open>make\<close> panics on a negative capacity or one that no allocation can have; \<open>Handle\<close> recovers.\<close>

definition maxAlloc :: int where
  "maxAlloc = 2 ^ 48"

definition handleUpdateStart :: "any \<Rightarrow> ClientHandler \<Rightarrow> ClientHandler" where
  "handleUpdateStart data h =
     (case as_object data of
        None \<Rightarrow> h
      | Some m \<Rightarrow>
          let u = (hd_update h)\<lparr>up_MD5 := str_or '''' m ''md5'', up_size := int_or 0 m ''size'', up_chunksN := int_or 0 m ''chunks''\<rparr> in
          h\<lparr>hd_update := (if up_size u < 0 \<or> maxAlloc < up_size u then u else u\<lparr>up_data := []\<rparr>)\<rparr>)"

definition handleUpdateChunk :: "any \<Rightarrow> ClientHandler \<Rightarrow> ClientHandler" where
  "handleUpdateChunk data h =
     (case Option.bind (as_object data) (\<lambda>m. b64_DecodeString (str_or '''' m ''data'')) of
        None \<Rightarrow> h
      | Some chunk \<Rightarrow>
          let u = hd_update h in
          if up_size u = 0 then h
          else if up_size u < int (length (up_data u) + length chunk) then h
          else h\<lparr>hd_update := u\<lparr>up_data := up_data u @ chunk\<rparr>\<rparr>)"

text \<open>\<open>shellQuote\<close>: single quotes, with each one inside closed, escaped and opened again.\<close>

definition shellQuote :: "string \<Rightarrow> string" where
  "shellQuote s = CHR 0x27 # concat (map (\<lambda>c. if c = CHR 0x27 then [CHR 0x27, CHR 0x5C, CHR 0x27, CHR 0x27] else [c]) s) @ [CHR 0x27]"

definition restart_lines :: "string \<Rightarrow> string \<Rightarrow> string list" where
  "restart_lines execPath tmpPath = [''#!/bin/sh'', ''sleep 2'', ''mv '' @ shellQuote tmpPath @ '' '' @ shellQuote execPath,
     ''chmod +x '' @ shellQuote execPath, ''exec '' @ shellQuote execPath @ '' &'', ''rm -- '' @ [CHR 0x22, CHR ''$'', CHR ''0'', CHR 0x22]]"

definition WriteFile_fault :: "nat option \<Rightarrow> string \<Rightarrow> byte list \<Rightarrow> (string, byte list) gomap \<Rightarrow> bool \<times> (string, byte list) gomap" where
  "WriteFile_fault fault path data files =
     (case fault of None \<Rightarrow> (True, mput files path data) | Some n \<Rightarrow> (False, mput files path (take n data)))"

definition createRestartScript :: "update_env \<Rightarrow> string \<Rightarrow> string \<Rightarrow> (string, byte list) gomap \<Rightarrow> bool \<times> (string, byte list) gomap" where
  "createRestartScript u execPath tmpPath files =
     WriteFile_fault (ue_scriptFault u) (path_Join [path_Dir execPath, ''aether_restart.sh''])
       (bytes_of (concat (map (\<lambda>l. l @ [CHR 0x0A]) (restart_lines execPath tmpPath)))) files"

definition handleUpdateEnd :: "update_env \<Rightarrow> ClientHandler \<Rightarrow> ClientHandler" where
  "handleUpdateEnd v h =
     (let u = hd_update h in
      if up_data u = [] then h
      else
        let h1 = h\<lparr>hd_update := u\<lparr>up_data := []\<rparr>\<rparr> in
        if up_MD5 u \<noteq> '''' \<and> hex_encode (ue_md5 v (up_data u)) \<noteq> up_MD5 u then h1
        else case ue_execPath v of
            None \<Rightarrow> h1
          | Some execPath \<Rightarrow>
              let tmpPath = execPath @ ''.tmp''; (ok, files) = WriteFile_fault (ue_tmpFault v) tmpPath (up_data u) (hd_files h1) in
              if \<not> ok then h1\<lparr>hd_files := files\<rparr>
              else
                let (ok2, files2) = createRestartScript v execPath tmpPath files in
                if \<not> ok2 then h1\<lparr>hd_files := mdel files2 tmpPath\<rparr>
                else h1\<lparr>hd_files := files2, hd_exited := True\<rparr>)"

section \<open>Dispatch\<close>

text \<open>The messages of the relay sessions go to the relay manager.\<close>

definition client_Handle :: "(string \<Rightarrow> json option) \<Rightarrow> update_env \<Rightarrow> WSMessage \<Rightarrow> ClientHandler \<Rightarrow> ClientHandler" where
  "client_Handle parse v msg h =
     (if ws_Type msg = ''proxy'' then client_handleProxy parse (ws_Data msg) h
      else if ws_Type msg = ''proxy_closed'' then client_handleProxyClosed parse (ws_Data msg) h
      else if ws_Type msg = ''proxy_outbound'' then client_handleProxyOutbound parse (ws_Data msg) h
      else if ws_Type msg = ''tunnel_request'' then client_handleTunnelRequest parse (ws_Data msg) h
      else if ws_Type msg = ''ping'' then client_handlePing (ws_Data msg) h
      else if ws_Type msg = ''update_start'' then handleUpdateStart (ws_Data msg) h
      else if ws_Type msg = ''update_chunk'' then handleUpdateChunk (ws_Data msg) h
      else if ws_Type msg = ''update_end'' then handleUpdateEnd v h
      else h)"

text \<open>The tunnel of a websocket or UDP proxy runs until its context is done; an outbound one may also end by
  itself.\<close>

fun task_may_end :: "ClientHandler \<Rightarrow> tunnel_task \<Rightarrow> bool" where
  "task_may_end h (TaskOutbound _ _ _ _ _) = True"
| "task_may_end h t = (\<not> ctx_live h (task_ctx t))"

datatype client_move = Receive update_env WSMessage | EndTask nat | Shutdown

inductive client_step :: "(string \<Rightarrow> json option) \<Rightarrow> ClientHandler \<Rightarrow> client_move \<Rightarrow> ClientHandler \<Rightarrow> bool" for parse where
  ck_message: "client_step parse h (Receive v msg) (client_Handle parse v msg h)"
| ck_task: "j < length (hd_tasks h) \<Longrightarrow> task_may_end h (hd_tasks h ! j) \<Longrightarrow> client_step parse h (EndTask j) (task_end j h)"
| ck_stop: "client_step parse h Shutdown (handler_Stop h)"

inductive client_run :: "(string \<Rightarrow> json option) \<Rightarrow> ClientHandler \<Rightarrow> client_move list \<Rightarrow> ClientHandler \<Rightarrow> bool" for parse where
  cr_nil: "client_run parse h [] h"
| cr_cons: "client_step parse h m h1 \<Longrightarrow> client_run parse h1 ms h2 \<Longrightarrow> client_run parse h (m # ms) h2"

section \<open>Lemmas\<close>

declare map_of_eq_Some_iff [simp del]

definition ids_ok :: "nat \<Rightarrow> (string, nat) gomap \<Rightarrow> bool" where
  "ids_ok n m \<longleftrightarrow> (\<forall>k c. mget m k = Some c \<longrightarrow> c < n)"

lemma ids_ok_ops: "ids_ok n m \<Longrightarrow> ids_ok n (mdel m k)" "ids_ok n m \<Longrightarrow> c < n \<Longrightarrow> ids_ok n (mput m k c)" "ids_ok n m \<Longrightarrow> n \<le> n' \<Longrightarrow> ids_ok n' m"
  by (fastforce simp: ids_ok_def)+

definition update_ok :: "UpdateState \<Rightarrow> bool" where
  "update_ok u \<longleftrightarrow> 0 \<le> up_size u \<and> up_size u \<le> maxAlloc \<longrightarrow> int (length (up_data u)) \<le> up_size u"

text \<open>Tables are maps; proxies and their contexts have the same keys; every context that is named exists; and an
  update in progress is not longer than it was announced.\<close>

definition client_inv :: "ClientHandler \<Rightarrow> bool" where
  "client_inv h \<longleftrightarrow> wf_map (hd_tunnelCtxs h) \<and> wf_map (hd_proxyInfo h) \<and> wf_map (hd_tunnelContexts h) \<and>
     mkeys (hd_proxyInfo h) = mkeys (hd_tunnelContexts h) \<and>
     ids_ok (length (hd_ctxs h)) (hd_tunnelCtxs h) \<and> ids_ok (length (hd_ctxs h)) (hd_tunnelContexts h) \<and>
     (\<forall>t \<in> set (hd_tasks h). task_ctx t < length (hd_ctxs h)) \<and>
     (\<forall>d \<in> set (hd_dials h). \<exists>c. di_ctx d = Some c \<and> c < length (hd_ctxs h)) \<and> update_ok (hd_update h)"

named_theorems cinv \<open>which operations keep the invariant of the handler\<close>

lemma client_inv_send [cinv]: "client_inv h \<Longrightarrow> client_inv (handler_send msg h)"
  by (simp add: client_inv_def handler_send_def)

lemma client_inv_stop [cinv]: "client_inv h \<Longrightarrow> client_inv (stopTunnel key h)"
  by (auto simp: client_inv_def stopTunnel_def cancel_ctx_def ids_ok_ops split: option.split)

lemma new_tunnel_parts:
  "fst (new_tunnel key h) = length (hd_ctxs h)" "hd_ctxs (snd (new_tunnel key h)) = hd_ctxs h @ [False]"
  "hd_tunnelCtxs (snd (new_tunnel key h)) = mput (hd_tunnelCtxs h) key (length (hd_ctxs h))"
  "hd_proxyInfo (snd (new_tunnel key h)) = hd_proxyInfo h" "hd_tunnelContexts (snd (new_tunnel key h)) = hd_tunnelContexts h"
  "hd_tasks (snd (new_tunnel key h)) = hd_tasks h" "hd_dials (snd (new_tunnel key h)) = hd_dials h" "hd_update (snd (new_tunnel key h)) = hd_update h"
  "hd_baseDone (snd (new_tunnel key h)) = hd_baseDone h" "hd_sender (snd (new_tunnel key h)) = hd_sender h" "hd_ClientID (snd (new_tunnel key h)) = hd_ClientID h"
  by (simp_all add: new_tunnel_def registerTunnel_def Let_def)

lemma client_inv_new [cinv]: "client_inv h \<Longrightarrow> client_inv (snd (new_tunnel key h))"
  unfolding client_inv_def new_tunnel_parts
  by (auto simp: ids_ok_ops intro: ids_ok_ops(2,3) less_SucI)

lemma client_inv_task [cinv]: "client_inv h \<Longrightarrow> task_ctx t < length (hd_ctxs h) \<Longrightarrow> client_inv (start_task t h)"
  by (auto simp: client_inv_def start_task_def)

lemma client_inv_proxy_entry:
  "client_inv h \<Longrightarrow> c < length (hd_ctxs h) \<Longrightarrow> client_inv (h\<lparr>hd_proxyInfo := mput (hd_proxyInfo h) key cmd, hd_tunnelContexts := mput (hd_tunnelContexts h) key c\<rparr>)"
  by (simp add: client_inv_def ids_ok_ops)

lemma client_inv_new_proxy:
  "client_inv h \<Longrightarrow> client_inv (snd (new_tunnel key h)\<lparr>hd_proxyInfo := mput (hd_proxyInfo h) key cmd, hd_tunnelContexts := mput (hd_tunnelContexts h) key (length (hd_ctxs h))\<rparr>)"
  using client_inv_proxy_entry [OF client_inv_new, of h "length (hd_ctxs h)" key key cmd] by (simp add: new_tunnel_parts)

lemma mkeys_mdel [simp]: "fst ` set (AList.delete k m) = fst ` set m - {k}"
  by (induction m) auto

lemma client_inv_proxy_del:
  "client_inv h \<Longrightarrow> client_inv (h\<lparr>hd_proxyInfo := mdel (hd_proxyInfo h) key, hd_tunnelContexts := mdel (hd_tunnelContexts h) key\<rparr>)"
  by (simp add: client_inv_def ids_ok_ops)

lemma client_inv_handleProxy [cinv]: "client_inv h \<Longrightarrow> client_inv (client_handleProxy parse data h)"
  using client_inv_new_proxy [of h]
  by (auto simp: client_handleProxy_def Let_def case_prod_beta new_tunnel_parts intro!: client_inv_task client_inv_new split: option.split)

lemma client_inv_handleProxyClosed [cinv]: "client_inv h \<Longrightarrow> client_inv (client_handleProxyClosed parse data h)"
  by (auto simp: client_handleProxyClosed_def Let_def intro!: client_inv_send client_inv_proxy_del client_inv_stop split: option.split)

lemma client_inv_handleProxyOutbound [cinv]: "client_inv h \<Longrightarrow> client_inv (client_handleProxyOutbound parse data h)"
  by (auto simp: client_handleProxyOutbound_def Let_def case_prod_beta new_tunnel_parts intro!: client_inv_task client_inv_new split: option.split)

lemma client_inv_dial:
  assumes "client_inv h" "mget (hd_proxyInfo h) key = Some info"
  shows "\<exists>c. mget (hd_tunnelContexts h) key = Some c \<and> c < length (hd_ctxs h)"
proof -
  have "key \<in> mkeys (hd_tunnelContexts h)" using assms by (metis client_inv_def mkeys_mget option.simps(3))
  then obtain c where "mget (hd_tunnelContexts h) key = Some c" by (metis mkeys_mget not_None_eq)
  then show ?thesis using assms(1) by (auto simp: client_inv_def ids_ok_def)
qed

lemma client_inv_handleTunnelRequest [cinv]:
  assumes inv: "client_inv h" shows "client_inv (client_handleTunnelRequest parse data h)"
proof -
  have "client_inv (h\<lparr>hd_dials := hd_dials h @ [dial_for info (mget (hd_tunnelContexts h) key) token]\<rparr>)"
    if "mget (hd_proxyInfo h) key = Some info" for key info token
    using client_inv_dial [OF inv that] inv by (auto simp: client_inv_def dial_for_def)
  then show ?thesis using inv by (simp add: client_handleTunnelRequest_def split: option.split prod.split)
qed

lemma client_inv_update: "client_inv h \<Longrightarrow> update_ok u \<Longrightarrow> client_inv (h\<lparr>hd_update := u\<rparr>)"
  by (simp add: client_inv_def)

lemma client_inv_files: "client_inv h \<Longrightarrow> client_inv (h\<lparr>hd_files := fs\<rparr>)" "client_inv h \<Longrightarrow> client_inv (h\<lparr>hd_files := fs, hd_exited := b\<rparr>)"
  by (simp_all add: client_inv_def)

lemma client_inv_handleUpdateStart [cinv]: "client_inv h \<Longrightarrow> client_inv (handleUpdateStart data h)"
  by (auto simp: handleUpdateStart_def Let_def update_ok_def intro!: client_inv_update split: option.split)

lemma client_inv_handleUpdateChunk [cinv]: "client_inv h \<Longrightarrow> client_inv (handleUpdateChunk data h)"
  by (auto simp: handleUpdateChunk_def Let_def update_ok_def intro!: client_inv_update split: option.split)

lemma client_inv_handleUpdateEnd [cinv]: "client_inv h \<Longrightarrow> client_inv (handleUpdateEnd v h)"
  unfolding handleUpdateEnd_def Let_def
  by (auto simp: update_ok_def intro!: client_inv_files client_inv_update split: option.split prod.split)

lemma client_inv_step: "client_step parse h m h' \<Longrightarrow> client_inv h \<Longrightarrow> client_inv h'"
proof (induction rule: client_step.induct)
  case (ck_message h v msg)
  then show ?case by (simp add: client_Handle_def cinv client_handlePing_def)
next
  case (ck_task j h)
  have "client_inv (h\<lparr>hd_tasks := drop_nth j (hd_tasks h)\<rparr>)" using ck_task(3) set_drop_nth [of j "hd_tasks h"] by (auto simp: client_inv_def)
  then show ?case by (simp add: task_end_def client_inv_stop)
next
  case (ck_stop h)
  then show ?case by (simp add: handler_Stop_def client_inv_def)
qed

lemma client_inv_run: "client_run parse h0 ms h \<Longrightarrow> client_inv h0 \<Longrightarrow> client_inv h"
  by (induction rule: client_run.induct) (auto dest: client_inv_step)

lemma client_inv_New: "client_inv (handler_New c)"
  by (simp add: client_inv_def handler_New_def ids_ok_def update_ok_def)

text \<open>A context that was cancelled stays cancelled.\<close>

definition dead :: "ClientHandler \<Rightarrow> nat \<Rightarrow> bool" where
  "dead h c \<longleftrightarrow> c < length (hd_ctxs h) \<and> (hd_baseDone h \<or> hd_ctxs h ! c)"

lemma dead_not_live: "dead h c \<Longrightarrow> \<not> ctx_live h c"
  by (simp add: dead_def ctx_live_def)

named_theorems frame \<open>what the operations of the handler leave alone\<close>

lemma stopTunnel_frame [frame, simp]:
  "hd_proxyInfo (stopTunnel key h) = hd_proxyInfo h" "hd_tunnelContexts (stopTunnel key h) = hd_tunnelContexts h"
  "hd_dials (stopTunnel key h) = hd_dials h" "hd_tasks (stopTunnel key h) = hd_tasks h" "hd_baseDone (stopTunnel key h) = hd_baseDone h"
  "hd_ClientID (stopTunnel key h) = hd_ClientID h" "hd_sender (stopTunnel key h) = hd_sender h" "length (hd_ctxs (stopTunnel key h)) = length (hd_ctxs h)"
  by (simp_all add: stopTunnel_def cancel_ctx_def split: option.split)

lemma update_frame [frame, simp]:
  "hd_proxyInfo (handleUpdateStart d h) = hd_proxyInfo h" "hd_tunnelContexts (handleUpdateStart d h) = hd_tunnelContexts h"
  "hd_ctxs (handleUpdateStart d h) = hd_ctxs h" "hd_baseDone (handleUpdateStart d h) = hd_baseDone h"
  "hd_proxyInfo (handleUpdateChunk d h) = hd_proxyInfo h" "hd_tunnelContexts (handleUpdateChunk d h) = hd_tunnelContexts h"
  "hd_ctxs (handleUpdateChunk d h) = hd_ctxs h" "hd_baseDone (handleUpdateChunk d h) = hd_baseDone h"
  "hd_proxyInfo (handleUpdateEnd v h) = hd_proxyInfo h" "hd_tunnelContexts (handleUpdateEnd v h) = hd_tunnelContexts h"
  "hd_ctxs (handleUpdateEnd v h) = hd_ctxs h" "hd_baseDone (handleUpdateEnd v h) = hd_baseDone h"
  "hd_tunnelCtxs (handleUpdateStart d h) = hd_tunnelCtxs h" "hd_tunnelCtxs (handleUpdateChunk d h) = hd_tunnelCtxs h" "hd_tunnelCtxs (handleUpdateEnd v h) = hd_tunnelCtxs h"
  by (simp_all add: handleUpdateStart_def handleUpdateChunk_def handleUpdateEnd_def Let_def split: option.split prod.split)

lemma send_frame [frame, simp]:
  "hd_proxyInfo (handler_send m h) = hd_proxyInfo h" "hd_tunnelContexts (handler_send m h) = hd_tunnelContexts h"
  "hd_ctxs (handler_send m h) = hd_ctxs h" "hd_baseDone (handler_send m h) = hd_baseDone h" "hd_dials (handler_send m h) = hd_dials h"
  "hd_tunnelCtxs (handler_send m h) = hd_tunnelCtxs h"
  by (simp_all add: handler_send_def)

lemma request_frame [frame, simp]:
  "hd_proxyInfo (client_handleTunnelRequest parse d h) = hd_proxyInfo h" "hd_tunnelContexts (client_handleTunnelRequest parse d h) = hd_tunnelContexts h"
  "hd_ctxs (client_handleTunnelRequest parse d h) = hd_ctxs h" "hd_baseDone (client_handleTunnelRequest parse d h) = hd_baseDone h"
  "hd_tunnelCtxs (client_handleTunnelRequest parse d h) = hd_tunnelCtxs h"
  by (simp_all add: client_handleTunnelRequest_def split: option.split prod.split)

lemma dead_cong: "hd_ctxs h' = hd_ctxs h \<Longrightarrow> hd_baseDone h' = hd_baseDone h \<Longrightarrow> dead h' c = dead h c"
  by (simp add: dead_def)

lemma set_True: "xs ! i \<Longrightarrow> xs[j := True] ! i"
  by (cases "i = j"; cases "j < length xs") (simp_all add: list_update_beyond)

lemma dead_stop: "dead h c \<Longrightarrow> dead (stopTunnel key h) c"
  by (auto simp: dead_def stopTunnel_def cancel_ctx_def set_True split: option.split)

lemma dead_new: "dead h c \<Longrightarrow> dead (snd (new_tunnel key h)) c"
  by (auto simp: dead_def new_tunnel_parts nth_append)

lemma dead_Handle: "dead h c \<Longrightarrow> dead (client_Handle parse v msg h) c"
proof -
  assume d: "dead h c"
  have "dead (client_handleProxy parse x h) c" for x
    using dead_new [OF d] d by (auto simp: client_handleProxy_def Let_def case_prod_beta start_task_def dead_def split: option.split)
  moreover have "dead (client_handleProxyOutbound parse x h) c" for x
    using dead_new [OF d] d by (auto simp: client_handleProxyOutbound_def Let_def case_prod_beta start_task_def dead_def split: option.split)
  moreover have "dead (client_handleProxyClosed parse x h) c" for x
    using dead_stop [OF d] d by (auto simp: client_handleProxyClosed_def Let_def dead_def split: option.split)
  moreover have "dead (client_handleTunnelRequest parse x h) c" "dead (client_handlePing x h) c" "dead (handleUpdateStart x h) c"
    "dead (handleUpdateChunk x h) c" "dead (handleUpdateEnd v h) c" for x
    using d by (simp_all add: dead_def client_handlePing_def)
  ultimately show ?thesis using d by (simp add: client_Handle_def)
qed

lemma dead_step: "client_step parse h m h' \<Longrightarrow> dead h c \<Longrightarrow> dead h' c"
proof (induction rule: client_step.induct)
  case (ck_task j h)
  then have "dead (h\<lparr>hd_tasks := drop_nth j (hd_tasks h)\<rparr>) c" by (simp add: dead_def)
  then show ?case by (simp add: task_end_def dead_stop)
qed (auto simp: dead_Handle, simp add: dead_def handler_Stop_def)

text \<open>Only a proxy command makes a proxy known.\<close>

lemma unknown_step:
  assumes "client_step parse h m h'" "\<forall>v msg. m = Receive v msg \<longrightarrow> ws_Type msg \<noteq> ''proxy''" "mget (hd_proxyInfo h) key = None"
  shows "mget (hd_proxyInfo h') key = None"
  using assms
proof (induction rule: client_step.induct)
  case (ck_message h v msg)
  have "hd_proxyInfo (client_handleProxyOutbound parse x h) = hd_proxyInfo h" for x
    by (simp add: client_handleProxyOutbound_def Let_def case_prod_beta start_task_def new_tunnel_parts split: option.split)
  moreover have "mget (hd_proxyInfo (client_handleProxyClosed parse x h)) key = None" for x
    using ck_message(2) by (simp add: client_handleProxyClosed_def Let_def split: option.split)
  ultimately show ?case using ck_message by (simp add: client_Handle_def client_handlePing_def)
qed (simp_all add: task_end_def handler_Stop_def)

lemma quiet_run:
  assumes "client_run parse h ms h'" "\<forall>v msg. Receive v msg \<in> set ms \<longrightarrow> ws_Type msg \<noteq> ''proxy''" "mget (hd_proxyInfo h) key = None"
  shows "mget (hd_proxyInfo h') key = None"
  using assms
proof (induction rule: client_run.induct)
  case (cr_cons h m h1 ms h2)
  have "mget (hd_proxyInfo h1) key = None" by (rule unknown_step [OF cr_cons(1)]) (use cr_cons(4,5) in auto)
  then show ?case using cr_cons by auto
qed

lemma dead_run: "client_run parse h ms h' \<Longrightarrow> dead h c \<Longrightarrow> dead h' c"
  by (induction rule: client_run.induct) (auto dest: dead_step)

section \<open>Properties\<close>

text \<open>C1. Whatever the server sends and however the tunnels end, the handler stays consistent: it knows the context
  of every proxy it knows and no other, every connection it opens belongs to a context it can cancel, and an
  update in progress never grows beyond its announced size.\<close>

theorem client_run_invariant:
  assumes "client_run parse (SetSender (handler_New c)) ms h"
  shows "mkeys (hd_proxyInfo h) = mkeys (hd_tunnelContexts h) \<and>
     (\<forall>d \<in> set (hd_dials h). \<exists>i. di_ctx d = Some i \<and> i < length (hd_ctxs h)) \<and>
     (\<forall>k i. mget (hd_tunnelCtxs h) k = Some i \<longrightarrow> i < length (hd_ctxs h)) \<and>
     (0 \<le> up_size (hd_update h) \<and> up_size (hd_update h) \<le> maxAlloc \<longrightarrow> int (length (up_data (hd_update h))) \<le> up_size (hd_update h))"
proof -
  have "client_inv (SetSender (handler_New c))" using client_inv_New [of c] by (simp add: SetSender_def client_inv_def)
  from client_inv_run [OF assms this] show ?thesis by (simp add: client_inv_def update_ok_def ids_ok_def)
qed

definition sample_parse :: "string \<Rightarrow> json option" where
  "sample_parse s = None"

definition sample_update :: update_env where
  "sample_update = \<lparr>ue_md5 = (\<lambda>bs. take 1 bs), ue_execPath = Some ''/opt/agent'', ue_tmpFault = None, ue_scriptFault = None\<rparr>"

definition sample_command :: "string \<Rightarrow> WSMessage" where
  "sample_command protocol = \<lparr>ws_Type = ''proxy'', ws_Data = AnyMap [(''remote_port'', AnyFloat (F64 80 0)), (''local_port'', AnyFloat (F64 8080 0)),
     (''protocol'', AnyStr protocol), (''server_host'', AnyStr ''s''), (''tunnel_port'', AnyFloat (F64 7000 0))]\<rparr>"

definition closing :: "string \<Rightarrow> WSMessage" where
  "closing key = \<lparr>ws_Type = ''proxy_closed'', ws_Data = AnyMap [(''key'', AnyStr key)]\<rparr>"

definition requesting :: "string \<Rightarrow> string \<Rightarrow> WSMessage" where
  "requesting key token = \<lparr>ws_Type = ''tunnel_request'', ws_Data = AnyMap [(''key'', AnyStr key), (''token'', AnyStr token)]\<rparr>"

definition sample_key :: string where
  "sample_key = ''c-'' @ fmt_int 80"

definition sample_client :: ClientHandler where
  "sample_client = client_Handle sample_parse sample_update (requesting sample_key ''t'')
     (client_Handle sample_parse sample_update (sample_command ''tcp'') (SetSender (handler_New ''c'')))"

lemma sample_read:
  "Option.bind (unmarshalData p (ws_Data (sample_command protocol))) read_CommandData = Some \<lparr>cd_RequestID = '''', cd_RemotePort = 80, cd_LocalPort = 8080,
     cd_Protocol = protocol, cd_BindAddr = '''', cd_Command = '''', cd_ServerHost = ''s'', cd_TunnelPort = 7000, cd_Token = '''', cd_LocalIP = ''''\<rparr>"
  "Option.bind (unmarshalData p (ws_Data (closing key))) (\<lambda>m. bind_str m ''key'') = Some key"
  "Option.bind (unmarshalData p (ws_Data (requesting key token))) read_tunnel_request = Some (key, token)"
  by (simp_all add: sample_command_def closing_def requesting_def unmarshalData_def json_object_def number_text_def f64_integral_def f64_trunc_def
      decimal_of_f64_def read_CommandData_def read_tunnel_request_def bind_str_def bind_int_def)

lemma sample_types [simp]: "ws_Type (sample_command protocol) = ''proxy''" "ws_Type (closing key) = ''proxy_closed''"
  "ws_Type (requesting key token) = ''tunnel_request''"
  by (simp_all add: sample_command_def closing_def requesting_def)

lemma sample_client_state:
  "length (hd_dials sample_client) = 1" "mget (hd_tunnelCtxs sample_client) sample_key = Some 0"
  by (simp_all add: sample_client_def client_Handle_def client_handleProxy_def client_handleTunnelRequest_def sample_read SetSender_def handler_New_def
      new_tunnel_def registerTunnel_def sample_key_def Let_def dial_for_def)

lemma sample_client_run:
  "client_run sample_parse (SetSender (handler_New ''c''))
     [Receive sample_update (sample_command ''tcp''), Receive sample_update (requesting sample_key ''t'')] sample_client"
  unfolding sample_client_def by (rule cr_cons [OF ck_message cr_cons [OF ck_message cr_nil]])

theorem client_run_invariant_witness:
  "length (hd_dials sample_client) = 1 \<and> (\<forall>d \<in> set (hd_dials sample_client). \<exists>i. di_ctx d = Some i \<and> i < length (hd_ctxs sample_client))"
  using sample_client_state(1) client_run_invariant [OF sample_client_run] by blast

text \<open>C2. Closing a proxy is final: once the server has closed it, the connections that carried it are told to end,
  and whatever else arrives, ends or is stopped, a request for a tunnel under its key opens nothing, until the
  server gives a new proxy command. The server gets its acknowledgement.\<close>

theorem proxy_closed_final:
  assumes "client_inv h" and "ws_Type msg = ''proxy_closed''" and "Option.bind (unmarshalData parse (ws_Data msg)) (\<lambda>m. bind_str m ''key'') = Some key"
    and "client_run parse (client_Handle parse v msg h) ms h'" and "\<forall>v msg. Receive v msg \<in> set ms \<longrightarrow> ws_Type msg \<noteq> ''proxy''"
    and "Option.bind (unmarshalData parse data) read_tunnel_request = Some (key, token)"
  shows "client_handleTunnelRequest parse data h' = h' \<and>
     (\<forall>i. mget (hd_tunnelCtxs h) key = Some i \<longrightarrow> \<not> ctx_live h' i) \<and>
     hd_sender (client_Handle parse v msg h) = map_option (\<lambda>ms. ms @ [\<lparr>ws_Type = ''proxy_close_ack'', ws_Data = AnyStr key\<rparr>]) (hd_sender h)"
proof -
  let ?h1 = "client_Handle parse v msg h"
  have h1: "?h1 = handler_send \<lparr>ws_Type = ''proxy_close_ack'', ws_Data = AnyStr key\<rparr>
      ((stopTunnel key h)\<lparr>hd_proxyInfo := mdel (hd_proxyInfo h) key, hd_tunnelContexts := mdel (hd_tunnelContexts h) key\<rparr>)"
    using assms(2,3) by (simp add: client_Handle_def client_handleProxyClosed_def Let_def)
  have "mget (hd_proxyInfo h') key = None" by (rule quiet_run [OF assms(4,5)]) (simp add: h1)
  then have "client_handleTunnelRequest parse data h' = h'" using assms(6) by (simp add: client_handleTunnelRequest_def)
  moreover have "\<not> ctx_live h' i" if i: "mget (hd_tunnelCtxs h) key = Some i" for i
  proof -
    have "i < length (hd_ctxs h)" using assms(1) i by (auto simp: client_inv_def ids_ok_def)
    then have "dead (stopTunnel key h) i" using i by (simp add: dead_def stopTunnel_def cancel_ctx_def)
    then have "dead ?h1 i" by (simp add: h1 dead_def)
    then show ?thesis by (rule dead_not_live [OF dead_run [OF assms(4)]])
  qed
  ultimately show ?thesis by (simp add: h1 handler_send_def)
qed

theorem proxy_closed_final_witness:
  "\<not> ctx_live (client_Handle sample_parse sample_update (closing sample_key) sample_client) 0"
proof -
  have "client_inv (SetSender (handler_New ''c''))" using client_inv_New [of "''c''"] by (simp add: SetSender_def client_inv_def)
  then have inv: "client_inv sample_client" by (rule client_inv_run [OF sample_client_run])
  show ?thesis using proxy_closed_final [OF inv _ sample_read(2) cr_nil _ sample_read(3)] sample_client_state(2) by simp
qed

text \<open>A websocket or UDP proxy that is closed and created again under the same key loses its new tunnel: the
  goroutine of the old one notices a second later that its context is done, and its deferred \<open>stopTunnel\<close>
  cancels the context that is registered under the key by then, the new one.\<close>

theorem recreated_tunnel_cancelled:
  assumes "client_inv h" and "\<not> hd_baseDone h" and "ws_Type p = ''proxy''" and "Option.bind (unmarshalData parse (ws_Data p)) read_CommandData = Some cmd"
    and "cd_Protocol cmd = ''websocket''" and "ws_Type c = ''proxy_closed''"
    and "Option.bind (unmarshalData parse (ws_Data c)) (\<lambda>m. bind_str m ''key'') = Some (hd_ClientID h @ ''-'' @ fmt_int (cd_RemotePort cmd))"
    and "h1 = client_Handle parse v p (client_Handle parse v c (client_Handle parse v p h))"
  shows "ctx_live h1 (Suc (length (hd_ctxs h))) \<and>
     (\<exists>h2. client_step parse h1 (EndTask (length (hd_tasks h))) h2 \<and> \<not> ctx_live h2 (Suc (length (hd_ctxs h))) \<and>
        (\<exists>t \<in> set (hd_tasks h2). task_ctx t = Suc (length (hd_ctxs h))))"
proof -
  let ?key = "hd_ClientID h @ ''-'' @ fmt_int (cd_RemotePort cmd)"
  let ?n = "length (hd_ctxs h)"
  define t where "t = (\<lambda>c. TaskWS ?key c (cd_ServerHost cmd) (cd_Token cmd) (cd_LocalPort cmd) (or_default ''127.0.0.1'' (cd_LocalIP cmd)))"
  have 1: "client_Handle parse v p x = start_task (t (length (hd_ctxs x))) (snd (new_tunnel ?key x))" if "hd_ClientID x = hd_ClientID h" for x
    using that by (simp add: client_Handle_def client_handleProxy_def assms(3,4,5) Let_def case_prod_beta new_tunnel_parts t_def)
  have h1: "hd_ctxs h1 = hd_ctxs h @ [True, False]" "hd_tunnelCtxs h1 = mput (mdel (mput (hd_tunnelCtxs h) ?key ?n) ?key) ?key (Suc ?n)"
    "hd_tasks h1 = hd_tasks h @ [t ?n, t (Suc ?n)]" "hd_baseDone h1 = False"
    using assms(2,6,7)
    by (simp_all add: assms(8) 1 client_Handle_def [of parse v c] client_handleProxyClosed_def Let_def start_task_def handler_send_def
        stopTunnel_def cancel_ctx_def new_tunnel_parts)
  have j: "hd_tasks h1 ! length (hd_tasks h) = t ?n" "length (hd_tasks h) < length (hd_tasks h1)" by (simp_all add: h1(3))
  have "task_may_end h1 (t ?n)" by (simp add: t_def ctx_live_def h1 nth_append)
  then have s: "client_step parse h1 (EndTask (length (hd_tasks h))) (task_end (length (hd_tasks h)) h1)" using j by (intro ck_task) simp_all
  have "task_key (t ?n) = ?key" by (simp add: t_def)
  then have e: "hd_ctxs (task_end (length (hd_tasks h)) h1) = hd_ctxs h @ [True, True]" "hd_tasks (task_end (length (hd_tasks h)) h1) = hd_tasks h @ [t (Suc ?n)]"
    by (simp_all add: task_end_def j(1) stopTunnel_def cancel_ctx_def h1 list_update_append drop_nth_def)
  have "\<not> ctx_live (task_end (length (hd_tasks h)) h1) (Suc ?n)" by (simp add: ctx_live_def e nth_append)
  moreover have "ctx_live h1 (Suc ?n)" by (simp add: ctx_live_def h1 nth_append)
  moreover have "task_ctx (t (Suc ?n)) = Suc ?n" by (simp add: t_def)
  ultimately show ?thesis using s e(2) by force
qed

theorem recreated_tunnel_cancelled_witness:
  "\<exists>h2. client_step sample_parse (client_Handle sample_parse sample_update (sample_command ''websocket'')
       (client_Handle sample_parse sample_update (closing sample_key) (client_Handle sample_parse sample_update (sample_command ''websocket'') (handler_New ''c'')))) (EndTask 0) h2 \<and>
     \<not> ctx_live h2 1"
proof -
  have "hd_ClientID (handler_New ''c'') = ''c''" "\<not> hd_baseDone (handler_New ''c'')" "hd_tasks (handler_New ''c'') = []" "hd_ctxs (handler_New ''c'') = []"
    by (simp_all add: handler_New_def)
  then show ?thesis
    using recreated_tunnel_cancelled [where h = "handler_New ''c''" and p = "sample_command ''websocket''" and c = "closing sample_key" and v = sample_update,
        OF client_inv_New _ _ sample_read(1) _ _ _ refl, of sample_parse]
    by (auto simp: sample_read(2) sample_key_def)
qed

text \<open>A proxy command that is repeated before the proxy is closed replaces the context without cancelling it: the
  tunnels opened under the first command outlive the close.\<close>

theorem repeated_command_outlives_close:
  assumes "\<not> hd_baseDone h" and "ws_Type p = ''proxy''" and "Option.bind (unmarshalData parse (ws_Data p)) read_CommandData = Some cmd"
    and "cd_Protocol cmd = ''tcp''" and "key = hd_ClientID h @ ''-'' @ fmt_int (cd_RemotePort cmd)"
    and "ws_Type r = ''tunnel_request''" and "Option.bind (unmarshalData parse (ws_Data r)) read_tunnel_request = Some (key, token)"
    and "ws_Type c = ''proxy_closed''" and "Option.bind (unmarshalData parse (ws_Data c)) (\<lambda>m. bind_str m ''key'') = Some key"
    and "h1 = client_Handle parse v r (client_Handle parse v p h)"
    and "h2 = client_Handle parse v c (client_Handle parse v p h1)"
  shows "\<exists>d. hd_dials h1 = hd_dials h @ [d] \<and> di_token d = token \<and> (\<exists>i. di_ctx d = Some i \<and> ctx_live h2 i) \<and> mget (hd_tunnelCtxs h2) key = None"
proof -
  let ?n = "length (hd_ctxs h)"
  let ?cmd = "cmd\<lparr>cd_LocalIP := or_default ''127.0.0.1'' (cd_LocalIP cmd)\<rparr>"
  have 1: "client_Handle parse v p x = (snd (new_tunnel key x))\<lparr>hd_proxyInfo := mput (hd_proxyInfo x) key ?cmd, hd_tunnelContexts := mput (hd_tunnelContexts x) key (length (hd_ctxs x))\<rparr>"
    if "hd_ClientID x = hd_ClientID h" for x
    using that by (simp add: client_Handle_def client_handleProxy_def assms(2-5) Let_def case_prod_beta new_tunnel_parts)
  have h1: "h1 = (client_Handle parse v p h)\<lparr>hd_dials := hd_dials h @ [dial_for ?cmd (Some ?n) token]\<rparr>"
    by (simp add: assms(10) client_Handle_def [of parse v r] assms(6) client_handleTunnelRequest_def assms(7) 1 new_tunnel_parts)
  have "hd_ctxs h2 = hd_ctxs h @ [False, True]" "mget (hd_tunnelCtxs h2) key = None" "hd_baseDone h2 = False"
    using assms(1,8,9)
    by (simp_all add: assms(11) h1 1 new_tunnel_parts client_Handle_def [of parse v c] client_handleProxyClosed_def Let_def handler_send_def stopTunnel_def cancel_ctx_def
        list_update_append)
  then have "ctx_live h2 ?n" "mget (hd_tunnelCtxs h2) key = None" by (simp_all add: ctx_live_def nth_append)
  then show ?thesis by (simp add: h1 dial_for_def)
qed

theorem repeated_command_outlives_close_witness:
  "\<exists>d. hd_dials (client_Handle sample_parse sample_update (requesting sample_key ''t'') (client_Handle sample_parse sample_update (sample_command ''tcp'') (handler_New ''c''))) = [d] \<and>
     di_token d = ''t''"
  using repeated_command_outlives_close [OF _ _ sample_read(1) _ refl _ _ _ _ refl refl, of "handler_New ''c''" "''tcp''" "requesting sample_key ''t''" sample_parse "''t''"
      "closing sample_key" sample_update]
  by (simp add: handler_New_def sample_key_def sample_read) blast

text \<open>What a POSIX shell makes of a command line of plain characters, single quotes and backslashes: its words.
  Any other special character ends the parse.\<close>

datatype sh_mode = ShPlain | ShQuoted | ShEscaped | ShOther

definition sh_push :: "char \<Rightarrow> string option \<Rightarrow> string option" where
  "sh_push c w = Some ((case w of None \<Rightarrow> [] | Some s \<Rightarrow> s) @ [c])"

fun sh_step :: "char \<Rightarrow> sh_mode \<times> string option \<times> string list \<Rightarrow> sh_mode \<times> string option \<times> string list" where
  "sh_step c (ShPlain, w, ws) =
     (if c = CHR 0x27 then (ShQuoted, Some (case w of None \<Rightarrow> [] | Some s \<Rightarrow> s), ws)
      else if c = CHR 0x5C then (ShEscaped, w, ws)
      else if c = CHR '' '' then (ShPlain, None, ws @ (case w of None \<Rightarrow> [] | Some s \<Rightarrow> [s]))
      else if c \<in> set ''abcdefghijklmnopqrstuvwxyzABCDEFGHIJKLMNOPQRSTUVWXYZ0123456789+-./_'' then (ShPlain, sh_push c w, ws)
      else (ShOther, w, ws))"
| "sh_step c (ShQuoted, w, ws) = (if c = CHR 0x27 then (ShPlain, w, ws) else (ShQuoted, sh_push c w, ws))"
| "sh_step c (ShEscaped, w, ws) = (if c = CHR 0x0A then (ShPlain, w, ws) else (ShPlain, sh_push c w, ws))"
| "sh_step c (ShOther, w, ws) = (ShOther, w, ws)"

definition sh_words :: "string \<Rightarrow> string list option" where
  "sh_words line =
     (case fold sh_step line (ShPlain, None, []) of
        (ShPlain, w, ws) \<Rightarrow> Some (ws @ (case w of None \<Rightarrow> [] | Some s \<Rightarrow> [s]))
      | _ \<Rightarrow> None)"

lemma sh_quoted_part:
  "fold sh_step (concat (map (\<lambda>c. if c = CHR 0x27 then [CHR 0x27, CHR 0x5C, CHR 0x27, CHR 0x27] else [c]) s)) (ShQuoted, Some w, ws) = (ShQuoted, Some (w @ s), ws)"
  by (induction s arbitrary: w) (simp_all add: sh_push_def)

lemma sh_quote: "fold sh_step (shellQuote s) (ShPlain, None, ws) = (ShPlain, Some s, ws)"
  using sh_quoted_part [of s "[]" ws] by (simp add: shellQuote_def)

text \<open>C3. The script that replaces the program runs exactly the commands it means to: read by a shell, its lines
  move the received file over the program, mark it executable and start it, whatever characters the path of
  the program has, quotes, spaces and shell syntax included.\<close>

theorem restart_script_words:
  "sh_words (restart_lines execPath tmpPath ! 2) = Some [''mv'', tmpPath, execPath] \<and>
   sh_words (restart_lines execPath tmpPath ! 3) = Some [''chmod'', ''+x'', execPath] \<and>
   restart_lines execPath tmpPath ! 4 = ''exec '' @ shellQuote execPath @ '' &'' \<and> sh_words (''exec '' @ shellQuote execPath) = Some [''exec'', execPath]"
proof -
  have pre: "fold sh_step ''mv '' (ShPlain, None, []) = (ShPlain, None, [''mv''])" "fold sh_step ''chmod +x '' (ShPlain, None, []) = (ShPlain, None, [''chmod'', ''+x''])"
    "fold sh_step ''exec '' (ShPlain, None, []) = (ShPlain, None, [''exec''])" by (simp_all add: sh_push_def)
  have sp: "fold sh_step '' '' (ShPlain, Some s, ws) = (ShPlain, None, ws @ [s])" for s ws by simp
  have "sh_words (''mv '' @ shellQuote tmpPath @ '' '' @ shellQuote execPath) = Some [''mv'', tmpPath, execPath]"
    unfolding sh_words_def fold_append comp_apply pre sh_quote sp by simp
  moreover have "sh_words (''chmod +x '' @ shellQuote execPath) = Some [''chmod'', ''+x'', execPath]" "sh_words (''exec '' @ shellQuote execPath) = Some [''exec'', execPath]"
    unfolding sh_words_def fold_append comp_apply pre sh_quote by simp_all
  ultimately show ?thesis by (simp add: restart_lines_def numeral_2_eq_2 numeral_3_eq_3 eval_nat_numeral del: append.simps)
qed

lemma Clean_ends_with:
  assumes "proper n"
  shows "\<exists>u. path_Clean (d @ CHR ''/'' # n) = u @ n"
proof -
  have s: "path_split n = [n]" using assms by (simp add: proper_def nice_def)
  have f: "fold (clean_step r) (path_split d @ [n]) [] = n # fold (clean_step r) (path_split d) []" for r
    by (simp add: clean_step_push [OF assms])
  have "clean_names r (path_split (d @ CHR ''/'' # n)) = clean_names r (path_split d) @ [n]" for r
    unfolding path_split_append s clean_names_def f by simp
  then have c: "path_Clean (d @ CHR ''/'' # n) = (if IsAbs (d @ CHR ''/'' # n) then ''/'' else '''') @ path_join (clean_names (IsAbs (d @ CHR ''/'' # n)) (path_split d) @ [n])"
    by (simp add: path_Clean_def Let_def)
  have "\<exists>u. path_join (xs @ [n]) = u @ n" for xs
  proof (cases "xs = []")
    case False
    then show ?thesis using path_join_append [OF False, of "[n]"] by (intro exI [of _ "path_join xs @ ''/''"]) simp
  qed simp
  then obtain u where "path_join (clean_names (IsAbs (d @ CHR ''/'' # n)) (path_split d) @ [n]) = u @ n" by blast
  then show ?thesis unfolding c by (metis append_assoc)
qed

lemma script_not_tmp: "path_Join [path_Dir p, ''aether_restart.sh''] \<noteq> q @ ''.tmp''"
proof
  assume e: "path_Join [path_Dir p, ''aether_restart.sh''] = q @ ''.tmp''"
  have "path_Dir p \<noteq> ''''" by (simp add: path_Dir_def path_Clean_nonempty)
  then have "path_Join [path_Dir p, ''aether_restart.sh''] = path_Clean (path_Dir p @ CHR ''/'' # ''aether_restart.sh'')" by (simp add: Join_Clean)
  moreover have "proper ''aether_restart.sh''" by (simp add: proper_def nice_def)
  ultimately obtain u where "q @ ''.tmp'' = u @ ''aether_restart.sh''" using Clean_ends_with e by metis
  then have "last (q @ ''.tmp'') = last (u @ ''aether_restart.sh'')" by simp
  then show False by simp
qed

definition update_start :: "string \<Rightarrow> int \<Rightarrow> any" where
  "update_start md5 n = AnyMap [(''md5'', AnyStr md5), (''size'', AnyFloat (F64 n 0))]"

definition update_chunk :: "string \<Rightarrow> any" where
  "update_chunk s = AnyMap [(''data'', AnyStr s)]"

lemma chunks_collected:
  assumes "list_all2 (\<lambda>s bs. b64_DecodeString s = Some bs) cs bss" "up_size (hd_update h) = n" "0 < n" "int (length (up_data (hd_update h)) + length (concat bss)) \<le> n"
  shows "fold (\<lambda>s. handleUpdateChunk (update_chunk s)) cs h = h\<lparr>hd_update := (hd_update h)\<lparr>up_data := up_data (hd_update h) @ concat bss\<rparr>\<rparr>"
  using assms
proof (induction arbitrary: h rule: list_all2_induct)
  case (Cons s cs bs bss)
  have "handleUpdateChunk (update_chunk s) h = h\<lparr>hd_update := (hd_update h)\<lparr>up_data := up_data (hd_update h) @ bs\<rparr>\<rparr>"
    using Cons by (simp add: handleUpdateChunk_def update_chunk_def as_object_def str_or_def get_str_def Let_def)
  then show ?case using Cons.IH [of "h\<lparr>hd_update := (hd_update h)\<lparr>up_data := up_data (hd_update h) @ bs\<rparr>\<rparr>"] Cons.prems by simp
qed simp

text \<open>C4. An update whose chunks arrive within the announced size, with the announced checksum or none, replaces
  the program by exactly the bytes that were sent, in order, and the agent ends to be restarted; with another
  checksum nothing is written and the agent goes on. How many bytes there are is not checked against the
  announced size.\<close>

theorem update_installs:
  assumes "list_all2 (\<lambda>s bs. b64_DecodeString s = Some bs) cs bss" and "0 < n" and "n \<le> maxAlloc" and "int (length (concat bss)) \<le> n" and "concat bss \<noteq> []"
    and "ue_execPath v = Some p" and "ue_tmpFault v = None" and "ue_scriptFault v = None"
    and "h' = handleUpdateEnd v (fold (\<lambda>s. handleUpdateChunk (update_chunk s)) cs (handleUpdateStart (update_start md5 n) h))"
  shows "(md5 = '''' \<or> md5 = hex_encode (ue_md5 v (concat bss)) \<longrightarrow>
        hd_exited h' \<and> mget (hd_files h') (p @ ''.tmp'') = Some (concat bss) \<and>
        (\<forall>q. q \<noteq> p @ ''.tmp'' \<longrightarrow> q \<noteq> path_Join [path_Dir p, ''aether_restart.sh''] \<longrightarrow> mget (hd_files h') q = mget (hd_files h) q)) \<and>
     (md5 \<noteq> '''' \<and> md5 \<noteq> hex_encode (ue_md5 v (concat bss)) \<longrightarrow> hd_exited h' = hd_exited h \<and> hd_files h' = hd_files h)"
proof -
  define h1 where "h1 = handleUpdateStart (update_start md5 n) h"
  have 1: "h1 = h\<lparr>hd_update := \<lparr>up_data = [], up_MD5 = md5, up_size = n, up_chunksN = 0\<rparr>\<rparr>"
    using assms(2,3) by (simp add: h1_def handleUpdateStart_def update_start_def as_object_def str_or_def get_str_def int_or_def get_f64_def f64_trunc_def Let_def)
  have "fold (\<lambda>s. handleUpdateChunk (update_chunk s)) cs h1 = h1\<lparr>hd_update := (hd_update h1)\<lparr>up_data := up_data (hd_update h1) @ concat bss\<rparr>\<rparr>"
    by (rule chunks_collected [OF assms(1) refl]) (use assms(2,4) in \<open>simp_all add: 1\<close>)
  then have h': "h' = handleUpdateEnd v (h\<lparr>hd_update := \<lparr>up_data = concat bss, up_MD5 = md5, up_size = n, up_chunksN = 0\<rparr>\<rparr>)"
    by (simp add: assms(9) h1_def [symmetric]) (simp add: 1)
  show ?thesis
    using assms(5-8) script_not_tmp [of p p] unfolding h'
    by (auto simp: handleUpdateEnd_def Let_def createRestartScript_def WriteFile_fault_def)
qed

theorem update_installs_witness:
  "mget (hd_files (handleUpdateEnd sample_update (handleUpdateChunk (update_chunk ''AQI='') (handleUpdateStart (update_start ''01'' 3) (handler_New ''c''))))) ''/opt/agent.tmp'' = Some [1, 2]"
proof -
  have "b64_DecodeString ''AQI='' = Some [1, 2]" "hex_encode (ue_md5 sample_update [1, 2]) = ''01''" by code_simp+
  then show ?thesis
    using update_installs [of "[''AQI='']" "[[1, 2]]" 3 sample_update "''/opt/agent''", OF _ _ _ _ _ _ _ _ refl, of "''01''" "handler_New ''c''"]
    by (simp add: maxAlloc_def sample_update_def)
qed

end
