(* ===== verification/Spec2Isabelle.thy ===== *)
theory Spec2Isabelle
  imports Mux_Flow System_Run Client_Handler
begin

text \<open>
  A verification development for BBgrid, a server that publishes services of registered clients through
  tunnels. All paths are under \<open>src/\<close>.

  \<^bold>\<open>The program.\<close> Clients apply for a certificate, connect and are given proxies (a port of the server
  that leads to a service of the client) and relays (a path between two clients). The server is an
  event-driven runtime. Session code, plugins and the HTTP interface publish events on a bus; the
  subscribers of the core apply each event to the state store, write it to the data directory and wake the
  reconcile engine, which compares what is desired with what is there and publishes the missing events. The
  data of a tunnel travels in frames of a multiplexer, one channel per port, with a window per channel.

  \<^bold>\<open>The theories.\<close>
  \<^item> \<open>BB_Prelude\<close>: Go maps as association lists, big-endian fields, decimal printing, wrap-around at 64
    bits, and the interfaces \<open>keyed_store\<close> (lookup after insert and delete), \<open>invariant_run\<close> (what
    every operation keeps, every run keeps) and their relatives.
  \<^item> \<open>Runtime_Types\<close>, \<open>Proto\<close>: the Go \<open>any\<close> and its passage through JSON; resource keys, events and
    the tunnel handshake (\<open>common/proto\<close>, and the reader of \<open>BBgrid_Server/dataplane/server.go\<close>).
  \<^item> \<open>Mux_Frame\<close>, \<open>Mux\<close>, \<open>Mux_Flow\<close> (\<open>common/mux/mux.go\<close>): the bytes of a frame and the loops that
    read and write them; the multiplexer with its queues, channel table and loops as a step relation on a
    heap of channels; the accounting of the window, on an abstract link and refined by \<open>Channel_Read\<close>.
  \<^item> \<open>State_Store\<close>, \<open>Event_Bus\<close>, \<open>Reconcile\<close>, \<open>Capability\<close>, \<open>Runtime_Core\<close>
    (\<open>BBgrid_Server/runtime\<close>): the maps of the store and every event on them; the bus with \<open>Publish\<close>,
    \<open>Subscribe\<close>, the workers and \<open>Close\<close> split at their critical sections; a reconcile pass, its
    backoff and its run loop; the table of actions; and the three subscriptions that join them.
  \<^item> \<open>Event_Store\<close>, \<open>Snapshot_Store\<close>, \<open>Meta_Store\<close>, \<open>Storage_Manager\<close> (\<open>common/store\<close>): the log
    as files of bytes split into lines, the snapshot files and their pruning, one JSON file per resource
    type, and the manager over the three.
  \<^item> \<open>Auth_Manager\<close> (\<open>BBgrid_Server/auth/auth.go\<close>): clients, certificates, vouchers and namespaces.
  \<^item> \<open>Plugins\<close>, \<open>Persist_Plugin\<close> (\<open>plugins/tag\<close>, \<open>plugins/latency\<close>, \<open>plugins/persist\<close>,
    \<open>common/persist\<close>): tags, latencies, and what a start restores from the data directory.
  \<^item> \<open>Proxy_Plugin\<close> (\<open>plugins/proxy\<close>): listeners over the ports of the host, as a step relation of event
    handlers, accept loops and connections. \<open>Handoff\<close> is the interface of a table in which one party
    waits and the other takes it away exactly once; \<open>Relay_Plugin\<close> (\<open>plugins/relay\<close>, the pairing of
    two peers) and \<open>Tunnel_Pairing\<close> (the tunnels a proxy connection waits for) interpret it.
  \<^item> \<open>Session_Server\<close> (\<open>BBgrid_Server/session/server.go\<close>): how a connection is admitted, replaced
    and closed, and the heartbeat, split into the steps of the session and those of its surroundings.
  \<^item> \<open>Http_Api\<close> (\<open>BBgrid_Server/http/server.go\<close>): the token check, each handler, the table of routes,
    and a request served by the server.
  \<^item> \<open>System_Run\<close>: the whole server as a step relation of requests, events and time, composed of
    \<open>Http_Api\<close>, \<open>Runtime_Core\<close> and \<open>Auth_Manager\<close>, and what a restart with \<open>Persist_Plugin\<close> finds.

  \<^bold>\<open>Correspondence.\<close> A Go struct is a record whose fields carry a two-letter prefix; a method is a
  definition with the method's name (prefixed where two components share it) that takes and returns the
  state. A \<open>(T, error)\<close> result is a sum, or an optional message. A mutex makes a method one step; where
  the code works outside a lock, the parts are separate steps and the step relation interleaves them. A
  \<open>select\<close> is the list of its enabled outcomes. Clocks, random identifiers and the outcome of file writes
  are arguments, so that every theorem holds for all of them. A Go \<open>map\<close> iterates in the order of its
  association list; no theorem depends on that order. Integers that the code lets overflow keep their
  width: windows and lengths are words, counters and durations wrap at 64 bits.

  \<^bold>\<open>Code outside the repository.\<close> \<open>encoding/json\<close> is modelled between values and JSON trees; for the
  lines of the event log, where bytes matter, it is a pair of parameters with the hypothesis
  \<open>codec_ok\<close> (what was encoded is decoded, and holds no line end). The certificate functions of
  \<open>crypto/x509\<close> and \<open>encoding/pem\<close> are the parameter \<open>crypto\<close> of \<open>Auth_Manager\<close>, without
  hypotheses. The token library of the HTTP interface is the parameter that signs and the one that
  validates; where a property needs it, the hypothesis is that a token it signed is validated.

  \<^bold>\<open>What is shown.\<close>
  \<^item> Data path: frames are read back as written; every reachable multiplexer keeps its queue bounds and
    its channel table; credit is conserved and a drained link never stalls; frame writers end.
  \<^item> Control path: the maps of the state store stay consistent; the bus is a bounded FIFO per type under
    every interleaving and loses nothing it accepted when it closes; a reconcile pass makes the state the
    desired one and leaves a consistent store alone.
  \<^item> Durability: the log, the metadata, the snapshots, the registry and the tags are what a new process
    finds; over the whole core, a restart brings back exactly the proxies there were.
  \<^item> Access: an approved client has a certificate for its own key, and a limited voucher is used at most
    as often as its limit says. A session is registered only with the token of the clients, and one that
    showed a certificate only under the name in it; no handler behind the check of credentials runs
    without them.
  \<^item> Requests: a proxy created through the HTTP interface is in the state of the server once the bus is
    drained, and one deleted is gone; a voucher registers its client with a certificate.
  \<^item> Pairing: a waiting peer or tunnel is given to at most one partner.
  \<^item> Whole server: the invariants of store, registry and bus hold in every state that requests, events and
    time can reach, and what is there survives a restart.
  \<^item> Defects, each as a theorem on the faithful definitions: a window that leaks on partial reads, a
    block that closes the multiplexer, a close that leaves the channel registered, workers that reorder
    frames, publishes that overtake each other, a backoff that overflows, a relay that loses its token, a
    torn line that takes the next event with it, a snapshot without the event it counts, a deleted client
    that stays a member, a listener that no event closes, a proxy key that two client identifiers share, a
    peer left waiting and a tunnel that arrives too late, a closed session that removes its successor, a
    reconnect that loses its connection, a tunnel loop that is not started again, a client token that
    approves its holder, a voucher spent by a registration that fails, an expiry that overflows.

  \<^bold>\<open>Bounds and termination.\<close> No definition uses fuel. The reader loop recurses on the rest of the bytes;
  the writer loop gets a list of write outcomes and is shown to end when each of them makes progress. A
  step relation has no bound on its length. Queue capacities are those of the code.

  \<^bold>\<open>Not modelled.\<close> The copying between sockets (\<open>HandleChannel\<close>, the splice files), TLS and websocket
  transport, the router and the two handlers that call capabilities over a session (\<open>handleCall\<close>,
  \<open>handleCapabilities\<close>), the file plugin, hole punching, the command line, the agent under \<open>BBgrid_Client\<close>, the older server under
  \<open>BBgrid_Server/workers\<close>, generated gRPC code, logging and configuration. In \<open>Runtime_Core\<close> handlers
  of plugins are not run by a turn: they do not change the core.
\<close>

end
